(* ===== verification/Prelude.thy ===== *)
theory Prelude
  imports Main "HOL-Library.Word"
begin

text \<open>
  Shared vocabulary of the development: byte strings as Python's \<open>bytes\<close>, the slices and slice
  assignments the sources use, the big-endian integer fields of Python's \<open>struct\<close> module, and
  the interfaces (locales) that several components share: a fixed-width codec and a machine fed
  by a byte stream that arrives in arbitrary pieces.
\<close>

unbundle bit_operations_syntax

named_theorems py_simps \<open>slices, lengths and struct fields of byte strings\<close>
named_theorems wf_intros \<open>introduction rules for the components' invariants\<close>

type_synonym byte = "8 word"
type_synonym bytes = "byte list"

section \<open>Python slices\<close>

text \<open>\<open>xs[a:b]\<close> for non-negative bounds, as every slice of the modelled sources has.\<close>

definition pslice :: "nat \<Rightarrow> nat \<Rightarrow> 'a list \<Rightarrow> 'a list" where
  "pslice a b xs = take (b - a) (drop a xs)"

text \<open>\<open>xs[a:b] = ys\<close> on a \<open>bytearray\<close>: the new bytes replace the slice, whatever their number.\<close>

definition slice_assign :: "nat \<Rightarrow> nat \<Rightarrow> 'a list \<Rightarrow> 'a list \<Rightarrow> 'a list" where
  "slice_assign a b ys xs = take a xs @ ys @ drop (max a b) xs"

text \<open>\<open>data * n\<close> on a byte string.\<close>

definition repeat_bytes :: "nat \<Rightarrow> 'a list \<Rightarrow> 'a list" where
  "repeat_bytes n xs = concat (replicate n xs)"

text \<open>\<open>range(a, b, step)\<close> for a positive step.\<close>

definition py_range :: "nat \<Rightarrow> nat \<Rightarrow> nat \<Rightarrow> nat list" where
  "py_range a b step = map (\<lambda>k. a + k * step) [0..<(b - a + step - 1) div step]"

lemma py_range_multiple:
  "0 < step \<Longrightarrow> py_range 0 (step * n) step = map (\<lambda>k. k * step) [0..<n]"
proof -
  assume s: "0 < step"
  have "(step * n + step - 1) div step = n"
    using s by (intro div_nat_eqI) (auto simp: algebra_simps)
  then show ?thesis by (simp add: py_range_def)
qed

lemma py_range_bounds: "0 < step \<Longrightarrow> x \<in> set (py_range a b step) \<Longrightarrow> a \<le> x \<and> x < b"
proof -
  assume s: "0 < step" and "x \<in> set (py_range a b step)"
  then obtain k where x: "x = a + k * step" and k: "k < (b - a + step - 1) div step"
    by (auto simp: py_range_def)
  from k have "(k + 1) * step \<le> b - a + step - 1"
    by (metis Suc_eq_plus1 Suc_leI div_le_mono less_eq_div_iff_mult_less_eq s)
  with x s show ?thesis by (simp add: distrib_right)
qed

lemma py_range_empty [simp]: "py_range a a step = []"
  by (cases "step = 0") (simp_all add: py_range_def)

lemma length_pslice [simp, py_simps]: "length (pslice a b xs) = min (b - a) (length xs - a)"
  by (simp add: pslice_def)

lemma nth_pslice [py_simps]:
  "i < b - a \<Longrightarrow> a + i < length xs \<Longrightarrow> pslice a b xs ! i = xs ! (a + i)"
  by (simp add: pslice_def)

lemma length_slice_assign [py_simps]:
  "a \<le> b \<Longrightarrow> b \<le> length xs \<Longrightarrow> length ys = b - a \<Longrightarrow> length (slice_assign a b ys xs) = length xs"
  by (simp add: slice_assign_def max_def)

lemma nth_slice_assign [py_simps]:
  assumes "a \<le> b" "b \<le> length xs" "length ys = b - a" "i < length xs"
  shows "slice_assign a b ys xs ! i = (if a \<le> i \<and> i < b then ys ! (i - a) else xs ! i)"
proof -
  have "slice_assign a b ys xs ! i
      = (if i < a then xs ! i else if i - a < b - a then ys ! (i - a) else xs ! i)"
    using assms by (auto simp: slice_assign_def nth_append max_def)
  then show ?thesis
    using assms by (auto split: if_splits)
qed

lemma length_repeat_bytes [simp, py_simps]: "length (repeat_bytes n xs) = n * length xs"
  by (induction n) (auto simp: repeat_bytes_def)

lemma repeat_bytes_0 [simp]: "repeat_bytes 0 xs = []"
  by (simp add: repeat_bytes_def)

lemma repeat_bytes_Suc: "repeat_bytes (Suc n) xs = xs @ repeat_bytes n xs"
  by (simp add: repeat_bytes_def)

lemma nth_repeat_bytes [py_simps]:
  "i < n * length xs \<Longrightarrow> repeat_bytes n xs ! i = xs ! (i mod length xs)"
proof (induction n arbitrary: i)
  case 0
  then show ?case by simp
next
  case (Suc n)
  show ?case
  proof (cases "i < length xs")
    case True
    then show ?thesis by (simp add: repeat_bytes_Suc nth_append)
  next
    case False
    with Suc.prems have "i - length xs < n * length xs" by auto
    with Suc.IH False show ?thesis
      by (simp add: repeat_bytes_Suc nth_append mod_if [of i])
  qed
qed

lemma splice_same_length:
  "length ys = length xs \<Longrightarrow> slice_assign 0 (length xs) ys xs = ys"
  by (simp add: slice_assign_def)

section \<open>Concatenations of pieces of one length\<close>

lemma length_concat_uniform:
  "(\<And>x. x \<in> set xs \<Longrightarrow> length (f x) = k) \<Longrightarrow> length (concat (map f xs)) = length xs * k"
  by (induction xs) auto

lemma nth_concat_uniform:
  assumes "\<And>x. x \<in> set xs \<Longrightarrow> length (f x) = k" "i < length xs * k"
  shows "concat (map f xs) ! i = f (xs ! (i div k)) ! (i mod k)"
  using assms
proof (induction xs arbitrary: i)
  case Nil
  then show ?case by simp
next
  case (Cons x xs)
  have k: "0 < k" using Cons.prems(2) by (auto intro: gr0I)
  show ?case
  proof (cases "i < k")
    case True
    then show ?thesis using Cons.prems(1) by (simp add: nth_append)
  next
    case False
    then have "i div k = Suc ((i - k) div k)" "i mod k = (i - k) mod k"
      using k by (simp_all add: div_if mod_if [of i])
    moreover have "i - k < length xs * k" using False Cons.prems(2) by auto
    ultimately show ?thesis
      using Cons.IH [of "i - k"] Cons.prems(1) False by (simp add: nth_append)
  qed
qed

lemma take_concat_uniform:
  "(\<And>x. x \<in> set xs \<Longrightarrow> length (f x) = k) \<Longrightarrow>
     take (m * k) (concat (map f xs)) = concat (map f (take m xs))"
proof (induction xs arbitrary: m)
  case Nil
  then show ?case by simp
next
  case (Cons x xs)
  then show ?case by (cases m) auto
qed

lemma drop_concat_uniform:
  "(\<And>x. x \<in> set xs \<Longrightarrow> length (f x) = k) \<Longrightarrow>
     drop (m * k) (concat (map f xs)) = concat (map f (drop m xs))"
proof (induction xs arbitrary: m)
  case Nil
  then show ?case by simp
next
  case (Cons x xs)
  then show ?case by (cases m) auto
qed

lemma concat_pslices:
  "length xs = h * k \<Longrightarrow> concat (map (\<lambda>r. pslice (r * k) (r * k + k) xs) [0..<h]) = xs"
proof (induction h arbitrary: xs)
  case 0
  then show ?case by simp
next
  case (Suc h)
  have "pslice (Suc r * k) (Suc r * k + k) xs = pslice (r * k) (r * k + k) (drop k xs)" for r
    by (simp add: pslice_def add.commute)
  moreover have "pslice (0 * k) (0 * k + k) xs = take k xs" by (simp add: pslice_def)
  moreover have "length (drop k xs) = h * k" using Suc.prems by simp
  ultimately show ?case
    unfolding map_upt_Suc using Suc.IH [of "drop k xs"] by simp
qed

section \<open>Big-endian integers\<close>

text \<open>
  \<open>struct\<close> format characters after \<open>!\<close>: \<open>B\<close>, \<open>H\<close> and \<open>I\<close>/\<open>L\<close> are unsigned big-endian fields of
  one, two and four bytes, \<open>i\<close> the signed four-byte one.  \<open>be_val\<close> reads such a field and is also
  \<open>int.from_bytes(_, "big")\<close>; \<open>be_bytes n\<close> writes a value into \<open>n\<close> bytes.
\<close>

definition be_val :: "bytes \<Rightarrow> nat" where
  "be_val bs = fold (\<lambda>b acc. 256 * acc + unat b) bs 0"

primrec be_bytes :: "nat \<Rightarrow> nat \<Rightarrow> bytes" where
  "be_bytes 0 v = []"
| "be_bytes (Suc n) v = be_bytes n (v div 256) @ [word_of_nat v]"

definition s32_of :: "nat \<Rightarrow> int" where
  "s32_of v = (if v < 2 ^ 31 then int v else int v - 2 ^ 32)"

lemma be_val_Nil [simp]: "be_val [] = 0"
  by (simp add: be_val_def)

lemma be_val_snoc [simp]: "be_val (bs @ [b]) = 256 * be_val bs + unat b"
  by (simp add: be_val_def)

lemma be_val_single [simp]: "be_val [b] = unat b"
  by (simp add: be_val_def)

lemma length_be_bytes [simp, py_simps]: "length (be_bytes n v) = n"
  by (induction n arbitrary: v) auto

lemma unat_byte_of_nat [simp]: "unat (word_of_nat v :: byte) = v mod 256"
  by (simp add: unat_of_nat)

lemma be_val_be_bytes_mod: "be_val (be_bytes n v) = v mod 256 ^ n"
proof (induction n arbitrary: v)
  case 0
  then show ?case by simp
next
  case (Suc n)
  have "256 * (v div 256 mod 256 ^ n) + v mod 256 = v mod (256 * 256 ^ n)"
    by (simp add: mod_mult2_eq)
  with Suc show ?case by simp
qed

lemma be_val_be_bytes [py_simps]: "v < 256 ^ n \<Longrightarrow> be_val (be_bytes n v) = v"
  by (simp add: be_val_be_bytes_mod)

lemma be_val_less: "be_val bs < 256 ^ length bs"
proof (induction bs rule: rev_induct)
  case Nil
  then show ?case by simp
next
  case (snoc b bs)
  have "unat b < 256" using unsigned_less [of b] by simp
  with snoc show ?case by simp
qed

lemma be_bytes_be_val: "length bs = n \<Longrightarrow> be_bytes n (be_val bs) = bs"
proof (induction bs arbitrary: n rule: rev_induct)
  case Nil
  then show ?case by simp
next
  case (snoc b bs)
  have "unat b < 256" using unsigned_less [of b] by simp
  then have "(256 * be_val bs + unat b) div 256 = be_val bs"
    by (simp add: div_add1_eq)
  moreover have "(word_of_nat (256 * be_val bs + unat b) :: byte) = b"
    using \<open>unat b < 256\<close> unat_byte_of_nat [of "256 * be_val bs + unat b"]
    by (simp only: word_unat_eq_iff) simp
  ultimately show ?case
    using snoc by auto
qed

abbreviation u16_at :: "nat \<Rightarrow> bytes \<Rightarrow> nat" where
  "u16_at i bs \<equiv> be_val (pslice i (i + 2) bs)"

abbreviation u32_at :: "nat \<Rightarrow> bytes \<Rightarrow> nat" where
  "u32_at i bs \<equiv> be_val (pslice i (i + 4) bs)"

section \<open>Digits\<close>

definition is_digit :: "byte \<Rightarrow> bool" where
  "is_digit b \<longleftrightarrow> 48 \<le> b \<and> b \<le> 57"

section \<open>Fixed-width codecs\<close>

text \<open>
  What a \<open>struct\<close> format promises: a fixed number of bytes, and reading what was written.  The
  client of the interface is any code that packs a sequence of records back to back.
\<close>

locale fixed_codec =
  fixes width :: nat
    and enc :: "'a \<Rightarrow> bytes"
    and dec :: "bytes \<Rightarrow> 'a"
    and ok :: "'a \<Rightarrow> bool"
  assumes enc_length: "length (enc x) = width"
    and dec_enc: "ok x \<Longrightarrow> dec (enc x) = x"
begin

lemma enc_inj: "ok x \<Longrightarrow> ok y \<Longrightarrow> enc x = enc y \<Longrightarrow> x = y"
  by (metis dec_enc)

lemma dec_prefix: "ok x \<Longrightarrow> dec (take width (enc x @ rest)) = x"
  by (simp add: enc_length dec_enc)

lemma drop_prefix: "drop width (enc x @ rest) = rest"
  by (simp add: enc_length)

lemma length_concat_enc: "length (concat (map enc xs)) = width * length xs"
  by (induction xs) (auto simp: enc_length)

lemma nth_concat_enc:
  "i < length xs \<Longrightarrow> take width (drop (width * i) (concat (map enc xs))) = enc (xs ! i)"
proof (induction xs arbitrary: i)
  case Nil
  then show ?case by simp
next
  case (Cons x xs)
  then show ?case by (cases i) (auto simp: enc_length)
qed

lemma dec_concat_enc:
  "list_all ok xs \<Longrightarrow>
     map (\<lambda>i. dec (take width (drop (width * i) (concat (map enc xs))))) [0..<length xs] = xs"
  by (rule nth_equalityI) (auto simp: nth_concat_enc dec_enc list_all_length)

end

interpretation u8_codec: fixed_codec 1 "be_bytes 1" be_val "\<lambda>v. v < 256"
  by unfold_locales (auto simp: be_val_be_bytes_mod)

interpretation u16_codec: fixed_codec 2 "be_bytes 2" be_val "\<lambda>v. v < 65536"
  by unfold_locales (auto simp: be_val_be_bytes_mod)

interpretation u32_codec: fixed_codec 4 "be_bytes 4" be_val "\<lambda>v. v < 4294967296"
  by unfold_locales (auto simp: be_val_be_bytes_mod)

section \<open>Machines fed by a byte stream\<close>

text \<open>
  TCP is a stream with no framing: what one \<open>write\<close> sent may arrive as several
  \<open>dataReceived\<close> calls and the other way round.  A consumer that keeps its own
  buffer must not notice.  The law relates one delivery to two; the lemma lifts it to any two ways
  of cutting the same stream.
\<close>

fun feed_all :: "(bytes \<Rightarrow> 's \<Rightarrow> 'o list \<times> 's) \<Rightarrow> bytes list \<Rightarrow> 's \<Rightarrow> 'o list \<times> 's" where
  "feed_all feed [] s = ([], s)"
| "feed_all feed (d # ds) s =
     (let (out1, s1) = feed d s; (out2, s2) = feed_all feed ds s1 in (out1 @ out2, s2))"

locale stream_machine =
  fixes feed :: "bytes \<Rightarrow> 's \<Rightarrow> 'o list \<times> 's"
    and inv :: "'s \<Rightarrow> bool"
  assumes feed_nil: "inv s \<Longrightarrow> feed [] s = ([], s)"
    and feed_append: "inv s \<Longrightarrow>
      feed (d1 @ d2) s =
        (let (out1, s1) = feed d1 s; (out2, s2) = feed d2 s1 in (out1 @ out2, s2))"
    and feed_inv: "inv s \<Longrightarrow> feed d s = (out, s') \<Longrightarrow> inv s'"
begin

lemma feed_all_concat: "inv s \<Longrightarrow> feed_all feed ds s = feed (concat ds) s"
proof (induction ds arbitrary: s)
  case Nil
  then show ?case by (simp add: feed_nil)
next
  case (Cons d ds)
  obtain out1 s1 where 1: "feed d s = (out1, s1)" by fastforce
  with Cons.prems have "inv s1" by (rule feed_inv)
  with Cons.IH Cons.prems show ?case by (simp add: 1 feed_append)
qed

lemma chunking_irrelevant:
  "inv s \<Longrightarrow> concat ds = concat es \<Longrightarrow> feed_all feed ds s = feed_all feed es s"
  by (simp add: feed_all_concat)

end

end
