(* ===== verification/Const.thy ===== *)
theory Const
  imports Prelude
begin

text \<open>
  \<open>vncdotool/const.py\<close>: the protocol's enumerations, as tables of (member name, value as written),
  the lookup from a wire value to a member that every \<open>IntEnumLookup\<close> offers, the \<open>Encoding\<close> class
  with its signed reading of the vendor encodings, and the way members are named in messages.
  A Python enumeration finds a member by its \<open>_value_\<close>, which for \<open>Encoding\<close> is the literal of the
  class body, while the member as an integer is that literal through \<open>s32\<close>.
\<close>

section \<open>Naming a value\<close>

text \<open>\<open>f"{value}"\<close> and \<open>f"{value:x}"\<close>, with the digits most significant first.\<close>

definition digit_char :: "nat \<Rightarrow> char" where
  "digit_char d = (if d < 10 then char_of (48 + d) else char_of (87 + d))"

fun show_base :: "nat \<Rightarrow> nat \<Rightarrow> string" where
  "show_base b n = (if b < 2 \<or> n < b then [digit_char n]
                    else show_base b (n div b) @ [digit_char (n mod b)])"

declare show_base.simps [simp del]

definition show_int :: "int \<Rightarrow> string" where
  "show_int v = (if v < 0 then CHR ''-'' # show_base 10 (nat (- v)) else show_base 10 (nat v))"

definition named :: "string \<Rightarrow> int \<Rightarrow> string" where
  "named name value =
     name @ '' ('' @ (if 65536 \<le> value then ''0x'' @ show_base 16 (nat value) else show_int value) @ '')''"

section \<open>The enumerations\<close>

definition encoding_members :: "(string \<times> int) list" where
  "encoding_members = [
    (''RAW'', 0), (''COPY_RECTANGLE'', 1), (''RRE'', 2), (''CORRE'', 4), (''HEXTILE'', 5),
    (''ZLIB'', 6), (''TIGHT'', 7), (''ZLIBHEX'', 8), (''ULTRA'', 9), (''ULTRA2'', 10),
    (''TRLE'', 15), (''ZRLE'', 16), (''HITACHI_ZYWRLE'', 17), (''H264'', 20), (''JPEG'', 21),
    (''JRLE'', 22), (''OPEN_H264'', 50), (''APPLE_1000'', 1000), (''APPLE_1001'', 1001),
    (''APPLE_1002'', 1002), (''APPLE_1011'', 1011), (''REAL_1024'', 1024), (''APPLE_1100'', 1100),
    (''APPLE_1101'', 1101), (''APPLE_1102'', 1102), (''APPLE_1103'', 1103), (''APPLE_1104'', 1104),
    (''APPLE_1105'', 1105), (''TIGHT_1'', - 1), (''JPEG_23'', - 23), (''JPEG_24'', - 24),
    (''JPEG_25'', - 25), (''JPEG_26'', - 26), (''JPEG_27'', - 27), (''JPEG_28'', - 28),
    (''JPEG_29'', - 29), (''JPEG_30'', - 30), (''JPEG_31'', - 31), (''JPEG_32'', - 32),
    (''TIGHT_33'', - 33), (''LIBVNCSERVER_219'', - 219), (''LIBVNCSERVER_220'', - 220),
    (''LIBVNCSERVER_221'', - 221), (''LIBVNCSERVER_222'', - 222), (''PSEUDO_DESKTOP_SIZE'', - 223),
    (''PSEUDO_LAST_RECT'', - 224), (''POINTER_POS'', - 225), (''TIGHT_226'', - 226),
    (''PSEUDO_POINTER_POS'', - 232), (''TIGHT_233'', - 233), (''PSEUDO_CURSOR'', - 239),
    (''PSEUDO_X_CURSOR'', - 240), (''TIGHT_241'', - 241),
    (''PSEUDO_COMPRESSION_LEVEL_247'', - 247), (''PSEUDO_COMPRESSION_LEVEL_248'', - 248),
    (''PSEUDO_COMPRESSION_LEVEL_249'', - 249), (''PSEUDO_COMPRESSION_LEVEL_250'', - 250),
    (''PSEUDO_COMPRESSION_LEVEL_251'', - 251), (''PSEUDO_COMPRESSION_LEVEL_252'', - 252),
    (''PSEUDO_COMPRESSION_LEVEL_253'', - 253), (''PSEUDO_COMPRESSION_LEVEL_254'', - 254),
    (''PSEUDO_COMPRESSION_LEVEL_255'', - 255), (''PSEUDO_COMPRESSION_LEVEL_256'', - 256),
    (''PSEUDO_QEMU_POINTER_MODTION_CHANGE'', - 257), (''PSEUDO_QEMU_EXTENDED_KEY_EVENT'', - 258),
    (''PSEUDO_QEMU_AUDIO'', - 259), (''TIGHT_PNG'', - 260), (''PSEUDO_QEMU_LED_STATE'', - 261),
    (''QEMU_262'', - 262), (''VMWARE_273'', - 273), (''PSEUDO_GII'', - 305), (''POPA'', - 306),
    (''PSEUDO_DESKTOP_NAME'', - 307), (''PSEUDO_EXTENDED_DESKTOP_SIZE'', - 308),
    (''PSEUDO_XVO'', - 309), (''OLIVE_CALL_CONTROL'', - 310), (''CLIENT_REDIRECT'', - 311),
    (''PSEUDO_FENCE'', - 312), (''PSEUDO_CONTINUOUS_UPDATES'', - 313),
    (''PSEUDO_CURSOR_WITH_ALPHA'', - 314), (''PSEUDO_JPEG_FINE_GRAINED_QUALITY_LEVEL'', - 412),
    (''CAR_CONNECTIVITY_523'', - 523), (''PSEUDO_JPEG_SUBSAMLING_LEVEL'', - 763),
    (''VA_H264'', 1211250228), (''VMWARE_0X574D5600'', 1464686080),
    (''PSEUDO_VMWARE_CURSOR'', 1464686180), (''PSEUDO_VMWARE_CURSOR_STATE'', 1464686181),
    (''PSEUDO_VMWARE_CURSOR_POSITION'', 1464686182), (''PSEUDO_VMWARE_KEY_REPEAT'', 1464686183),
    (''PSEUDO_VMWARE_LED_STATE'', 1464686184), (''PSEUDO_VMWARE_DISPLAY_MODE_CHANGE'', 1464686185),
    (''PSEUDO_VMWARE_VIRTUAL_MACHINE_STATE'', 1464686186),
    (''PSEUDO_EXTENDED_CLIPBOARD'', 3231835598), (''PLUGIN_STREAMING'', 3231835599),
    (''KEYBOARD_LED_STATE'', 4294836224), (''SUPPORTED_MESSAGES'', 4294836225),
    (''SUPPORTED_ENCODINGS'', 4294836226), (''SERVER_IDENTITY'', 4294836227),
    (''LIBVNCSERVER_0XFFFE0004'', 4294836228), (''CACHE'', 4294901760),
    (''CACHE_ENABLE'', 4294901761), (''XOR_ZLIB'', 4294901762),
    (''XOR_MONO_RECT_ZLIB'', 4294901763), (''XOR_MULTI_COLOR_ZLIB'', 4294901764),
    (''SOLID_COLOR'', 4294901765), (''XOR_ENABLE'', 4294901766), (''CACHE_ZIP'', 4294901767),
    (''SOL_MONO_ZIP'', 4294901768), (''ULTRA_ZIP'', 4294901769), (''SERVER_STATE'', 4294934528),
    (''ENABLE_KEEP_ALIVE'', 4294934529), (''FTP_PROTOCOl_VERSION'', 4294934530),
    (''SESSION'', 4294934531)]"

definition hextile_members :: "(string \<times> int) list" where
  "hextile_members = [
    (''RAW'', 1), (''BACKGROUND_SPECIFIED'', 2), (''FOREGROUND_SPECIFIED'', 4),
    (''ANY_SUBRECTS'', 8), (''SUBRECTS_COLORED'', 16)]"

definition fence_members :: "(string \<times> int) list" where
  "fence_members = [
    (''BLOCK_BEFORE'', 1), (''BLOCK_AFTER'', 2), (''SYNC_NEXT'', 4), (''REQUEST'', 2147483648)]"

definition auth_members :: "(string \<times> int) list" where
  "auth_members = [
    (''INVALID'', 0), (''NONE'', 1), (''VNC_AUTHENTICATION'', 2), (''REALVNC_3'', 3),
    (''REALVNC_4'', 4), (''RSA_AES'', 5), (''RSA_AES_UNENCRYPTED'', 6), (''REALVNC_7'', 7),
    (''REALVNC_8'', 8), (''REALVNC_9'', 9), (''REALVNC_10'', 10), (''REALVNC_11'', 11),
    (''REALVNC_12'', 12), (''RSA_AES_2STEP'', 13), (''REALVNC_14'', 14), (''REALVNC_15'', 15),
    (''TIGHT'', 16), (''ULTRA'', 17), (''TLS'', 18), (''VENCRYPT'', 19), (''SASL'', 20),
    (''MD5'', 21), (''XVP'', 22), (''SECURE_TUNNEL'', 23), (''INTEGRATED_SSH'', 24),
    (''DIFFIE_HELLMAN'', 30), (''APPLE_31'', 31), (''APPLE_32'', 32), (''APPLE_33'', 33),
    (''APPLE_34'', 34), (''APPLE_35'', 35), (''MSLOGON2'', 113), (''REALVNC_128'', 128),
    (''RSA_AES256'', 129), (''RSA_AES256_UNENCRYPTED'', 130), (''REALVNC_131'', 131),
    (''REALVNC_132'', 132), (''RSA_AES256_2STEP'', 133), (''REALVNC_134'', 134),
    (''REALVNC_192'', 192)]"

definition vencrypt_members :: "(string \<times> int) list" where
  "vencrypt_members = [
    (''PLAIN'', 256), (''TLS_NONE'', 257), (''TLS_VNC'', 258), (''TLS_PLAIN'', 259),
    (''X509_NONE'', 260), (''X509_VNC'', 261), (''X509_PLAIN'', 262), (''TLS_SASL'', 263),
    (''X509_SASL'', 264), (''IDENT'', 265), (''TLS_IDENT'', 266), (''X509_IDENT'', 267)]"

definition msg_s2c_members :: "(string \<times> int) list" where
  "msg_s2c_members = [
    (''FRAMEBUFFER_UPDATE'', 0), (''SET_COLOUR_MAP_ENTRIES'', 1), (''BELL'', 2),
    (''SERVER_CUT_TEXT'', 3), (''RESIZE_FRAME_BUFFER_4'', 4), (''KEY_FRAME_UPDATE'', 5),
    (''ULTRA_6'', 6), (''FILE_TRANSFER'', 7), (''ULTRA_8'', 8), (''ULTRA_9'', 9),
    (''ULTRA_10'', 10), (''TEXT_CHAT'', 11), (''ULTRA_12'', 12), (''KEEP_ALIVE'', 13),
    (''ULTRA_14'', 14), (''RESIZE_FRAME_BUFFER_15'', 15), (''VMWARE_127'', 127),
    (''CAR_CONNECTIVITY'', 128), (''END_OF_CONTINUOUS_UPDATES'', 150), (''SERVER_STATE'', 173),
    (''SERVER_FENCE'', 248), (''OLIVE_CALL_CONTROL'', 249), (''XVP_SERVER_MESSAGE'', 250),
    (''TIGHT'', 252), (''GII_SERVER_MESSAGE'', 253), (''VMWARE_254'', 254),
    (''QEMU_SERVER_MESSAGE'', 255)]"

definition msg_c2s_members :: "(string \<times> int) list" where
  "msg_c2s_members = [
    (''SET_PIXEL_FORMAT'', 0), (''SET_ENCODING'', 2), (''FRAMEBUFFER_UPDATE_REQUEST'', 3),
    (''KEY_EVENT'', 4), (''POINTER_EVENT'', 5), (''CLIENT_CUT_TEXT'', 6), (''FILE_TRANSFER'', 7),
    (''SET_SCALE'', 8), (''SET_SERVER_INPUT'', 9), (''SET_SW'', 10), (''TEXT_CHAT'', 11),
    (''KEY_FRAME_REquest'', 12), (''KEEP_ALIVE'', 13), (''ULTRA_14'', 14),
    (''SET_SCALE_FACTOR'', 15), (''ULTRA_16'', 16), (''ULTRA_17'', 17), (''ULTRA_18'', 18),
    (''ULTRA_19'', 19), (''REQUEST_SESSION'', 20), (''SET_SESSION'', 21),
    (''NOTIFY_PLUGIN_STREAMING'', 80), (''VMWARE_127'', 127), (''CAR_CONNECTIVITY'', 128),
    (''ENABLE_CONTINUOUS_UPDATES'', 150), (''CLIENT_FENCE'', 248), (''OLIVE_CALL_CONTROL'', 249),
    (''XVP_CLIENT_MESSAGE'', 250), (''SET_DESKTOP_SIZE'', 251), (''TIGHT'', 252),
    (''GII_CLIENT_MESSAGE'', 253), (''VMWARE_254'', 254), (''QEMU_CLIENT_MESSAGE'', 255)]"

definition qemu_members :: "(string \<times> int) list" where
  "qemu_members = [
    (''EXTENDED_KEY_EVENT'', 0), (''AUDIO'', 1)]"

definition vencrypt_subtype_names :: "(int \<times> string) list" where
  "vencrypt_subtype_names = [
    (256, ''Plain''),
    (257, ''TLSNone''),
    (258, ''TLSVnc''),
    (259, ''TLSPlain''),
    (260, ''X509None''),
    (261, ''X509Vnc''),
    (262, ''X509Plain''),
    (263, ''TLSSASL''),
    (264, ''X509SASL''),
    (265, ''Ident''),
    (266, ''TLSIdent''),
    (267, ''X509Ident'')]"

definition auth_type_names :: "(int \<times> string) list" where
  "auth_type_names = [
    (0, ''Invalid''),
    (1, ''None''),
    (2, ''VNC Authentication''),
    (5, ''RSA-AES''),
    (6, ''RSA-AES Unencrypted''),
    (13, ''RSA-AES Two-step''),
    (16, ''Tight''),
    (17, ''Ultra''),
    (18, ''TLS''),
    (19, ''VeNCrypt''),
    (20, ''SASL''),
    (21, ''MD5 hash authentication''),
    (22, ''xvp''),
    (23, ''Secure Tunnel''),
    (24, ''Integrated SSH''),
    (30, ''Diffie-Hellman''),
    (113, ''MSLogonII''),
    (129, ''RSA-AES-256''),
    (130, ''RSA-AES-256 Unencrypted''),
    (133, ''RSA-AES-256 Two-step'')]"

section \<open>Lookup\<close>

text \<open>A member with its name and \<open>_value_\<close>, or the \<open>Unknown\<close> that carries the number alone.\<close>

datatype looked_up = Member string int | Unknown int

fun value_map :: "(string \<times> int) list \<Rightarrow> int \<Rightarrow> looked_up option" where
  "value_map [] v = None"
| "value_map ((n, w) # ms) v = (if v = w then Some (Member n w) else value_map ms v)"

definition enum_lookup :: "(string \<times> int) list \<Rightarrow> int \<Rightarrow> looked_up" where
  "enum_lookup members v =
     (case value_map members v of None \<Rightarrow> Unknown v | Some m \<Rightarrow> m)"

definition s32 :: "int \<Rightarrow> int" where
  "s32 v = (if 2147483648 \<le> v then v - 4294967296 else v)"

definition encoding_lookup :: "int \<Rightarrow> looked_up" where
  "encoding_lookup v = enum_lookup encoding_members (s32 v)"

text \<open>The integer an \<open>Encoding\<close> member is, from the literal that wrote it.\<close>

definition encoding_int :: "int \<Rightarrow> int" where
  "encoding_int literal = s32 literal"

definition auth_lookup :: "int \<Rightarrow> looked_up" where
  "auth_lookup v = enum_lookup auth_members v"

definition vencrypt_lookup :: "int \<Rightarrow> looked_up" where
  "vencrypt_lookup v = enum_lookup vencrypt_members v"

definition msg_s2c_lookup :: "int \<Rightarrow> looked_up" where
  "msg_s2c_lookup v = enum_lookup msg_s2c_members v"

text \<open>\<open>str()\<close> of a looked-up value; \<open>label\<close> is the class's property, the name by default.\<close>

definition looked_up_str :: "(string \<Rightarrow> int \<Rightarrow> string) \<Rightarrow> looked_up \<Rightarrow> string" where
  "looked_up_str label u =
     (case u of Member n v \<Rightarrow> named (label n v) v | Unknown v \<Rightarrow> named ''unknown'' v)"

definition table_label :: "(int \<times> string) list \<Rightarrow> string \<Rightarrow> int \<Rightarrow> string" where
  "table_label names n v = (case map_of names v of None \<Rightarrow> n | Some s \<Rightarrow> s)"

definition auth_str :: "int \<Rightarrow> string" where
  "auth_str v = looked_up_str (table_label auth_type_names) (auth_lookup v)"

definition vencrypt_str :: "int \<Rightarrow> string" where
  "vencrypt_str v = looked_up_str (table_label vencrypt_subtype_names) (vencrypt_lookup v)"

definition msg_s2c_str :: "int \<Rightarrow> string" where
  "msg_s2c_str v = looked_up_str (\<lambda>n _. n) (msg_s2c_lookup v)"

definition encoding_str :: "int \<Rightarrow> string" where
  "encoding_str v = looked_up_str (\<lambda>n _. n) (encoding_lookup v)"

text \<open>\<open>JPEG_QUALITY_ENCODINGS\<close>: level 0 is \<open>-32\<close>, level 9 is \<open>-23\<close>.\<close>

definition jpeg_quality_encodings :: "int list" where
  "jpeg_quality_encodings = map (\<lambda>level. - 32 + int level) [0..<10]"

section \<open>The numbers the modelled code compares with\<close>

abbreviation (input) RAW :: int where "RAW \<equiv> 0"
abbreviation (input) COPY_RECTANGLE :: int where "COPY_RECTANGLE \<equiv> 1"
abbreviation (input) RRE :: int where "RRE \<equiv> 2"
abbreviation (input) CORRE :: int where "CORRE \<equiv> 4"
abbreviation (input) HEXTILE :: int where "HEXTILE \<equiv> 5"
abbreviation (input) TIGHT :: int where "TIGHT \<equiv> 7"
abbreviation (input) ZRLE :: int where "ZRLE \<equiv> 16"
abbreviation (input) PSEUDO_DESKTOP_SIZE :: int where "PSEUDO_DESKTOP_SIZE \<equiv> - 223"
abbreviation (input) PSEUDO_LAST_RECT :: int where "PSEUDO_LAST_RECT \<equiv> - 224"
abbreviation (input) PSEUDO_POINTER_POS :: int where "PSEUDO_POINTER_POS \<equiv> - 232"
abbreviation (input) PSEUDO_CURSOR :: int where "PSEUDO_CURSOR \<equiv> - 239"
abbreviation (input) PSEUDO_QEMU_EXTENDED_KEY_EVENT :: int where
  "PSEUDO_QEMU_EXTENDED_KEY_EVENT \<equiv> - 258"
abbreviation (input) PSEUDO_FENCE :: int where "PSEUDO_FENCE \<equiv> - 312"

section \<open>Lemmas\<close>

lemma value_map_sound: "value_map ms v = Some m \<Longrightarrow> \<exists>n. m = Member n v \<and> (n, v) \<in> set ms"
  by (induction ms v rule: value_map.induct) (auto split: if_splits)

lemma value_map_None_iff: "value_map ms v = None \<longleftrightarrow> v \<notin> snd ` set ms"
  by (induction ms v rule: value_map.induct) auto

lemma value_map_distinct:
  "distinct (map snd ms) \<Longrightarrow> (n, v) \<in> set ms \<Longrightarrow> value_map ms v = Some (Member n v)"
  by (induction ms v rule: value_map.induct) (auto simp: rev_image_eqI)

lemma s32_idem: "v < 4294967296 \<Longrightarrow> s32 (s32 v) = s32 v"
  by (simp add: s32_def)

lemma s32_range: "- 2147483648 \<le> v \<Longrightarrow> v < 4294967296 \<Longrightarrow>
    - 2147483648 \<le> s32 v \<and> s32 v < 2147483648"
  by (simp add: s32_def)

lemma s32_of_s32: "v < 4294967296 \<Longrightarrow> s32_of v = s32 (int v)"
  by (auto simp: s32_of_def s32_def)

lemma encoding_values_distinct: "distinct (map snd encoding_members)"
  by (simp add: encoding_members_def)

lemma encoding_values_range:
  "(n, v) \<in> set encoding_members \<Longrightarrow> - 768 \<le> v \<and> v < 4294967296"
  by (auto simp: encoding_members_def)

lemma no_negative_vendor_value:
  "(n, v) \<in> set encoding_members \<Longrightarrow> v < 0 \<Longrightarrow> - 768 \<le> v"
  by (auto simp: encoding_members_def)

lemma vendor_literals_high:
  "(n, v) \<in> set encoding_members \<Longrightarrow> 2147483648 \<le> v \<Longrightarrow> v \<le> 4294934531"
  by (auto simp: encoding_members_def)

section \<open>Properties\<close>

lemma value_map_of_range:
  assumes "\<And>n w. (n, w) \<in> set ms \<Longrightarrow> w \<noteq> v"
  shows "value_map ms v = None"
  using assms by (fastforce simp: value_map_None_iff)

text \<open>
  Which encodings a lookup can name. Every member of the class written with a number below 2^31 is
  found under its number, whether the number arrives signed or as the unsigned 32-bit value of the
  wire; and no member written with a larger number is ever found, since the table of members is keyed by
  the literal and the lookup by its signed reading.
\<close>

theorem encoding_lookup_members:
  "list_all (\<lambda>(n, v).
     encoding_lookup v = (if v < 2147483648 then Member n v else Unknown (s32 v)) \<and>
     encoding_lookup (if v < 0 then v + 4294967296 else v) = encoding_lookup v) encoding_members"
proof -
  have "encoding_lookup v = (if v < 2147483648 then Member n v else Unknown (s32 v)) \<and>
     encoding_lookup (if v < 0 then v + 4294967296 else v) = encoding_lookup v"
    if m: "(n, v) \<in> set encoding_members" for n v
  proof (cases "v < 2147483648")
    case True
    then have "s32 v = v" "s32 (if v < 0 then v + 4294967296 else v) = v"
      using encoding_values_range [OF m] by (auto simp: s32_def)
    then have r: "s32 v = v" "s32 (if v < 0 then v + 4294967296 else v) = v" by simp_all
    have "encoding_lookup (if v < 0 then v + 4294967296 else v) = encoding_lookup v"
      unfolding encoding_lookup_def enum_lookup_def r ..
    moreover have "encoding_lookup v = Member n v"
      unfolding encoding_lookup_def enum_lookup_def r value_map_distinct [OF encoding_values_distinct m]
      by simp
    ultimately show ?thesis using True by simp
  next
    case False
    then have v: "s32 v = v - 4294967296" "v \<le> 4294934531"
      using vendor_literals_high [OF m] by (simp_all add: s32_def)
    have "w \<noteq> s32 v" if "(k, w) \<in> set encoding_members" for k w
      using encoding_values_range [OF that] v by auto
    then have "value_map encoding_members (s32 v) = None" by (rule value_map_of_range)
    then show ?thesis using False by (simp add: encoding_lookup_def enum_lookup_def)
  qed
  then show ?thesis unfolding list_all_iff by blast
qed

end
