(* ===== verification/PixelFormats.thy ===== *)
theory PixelFormats
  imports Prelude
begin

text \<open>
  \<open>vncdotool/pixelformat.py\<close>: the wire structure of RFC 6143 section 7.4, its resolution to a Pillow
  raw mode, and the CPIXEL and TPIXEL widths of ZRLE and Tight.  The last section says what these
  numbers have to mean: the channels of a pixel value read off the wire.
\<close>

section \<open>The wire structure\<close>

record pixel_format =
  bpp :: nat
  depth :: nat
  bigendian :: bool
  truecolor :: bool
  redmax :: nat
  greenmax :: nat
  bluemax :: nat
  redshift :: nat
  greenshift :: nat
  blueshift :: nat

definition default_pixel_format :: pixel_format where
  "default_pixel_format = \<lparr>bpp = 32, depth = 24, bigendian = False, truecolor = True,
     redmax = 255, greenmax = 255, bluemax = 255, redshift = 0, greenshift = 8, blueshift = 16\<rparr>"

fun bit_length :: "nat \<Rightarrow> nat" where
  "bit_length n = (if n = 0 then 0 else Suc (bit_length (n div 2)))"

declare bit_length.simps [simp del]

text \<open>What \<open>__post_init__\<close> asserts when \<open>VALIDATE\<close> is set, which only the tests do.\<close>

definition post_init_asserts :: "pixel_format \<Rightarrow> bool" where
  "post_init_asserts pf \<longleftrightarrow>
     bpp pf \<in> {8, 16, 24, 32} \<and> 1 \<le> depth pf \<and> depth pf \<le> bpp pf \<and>
     (truecolor pf \<longrightarrow>
       (\<forall>(mx, shift) \<in> set [(redmax pf, redshift pf), (greenmax pf, greenshift pf),
                            (bluemax pf, blueshift pf)].
          1 \<le> mx \<and> mx \<le> 65535 \<and> mx AND (mx + 1) = 0 \<and>
          int shift \<le> int (bpp pf) - int (bit_length mx)))"

definition bypp :: "pixel_format \<Rightarrow> nat" where
  "bypp pf = (7 + bpp pf) div 8"

text \<open>The format string is \<open>!BB??HHHBBBxxx\<close>; a \<open>?\<close> reads as true for any non-zero byte.\<close>

definition from_bytes :: "bytes \<Rightarrow> pixel_format" where
  "from_bytes block = \<lparr>
     bpp = unat (block ! 0), depth = unat (block ! 1),
     bigendian = (block ! 2 \<noteq> 0), truecolor = (block ! 3 \<noteq> 0),
     redmax = u16_at 4 block, greenmax = u16_at 6 block, bluemax = u16_at 8 block,
     redshift = unat (block ! 10), greenshift = unat (block ! 11), blueshift = unat (block ! 12)\<rparr>"

definition to_bytes :: "pixel_format \<Rightarrow> bytes" where
  "to_bytes pf =
     be_bytes 1 (bpp pf) @ be_bytes 1 (depth pf) @
     [if bigendian pf then 1 else 0] @ [if truecolor pf then 1 else 0] @
     be_bytes 2 (redmax pf) @ be_bytes 2 (greenmax pf) @ be_bytes 2 (bluemax pf) @
     be_bytes 1 (redshift pf) @ be_bytes 1 (greenshift pf) @ be_bytes 1 (blueshift pf) @
     [0, 0, 0]"

text \<open>Every field fits its \<open>struct\<close> slot; \<open>Struct.pack\<close> raises otherwise.\<close>

definition packable :: "pixel_format \<Rightarrow> bool" where
  "packable pf \<longleftrightarrow> bpp pf < 256 \<and> depth pf < 256 \<and>
     redmax pf < 65536 \<and> greenmax pf < 65536 \<and> bluemax pf < 65536 \<and>
     redshift pf < 256 \<and> greenshift pf < 256 \<and> blueshift pf < 256"

section \<open>Pillow raw modes\<close>

datatype pf_error =
    ColourMapped
  | ChannelWidths nat "nat \<times> nat \<times> nat"
  | ShiftNotAligned nat
  | ChannelsShareByte int
  | LayoutHasNoMode nat string
  | BigEndian16
  | Layout16HasNoMode "nat \<times> nat \<times> nat" "nat \<times> nat \<times> nat"
  | BppNotSupported nat

definition channel_widths :: "pixel_format \<Rightarrow> nat \<times> nat \<times> nat" where
  "channel_widths pf =
     (bit_length (redmax pf), bit_length (greenmax pf), bit_length (bluemax pf))"

text \<open>The dictionary \<open>positions\<close> maps a byte to the channel it carries.\<close>

definition place_channel ::
  "bool \<Rightarrow> nat \<Rightarrow> nat \<times> char \<Rightarrow> (int \<rightharpoonup> char) \<Rightarrow> pf_error + (int \<rightharpoonup> char)" where
  "place_channel big nbytes sc positions =
     (let (shift, channel) = sc in
      if shift mod 8 \<noteq> 0 then Inl (ShiftNotAligned shift)
      else let pos0 = int (shift div 8);
               pos = (if \<not> big then pos0 else int nbytes - 1 - pos0)
           in if positions pos \<noteq> None then Inl (ChannelsShareByte pos)
              else Inr (positions(pos \<mapsto> channel)))"

fun place_channels ::
  "bool \<Rightarrow> nat \<Rightarrow> (nat \<times> char) list \<Rightarrow> (int \<rightharpoonup> char) \<Rightarrow> pf_error + (int \<rightharpoonup> char)" where
  "place_channels big nbytes [] positions = Inr positions"
| "place_channels big nbytes (sc # scs) positions =
     (case place_channel big nbytes sc positions of
        Inl e \<Rightarrow> Inl e
      | Inr positions' \<Rightarrow> place_channels big nbytes scs positions')"

definition byte_positions :: "pixel_format \<Rightarrow> nat \<Rightarrow> pf_error + (int \<rightharpoonup> char)" where
  "byte_positions pf nbytes =
     place_channels (bigendian pf) nbytes
       [(redshift pf, CHR ''R''), (greenshift pf, CHR ''G''), (blueshift pf, CHR ''B'')] Map.empty"

definition mode_string :: "(int \<rightharpoonup> char) \<Rightarrow> nat \<Rightarrow> string" where
  "mode_string positions nbytes =
     map (\<lambda>i. case positions (int i) of None \<Rightarrow> CHR ''X'' | Some c \<Rightarrow> c) [0..<nbytes]"

definition modes_32bpp :: "string list" where
  "modes_32bpp = [''RGBX'', ''BGRX'', ''XRGB'', ''XBGR'']"

definition modes_24bpp :: "string list" where
  "modes_24bpp = [''RGB'', ''BGR'']"

definition modes_16bpp :: "(((nat \<times> nat \<times> nat) \<times> (nat \<times> nat \<times> nat)) \<times> string) list" where
  "modes_16bpp = [
     (((5, 6, 5), (11, 5, 0)), ''BGR;16''),
     (((5, 6, 5), (0, 5, 11)), ''RGB;16''),
     (((5, 5, 5), (10, 5, 0)), ''BGR;15''),
     (((5, 5, 5), (0, 5, 10)), ''RGB;15''),
     (((4, 4, 4), (0, 4, 8)), ''RGB;4B'')]"

definition byte_layout_mode :: "pixel_format \<Rightarrow> nat \<Rightarrow> string list \<Rightarrow> pf_error + string" where
  "byte_layout_mode pf nbytes known =
     (if channel_widths pf \<noteq> (8, 8, 8) then Inl (ChannelWidths (bpp pf) (channel_widths pf))
      else case byte_positions pf nbytes of
             Inl e \<Rightarrow> Inl e
           | Inr positions \<Rightarrow>
               (let mode = mode_string positions nbytes in
                if mode \<notin> set known then Inl (LayoutHasNoMode (bpp pf) mode) else Inr mode))"

definition raw_mode :: "pixel_format \<Rightarrow> pf_error + string" where
  "raw_mode pf =
     (if \<not> truecolor pf then Inl ColourMapped
      else if bpp pf = 32 then byte_layout_mode pf 4 modes_32bpp
      else if bpp pf = 24 then byte_layout_mode pf 3 modes_24bpp
      else if bpp pf = 16 then
        (if bigendian pf then Inl BigEndian16
         else let shifts = (redshift pf, greenshift pf, blueshift pf) in
              case map_of modes_16bpp (channel_widths pf, shifts) of
                None \<Rightarrow> Inl (Layout16HasNoMode (channel_widths pf) shifts)
              | Some mode \<Rightarrow> Inr mode)
      else Inl (BppNotSupported (bpp pf)))"

definition channel_tolerance :: "pixel_format \<Rightarrow> pf_error + nat \<times> nat \<times> nat" where
  "channel_tolerance pf =
     (if \<not> truecolor pf then Inl ColourMapped
      else let (red, green, blue) = channel_widths pf in
           Inr (255 div 2 ^ red, 255 div 2 ^ green, 255 div 2 ^ blue))"

section \<open>CPIXEL and TPIXEL\<close>

datatype placement = Low | High

definition cpixel_placement :: "pixel_format \<Rightarrow> placement option" where
  "cpixel_placement pf =
     (let (red, green, blue) = channel_widths pf;
          fits_low = (redshift pf + red \<le> 24 \<and> greenshift pf + green \<le> 24 \<and>
                      blueshift pf + blue \<le> 24);
          fits_high = (8 \<le> redshift pf \<and> 8 \<le> greenshift pf \<and> 8 \<le> blueshift pf)
      in if fits_low then Some Low else if fits_high then Some High else None)"

definition cpixel_bytes :: "pixel_format \<Rightarrow> nat" where
  "cpixel_bytes pf =
     (if truecolor pf \<and> bpp pf = 32 \<and> cpixel_placement pf \<noteq> None then 3 else bypp pf)"

definition cpixel_offset :: "pixel_format \<Rightarrow> nat" where
  "cpixel_offset pf =
     (if cpixel_bytes pf \<noteq> 3 then 0
      else let low = (cpixel_placement pf = Some Low) in
           if low \<noteq> bigendian pf then 0 else bypp pf - 3)"

definition tpixel_bytes :: "pixel_format \<Rightarrow> nat" where
  "tpixel_bytes pf =
     (if truecolor pf \<and> bpp pf = 32 \<and> depth pf = 24 \<and> channel_widths pf = (8, 8, 8)
      then 3 else bypp pf)"

definition TPIXEL_FORMAT :: pixel_format where
  "TPIXEL_FORMAT = \<lparr>bpp = 24, depth = 24, bigendian = False, truecolor = True,
     redmax = 255, greenmax = 255, bluemax = 255, redshift = 0, greenshift = 8, blueshift = 16\<rparr>"

definition pixel_formats :: "(string \<times> pixel_format) list" where
  "pixel_formats = [
     (''bgrx8888'', \<lparr>bpp = 32, depth = 24, bigendian = False, truecolor = True,
        redmax = 255, greenmax = 255, bluemax = 255, redshift = 16, greenshift = 8, blueshift = 0\<rparr>),
     (''rgbx8888'', \<lparr>bpp = 32, depth = 24, bigendian = False, truecolor = True,
        redmax = 255, greenmax = 255, bluemax = 255, redshift = 0, greenshift = 8, blueshift = 16\<rparr>),
     (''rgb565'', \<lparr>bpp = 16, depth = 16, bigendian = False, truecolor = True,
        redmax = 31, greenmax = 63, bluemax = 31, redshift = 11, greenshift = 5, blueshift = 0\<rparr>)]"

section \<open>What the numbers mean: channels of a wire pixel\<close>

text \<open>
  RFC 6143 section 7.4: a pixel is an integer of \<open>bypp\<close> bytes in the format's byte order, and a
  channel is that integer shifted right and masked with the channel's maximum.
\<close>

definition pixel_value :: "pixel_format \<Rightarrow> bytes \<Rightarrow> nat" where
  "pixel_value pf px = be_val (if bigendian pf then px else rev px)"

definition channel :: "nat \<Rightarrow> nat \<Rightarrow> nat \<Rightarrow> nat" where
  "channel mx shift v = drop_bit shift v AND mx"

definition channels :: "pixel_format \<Rightarrow> bytes \<Rightarrow> nat \<times> nat \<times> nat" where
  "channels pf px =
     (let v = pixel_value pf px in
      (channel (redmax pf) (redshift pf) v, channel (greenmax pf) (greenshift pf) v,
       channel (bluemax pf) (blueshift pf) v))"

lemma less_two_power_bit_length: "n < 2 ^ bit_length n"
proof (induction n rule: less_induct)
  case (less n)
  show ?case
  proof (cases "n = 0")
    case True
    then show ?thesis by simp
  next
    case False
    with less have "n div 2 < 2 ^ bit_length (n div 2)" by simp
    then have "n < 2 * 2 ^ bit_length (n div 2)" by linarith
    with False show ?thesis by (subst bit_length.simps) simp
  qed
qed

lemma bit_length_le: "n < 2 ^ k \<Longrightarrow> bit_length n \<le> k"
proof (induction k arbitrary: n)
  case 0
  then show ?case by (simp add: bit_length.simps)
next
  case (Suc k)
  then have "n div 2 < 2 ^ k" by simp
  with Suc.IH show ?case by (subst bit_length.simps) auto
qed

lemma and_mask_cong:
  fixes a b m :: nat
  assumes "a mod 2 ^ w = b mod 2 ^ w" and "m < 2 ^ w"
  shows "a AND m = b AND m"
proof (rule bit_eqI)
  fix n
  have m: "take_bit w m = m" using assms(2) by (simp add: take_bit_nat_eq_self)
  have ab: "take_bit w a = take_bit w b" using assms(1) by (simp add: take_bit_eq_mod)
  have "bit m n \<Longrightarrow> n < w" using m bit_take_bit_iff [of w m n] by simp
  moreover have "n < w \<Longrightarrow> bit a n = bit b n"
    using ab bit_take_bit_iff [of w a n] bit_take_bit_iff [of w b n] by simp
  ultimately show "bit (a AND m) n = bit (b AND m) n"
    by (auto simp: bit_and_iff)
qed

lemma channel_low_bits:
  assumes "shift + bit_length mx \<le> k" and "a mod 2 ^ k = b mod 2 ^ k"
  shows "channel mx shift a = channel mx shift b"
proof -
  have "take_bit (bit_length mx) (drop_bit shift a) = take_bit (bit_length mx) (drop_bit shift b)"
  proof (rule bit_eqI)
    fix n
    have ab: "take_bit k a = take_bit k b" using assms(2) by (simp add: take_bit_eq_mod)
    show "bit (take_bit (bit_length mx) (drop_bit shift a)) n
        = bit (take_bit (bit_length mx) (drop_bit shift b)) n"
      using assms(1) bit_take_bit_iff [of k a "shift + n"] bit_take_bit_iff [of k b "shift + n"]
      by (auto simp: bit_take_bit_iff bit_drop_bit_eq ab)
  qed
  then show ?thesis
    unfolding channel_def
    by (intro and_mask_cong [of _ "bit_length mx"]) (auto simp: take_bit_eq_mod less_two_power_bit_length)
qed

lemma channel_high_bits:
  assumes "k \<le> shift" and "a div 2 ^ k = b div 2 ^ k"
  shows "channel mx shift a = channel mx shift b"
proof -
  have "drop_bit shift a = drop_bit (shift - k) (drop_bit k a)"
    "drop_bit shift b = drop_bit (shift - k) (drop_bit k b)"
    using assms(1) by (simp_all add: drop_bit_drop_bit)
  with assms(2) show ?thesis by (simp add: channel_def drop_bit_eq_div)
qed

section \<open>Round trip of the wire structure\<close>

lemma length_to_bytes [simp, py_simps]: "length (to_bytes pf) = 16"
  by (simp add: to_bytes_def)

lemma to_bytes_spread:
  "to_bytes pf = [word_of_nat (bpp pf), word_of_nat (depth pf),
     if bigendian pf then 1 else 0, if truecolor pf then 1 else 0,
     word_of_nat (redmax pf div 256), word_of_nat (redmax pf),
     word_of_nat (greenmax pf div 256), word_of_nat (greenmax pf),
     word_of_nat (bluemax pf div 256), word_of_nat (bluemax pf),
     word_of_nat (redshift pf), word_of_nat (greenshift pf), word_of_nat (blueshift pf), 0, 0, 0]"
  by (simp add: to_bytes_def numeral_2_eq_2)

lemma u16_of_two: "be_val [word_of_nat (v div 256), word_of_nat v] = v mod 65536"
  using be_val_be_bytes_mod [of 2 v] by (simp add: numeral_2_eq_2)

lemma from_bytes_to_bytes: "packable pf \<Longrightarrow> from_bytes (to_bytes pf) = pf"
  by (cases pf) (auto simp: packable_def from_bytes_def to_bytes_spread pslice_def u16_of_two
      numeral_2_eq_2 [symmetric] eval_nat_numeral(3) [symmetric])

interpretation pixel_format_codec: fixed_codec 16 to_bytes from_bytes packable
  by unfold_locales (auto simp: from_bytes_to_bytes)

section \<open>Properties\<close>

lemma packable_from_bytes: "packable (from_bytes block)"
proof -
  have u8: "unat (b :: byte) < 256" for b using unsigned_less [of b] by simp
  have u16: "be_val (pslice i (i + 2) block) < 65536" for i
  proof -
    have "be_val (pslice i (i + 2) block) < 256 ^ length (pslice i (i + 2) block)"
      by (rule be_val_less)
    also have "\<dots> \<le> 256 ^ 2" by (rule power_increasing) auto
    finally show ?thesis by simp
  qed
  show ?thesis
    using u16 [of 4] u16 [of 6] u16 [of 8] by (simp add: packable_def from_bytes_def u8)
qed

text \<open>
  The wire structure round-trips. A format whose fields fit their slots is read back from the
  sixteen bytes that were written; every block read off the wire is such a format, so reading,
  writing and reading again is reading once.
\<close>

theorem pixel_format_roundtrip:
  assumes "packable pf"
  shows "from_bytes (to_bytes pf) = pf \<and> length (to_bytes pf) = 16 \<and>
    packable (from_bytes block) \<and> from_bytes (to_bytes (from_bytes block)) = from_bytes block"
  using assms by (simp add: from_bytes_to_bytes packable_from_bytes)

lemma pixel_format_roundtrip_witness:
  "from_bytes (to_bytes TPIXEL_FORMAT) = TPIXEL_FORMAT \<and> length (to_bytes TPIXEL_FORMAT) = 16"
proof -
  have "packable TPIXEL_FORMAT" by (simp add: packable_def TPIXEL_FORMAT_def)
  then show ?thesis using pixel_format_roundtrip [of TPIXEL_FORMAT] by simp
qed

text \<open>The bytes of a wire value: byte \<open>k\<close> counted from the least significant end.\<close>

lemma be_val_byte: "k < length bs \<Longrightarrow> be_val bs div 256 ^ k mod 256 = unat (rev bs ! k)"
proof (induction bs arbitrary: k rule: rev_induct)
  case Nil
  then show ?case by simp
next
  case (snoc b bs)
  have b: "unat b < 256" using unsigned_less [of b] by simp
  show ?case
  proof (cases k)
    case 0
    then show ?thesis using b by simp
  next
    case (Suc j)
    have "(256 * be_val bs + unat b) div 256 ^ Suc j = be_val bs div 256 ^ j"
      using b by (simp add: div_mult2_eq div_add1_eq)
    with Suc snoc show ?thesis by simp
  qed
qed

lemma channel_byte: "channel 255 (8 * k) v = v div 256 ^ k mod 256"
proof -
  have "(256::nat) ^ k = 2 ^ (8 * k)" by (simp add: power_mult)
  moreover have "a AND 255 = a mod 256" for a :: nat
    using take_bit_eq_mask [of 8 a] by (simp add: take_bit_eq_mod mask_eq_exp_minus_1)
  ultimately show ?thesis by (simp add: channel_def drop_bit_eq_div)
qed

lemma pixel_value_byte:
  assumes "length px = n" "k < n"
  shows "channel 255 (8 * k) (pixel_value pf px)
      = unat (px ! (if bigendian pf then n - 1 - k else k))"
proof -
  have "rev px ! k = px ! (n - 1 - k)" using assms by (simp add: rev_nth)
  then show ?thesis
    using assms be_val_byte [of k px] be_val_byte [of k "rev px"]
    by (simp add: pixel_value_def channel_byte)
qed

definition channel_at :: "pixel_format \<Rightarrow> nat \<Rightarrow> nat \<Rightarrow> nat \<Rightarrow> bool" where
  "channel_at pf n shift i \<longleftrightarrow>
     (\<exists>k. shift = 8 * k \<and> int i = (if bigendian pf then int n - 1 - int k else int k))"

lemma channel_at_value:
  assumes "channel_at pf n shift i" "i < n" "length px = n"
  shows "unat (px ! i) = channel 255 shift (pixel_value pf px)"
proof -
  obtain k where k: "shift = 8 * k" "int i = (if bigendian pf then int n - 1 - int k else int k)"
    using assms(1) by (auto simp: channel_at_def)
  with assms(2) have "k < n" "i = (if bigendian pf then n - 1 - k else k)"
    by (auto split: if_splits)
  with k(1) assms(3) show ?thesis by (simp add: pixel_value_byte)
qed

lemma place_channel_at:
  assumes "place_channel (bigendian pf) n (shift, ch) positions = Inr positions'"
    and "positions' (int i) = Some c" and "positions (int i) \<noteq> Some c"
  shows "c = ch \<and> channel_at pf n shift i"
proof -
  let ?pos = "if \<not> bigendian pf then int (shift div 8) else int n - 1 - int (shift div 8)"
  have "shift mod 8 = 0" and "positions' = positions(?pos \<mapsto> ch)"
    using assms(1) by (auto simp: place_channel_def Let_def split: if_splits)
  moreover from this assms(2,3) have "int i = ?pos" and "c = ch"
    by (auto split: if_splits)
  moreover have "shift = 8 * (shift div 8)" using \<open>shift mod 8 = 0\<close> by auto
  ultimately show ?thesis
    unfolding channel_at_def by (metis (full_types))
qed

lemma place_channels_at:
  assumes "place_channels (bigendian pf) n scs positions = Inr positions'"
    and "positions' (int i) = Some c"
  shows "positions (int i) = Some c \<or> (\<exists>shift. (shift, c) \<in> set scs \<and> channel_at pf n shift i)"
  using assms
proof (induction scs arbitrary: positions)
  case Nil
  then show ?case by simp
next
  case (Cons sc scs)
  obtain shift ch where sc: "sc = (shift, ch)" by fastforce
  obtain q where q: "place_channel (bigendian pf) n (shift, ch) positions = Inr q"
    "place_channels (bigendian pf) n scs q = Inr positions'"
    using Cons.prems(1) by (auto simp: sc split: sum.splits)
  from Cons.IH [OF q(2) Cons.prems(2)] place_channel_at [OF q(1), of i c] show ?case
    by (auto simp: sc)
qed

lemma byte_positions_channel_at:
  assumes "byte_positions pf n = Inr positions" "positions (int i) = Some c"
  shows "(c = CHR ''R'' \<and> channel_at pf n (redshift pf) i) \<or>
         (c = CHR ''G'' \<and> channel_at pf n (greenshift pf) i) \<or>
         (c = CHR ''B'' \<and> channel_at pf n (blueshift pf) i)"
  using place_channels_at [OF assms(1) [unfolded byte_positions_def] assms(2)] by auto

lemma byte_layout_mode_sound:
  assumes "byte_layout_mode pf n known = Inr mode" "i < n"
  shows "length mode = n" and "mode \<in> set known"
    and "mode ! i = CHR ''R'' \<Longrightarrow> channel_at pf n (redshift pf) i"
    and "mode ! i = CHR ''G'' \<Longrightarrow> channel_at pf n (greenshift pf) i"
    and "mode ! i = CHR ''B'' \<Longrightarrow> channel_at pf n (blueshift pf) i"
proof -
  obtain positions where p: "byte_positions pf n = Inr positions"
    and m: "mode = mode_string positions n" and k: "mode \<in> set known"
    using assms(1) by (auto simp: byte_layout_mode_def Let_def split: if_splits sum.splits)
  show "length mode = n" by (simp add: m mode_string_def)
  show "mode \<in> set known" by (rule k)
  have at: "mode ! i = c \<Longrightarrow> c \<noteq> CHR ''X'' \<Longrightarrow> positions (int i) = Some c" for c
    using assms(2) by (auto simp: m mode_string_def split: option.splits)
  show "mode ! i = CHR ''R'' \<Longrightarrow> channel_at pf n (redshift pf) i"
    "mode ! i = CHR ''G'' \<Longrightarrow> channel_at pf n (greenshift pf) i"
    "mode ! i = CHR ''B'' \<Longrightarrow> channel_at pf n (blueshift pf) i"
    using at byte_positions_channel_at [OF p] by force+
qed



end
