(* ===== verification/Generators.thy ===== *)
theory Generators
  imports PixelFormats
begin

text \<open>
  Python generators that yield byte counts.  Every decoder, message handler and security handler of
  the repository is such a generator: \<open>block = yield n\<close> asks the pump for exactly \<open>n\<close> bytes, a call
  on the client may read or change the client's state or raise, and the generator ends by returning
  or raising.  The datatype below is their syntax tree; the client's state type is a parameter, so
  that the same decoder runs on the base client and on its subclasses.  The exceptions raised at
  each place of the source are values, one constructor per \<open>raise\<close>.
\<close>

section \<open>Exceptions\<close>

text \<open>\<open>decoders/errors.py\<close>: \<open>DecodeError\<close>, by the place that raises it.\<close>

datatype decode_error =
    NegativeRect int int int int
  | RectPastBuffer int int int int nat nat
  | BlitLength nat nat
  | FillColour nat nat
  | DoesNotFit nat nat nat nat
  | NoMemory nat nat
  | PayloadTooLarge nat
  | CopySourceOutside nat nat nat nat nat nat
  | TooManySubrects nat nat nat
  | NoBackground nat nat
  | NoForeground nat nat
  | SubrectOverflowsTile nat nat nat nat nat nat
  | ZrleShort nat nat
  | ZrlePaletteSize nat
  | ZrlePaletteIndex nat nat
  | ZrlePackedIndex nat
  | ZrleRunOverflows nat nat nat nat
  | ZrleUnconsumed nat
  | TightTooWide nat
  | TightJpegNotOffered
  | TightBasicWithoutZlib
  | TightControl nat
  | TightGradient
  | TightFilter nat
  | TightJpegBad
  | TightJpegSize nat nat nat nat
  | TightExcess nat nat
  | TightShort nat nat nat
  | TightPaletteIndex nat

text \<open>\<open>security/errors.py\<close>: \<open>SecurityError\<close>.\<close>

datatype security_error =
    CredentialTooLong nat
  | VencryptVersion nat nat
  | VencryptRefused nat nat
  | VencryptNoSubtypes
  | VencryptNoUsableSubtype "int list"
  | VencryptSubtypeRefused int
  | ServerSpokeBeforeTLS
  | CannotStartTLS

text \<open>\<open>NeverReturns\<close> is no Python exception: it marks a loop that does not end.\<close>

datatype exn =
    DecodeError decode_error
  | SecurityError security_error
  | StructError
  | MemoryError
  | ZlibError
  | UnsupportedPixelFormat pf_error
  | ValueError
  | IndexError
  | KeyError
  | TypeError
  | UnicodeError
  | RegionError
  | AttributeError
  | AlreadyCalledError
  | AssertionError
  | NeverReturns

section \<open>Generators\<close>

datatype ('c, 'a) gen =
    Return 'a
  | Throw exn
  | Yield int "bytes \<Rightarrow> ('c, 'a) gen"
  | ReadClient "'c \<Rightarrow> ('c, 'a) gen"
  | WriteClient 'c "('c, 'a) gen"

text \<open>\<open>yield from g\<close>, with the rest of the body as a function of what \<open>g\<close> returned.\<close>

primrec yield_from :: "('c, 'a) gen \<Rightarrow> ('a \<Rightarrow> ('c, 'b) gen) \<Rightarrow> ('c, 'b) gen" where
  "yield_from (Return a) f = f a"
| "yield_from (Throw e) f = Throw e"
| "yield_from (Yield n k) f = Yield n (\<lambda>block. yield_from (k block) f)"
| "yield_from (ReadClient k) f = ReadClient (\<lambda>c. yield_from (k c) f)"
| "yield_from (WriteClient c g) f = WriteClient c (yield_from g f)"

text \<open>An expression that may raise, and a method call on the client.\<close>

definition checked :: "exn + 'a \<Rightarrow> ('a \<Rightarrow> ('c, 'b) gen) \<Rightarrow> ('c, 'b) gen" where
  "checked r f = (case r of Inl e \<Rightarrow> Throw e | Inr a \<Rightarrow> f a)"

definition call_client :: "('c \<Rightarrow> exn + 'c) \<Rightarrow> ('c, 'a) gen \<Rightarrow> ('c, 'a) gen" where
  "call_client method g =
     ReadClient (\<lambda>c. case method c of Inl e \<Rightarrow> Throw e | Inr c' \<Rightarrow> WriteClient c' g)"

text \<open>
  One \<open>send\<close>: the generator runs, calling the client as it goes, until it asks for bytes, returns
  or raises.
\<close>

datatype ('c, 'a) step =
    Stopped 'a
  | Raised exn
  | Wants int "bytes \<Rightarrow> ('c, 'a) gen"

primrec send :: "('c, 'a) gen \<Rightarrow> 'c \<Rightarrow> 'c \<times> ('c, 'a) step" where
  "send (Return a) c = (c, Stopped a)"
| "send (Throw e) c = (c, Raised e)"
| "send (Yield n k) c = (c, Wants n k)"
| "send (ReadClient k) c = send (k c) c"
| "send (WriteClient c' g) c = send g c'"

text \<open>
  A whole run over the bytes that follow in the stream: what the pump does for one generator when
  everything it asks for is there.
\<close>

datatype ('c, 'a) outcome =
    Finished 'a bytes 'c
  | Failed exn 'c
  | BadRequest int 'c
  | Starved 'c

primrec drive :: "('c, 'a) gen \<Rightarrow> bytes \<Rightarrow> 'c \<Rightarrow> ('c, 'a) outcome" where
  "drive (Return a) bs c = Finished a bs c"
| "drive (Throw e) bs c = Failed e c"
| "drive (Yield n k) bs c =
     (if n < 0 then BadRequest n c
      else if length bs < nat n then Starved c
      else drive (k (take (nat n) bs)) (drop (nat n) bs) c)"
| "drive (ReadClient k) bs c = drive (k c) bs c"
| "drive (WriteClient c' g) bs c = drive g bs c'"

section \<open>Laws\<close>

lemma yield_from_Return [simp]: "yield_from g Return = g"
  by (induction g) auto

lemma yield_from_assoc [simp]:
  "yield_from (yield_from g f) h = yield_from g (\<lambda>a. yield_from (f a) h)"
  by (induction g) auto

lemma checked_simps [simp]:
  "checked (Inl e) f = Throw e"
  "checked (Inr a) f = f a"
  by (simp_all add: checked_def)

lemma yield_from_checked [simp]:
  "yield_from (checked r f) h = checked r (\<lambda>a. yield_from (f a) h)"
  by (cases r) simp_all

lemma yield_from_call [simp]:
  "yield_from (call_client m g) h = call_client m (yield_from g h)"
  by (auto simp: call_client_def split: sum.splits)

lemma drive_call [simp]:
  "drive (call_client m g) bs c =
     (case m c of Inl e \<Rightarrow> Failed e c | Inr c' \<Rightarrow> drive g bs c')"
  by (simp add: call_client_def split: sum.splits)

lemma drive_yield_from:
  "drive (yield_from g f) bs c =
     (case drive g bs c of
        Finished a rest c' \<Rightarrow> drive (f a) rest c'
      | Failed e c' \<Rightarrow> Failed e c'
      | BadRequest n c' \<Rightarrow> BadRequest n c'
      | Starved c' \<Rightarrow> Starved c')"
  by (induction g arbitrary: bs c) auto

lemma drive_checked [simp]:
  "drive (checked r f) bs c = (case r of Inl e \<Rightarrow> Failed e c | Inr a \<Rightarrow> drive (f a) bs c)"
  by (cases r) simp_all

lemma drive_Yield_nat:
  "drive (Yield (int m) k) bs c =
     (if length bs < m then Starved c else drive (k (take m bs)) (drop m bs) c)"
  by simp

text \<open>What follows in the stream beyond what a generator asks for is left alone.\<close>

lemma drive_append:
  "drive g bs c = Finished a rest c' \<Longrightarrow> drive g (bs @ extra) c = Finished a (rest @ extra) c'"
  by (induction g arbitrary: bs c) (auto split: if_splits)

lemma drive_append_Failed:
  "drive g bs c = Failed e c' \<Longrightarrow> drive g (bs @ extra) c = Failed e c'"
  by (induction g arbitrary: bs c) (auto split: if_splits)

lemma drive_suffix:
  "drive g bs c = Finished a rest c' \<Longrightarrow> \<exists>used. bs = used @ rest"
proof (induction g arbitrary: bs c)
  case (Yield n k)
  then have "\<exists>used. drop (nat n) bs = used @ rest"
    by (auto split: if_splits intro: Yield.IH [OF rangeI])
  then obtain used where "drop (nat n) bs = used @ rest" by blast
  then have "bs = (take (nat n) bs @ used) @ rest"
    by (metis append.assoc append_take_drop_id)
  then show ?case by blast
next
  case (ReadClient k)
  then show ?case by (auto intro: ReadClient.IH [OF rangeI])
qed auto

section \<open>What a generator may ask for\<close>

text \<open>Every request a generator can make, whatever the blocks and the client it meets.\<close>

primrec requests_all :: "(int \<Rightarrow> bool) \<Rightarrow> ('c, 'a) gen \<Rightarrow> bool" where
  "requests_all P (Return a) \<longleftrightarrow> True"
| "requests_all P (Throw e) \<longleftrightarrow> True"
| "requests_all P (Yield n k) \<longleftrightarrow> P n \<and> (\<forall>block. int (length block) = n \<longrightarrow> requests_all P (k block))"
| "requests_all P (ReadClient k) \<longleftrightarrow> (\<forall>c. requests_all P (k c))"
| "requests_all P (WriteClient c g) \<longleftrightarrow> requests_all P g"

named_theorems request_intros \<open>rules for what a generator may ask for\<close>

lemma requests_Return [request_intros]: "requests_all P (Return a)" by simp
lemma requests_Throw [request_intros]: "requests_all P (Throw e)" by simp

lemma requests_Yield [request_intros]:
  "P n \<Longrightarrow> (\<And>block. int (length block) = n \<Longrightarrow> requests_all P (k block)) \<Longrightarrow> requests_all P (Yield n k)"
  by simp

lemma requests_ReadClient [request_intros]:
  "(\<And>c. requests_all P (k c)) \<Longrightarrow> requests_all P (ReadClient k)" by simp

lemma requests_WriteClient [request_intros]:
  "requests_all P g \<Longrightarrow> requests_all P (WriteClient c g)" by simp

lemma requests_yield_from [request_intros]:
  "requests_all P g \<Longrightarrow> (\<And>a. requests_all P (f a)) \<Longrightarrow> requests_all P (yield_from g f)"
  by (induction g) auto

lemma requests_checked [request_intros]:
  "(\<And>a. r = Inr a \<Longrightarrow> requests_all P (f a)) \<Longrightarrow> requests_all P (checked r f)"
  by (cases r) auto

lemma requests_call [request_intros]:
  "requests_all P g \<Longrightarrow> requests_all P (call_client method g)"
  by (auto simp: call_client_def split: sum.splits)

lemma requests_if [request_intros]:
  "(b \<Longrightarrow> requests_all P g) \<Longrightarrow> (\<not> b \<Longrightarrow> requests_all P h) \<Longrightarrow> requests_all P (if b then g else h)"
  by simp

lemma requests_never_bad:
  "requests_all (\<lambda>n. 0 \<le> n) g \<Longrightarrow> drive g bs c \<noteq> BadRequest n c'"
  by (induction g arbitrary: bs c) auto

end
