(* ===== verification/RectBuffers.thy ===== *)
theory RectBuffers
  imports Generators
begin

text \<open>
  \<open>vncdotool/decoders/buffer.py\<close>: the pixel buffer one rectangle is decoded into.  Its backing store
  is reused across rectangles and arrives holding the previous one, a blit of the whole rectangle is
  kept aside until something is drawn over it, and the store is cleared lazily.  The lemmas show
  that none of this is visible: the buffer is a canvas that starts black, every \<open>fill\<close> and \<open>blit\<close>
  paints exactly its rectangle, and what is read back does not depend on what the store held.
\<close>

section \<open>The class\<close>

record rect_buffer =
  rb_width :: nat
  rb_height :: nat
  rb_bypp :: nat
  rb_backing :: bytes
  rb_nbytes :: nat
  rb_whole :: "bytes option"
  rb_covered :: bool

definition rect_buffer_init :: "nat \<Rightarrow> nat \<Rightarrow> nat \<Rightarrow> bytes option \<Rightarrow> exn + rect_buffer" where
  "rect_buffer_init width height n backing =
     (let needed = width * height * n;
          new = (\<lambda>store. \<lparr>rb_width = width, rb_height = height, rb_bypp = n, rb_backing = store,
                         rb_nbytes = needed, rb_whole = None, rb_covered = False\<rparr>)
      in case backing of
           None \<Rightarrow> Inr (new (replicate needed 0))
         | Some store \<Rightarrow> if length store < needed then Inl ValueError else Inr (new store))"

definition check_bounds :: "rect_buffer \<Rightarrow> int \<Rightarrow> int \<Rightarrow> int \<Rightarrow> int \<Rightarrow> exn option" where
  "check_bounds b x y w h =
     (if x < 0 \<or> y < 0 \<or> w < 0 \<or> h < 0 then Some (DecodeError (NegativeRect x y w h))
      else if x + w > int (rb_width b) \<or> y + h > int (rb_height b)
        then Some (DecodeError (RectPastBuffer x y w h (rb_width b) (rb_height b)))
      else None)"

definition clear :: "rect_buffer \<Rightarrow> rect_buffer" where
  "clear b =
     (if rb_covered b then b
      else b\<lparr>rb_backing := slice_assign 0 (rb_nbytes b) (replicate (rb_nbytes b) 0) (rb_backing b),
             rb_covered := True\<rparr>)"

definition materialize :: "rect_buffer \<Rightarrow> rect_buffer" where
  "materialize b =
     (case rb_whole b of
        None \<Rightarrow> b
      | Some px \<Rightarrow> b\<lparr>rb_backing := slice_assign 0 (rb_nbytes b) px (rb_backing b), rb_whole := None\<rparr>)"

text \<open>The loop \<open>for row in range(h): buf[dst:dst + n] = ...\<close>.\<close>

fun assign_rows :: "nat \<Rightarrow> (nat \<Rightarrow> nat) \<Rightarrow> nat \<Rightarrow> (nat \<Rightarrow> bytes) \<Rightarrow> bytes \<Rightarrow> bytes" where
  "assign_rows 0 dst n src buf = buf"
| "assign_rows (Suc r) dst n src buf =
     (let buf' = assign_rows r dst n src buf in slice_assign (dst r) (dst r + n) (src r) buf')"

definition is_whole :: "rect_buffer \<Rightarrow> int \<Rightarrow> int \<Rightarrow> int \<Rightarrow> int \<Rightarrow> bool" where
  "is_whole b x y w h \<longleftrightarrow> x = 0 \<and> y = 0 \<and> w = int (rb_width b) \<and> h = int (rb_height b)"

definition blit ::
  "rect_buffer \<Rightarrow> int \<Rightarrow> int \<Rightarrow> int \<Rightarrow> int \<Rightarrow> bytes \<Rightarrow> exn + rect_buffer" where
  "blit b x y w h pixels =
     (if is_whole b x y w h then
        if length pixels \<noteq> rb_nbytes b
        then Inl (DecodeError (BlitLength (rb_nbytes b) (length pixels)))
        else Inr (b\<lparr>rb_whole := Some pixels, rb_covered := True\<rparr>)
      else case check_bounds b x y w h of Some e \<Rightarrow> Inl e | None \<Rightarrow>
        (let expected = nat w * nat h * rb_bypp b in
         if length pixels \<noteq> expected then Inl (DecodeError (BlitLength expected (length pixels)))
         else
           (let b' = clear (materialize b);
                stride = rb_width b * rb_bypp b;
                row_bytes = nat w * rb_bypp b;
                buf = rb_backing b'
            in if x = 0 \<and> w = int (rb_width b) then
                 (let offset = nat y * stride in
                  Inr (b'\<lparr>rb_backing := slice_assign offset (offset + expected) pixels buf\<rparr>))
               else
                 (let x_off = nat x * rb_bypp b in
                  Inr (b'\<lparr>rb_backing :=
                    assign_rows (nat h) (\<lambda>row. (nat y + row) * stride + x_off) row_bytes
                      (\<lambda>row. pslice (row * row_bytes) (row * row_bytes + row_bytes) pixels) buf\<rparr>)))))"

definition fill ::
  "rect_buffer \<Rightarrow> int \<Rightarrow> int \<Rightarrow> int \<Rightarrow> int \<Rightarrow> bytes \<Rightarrow> exn + rect_buffer" where
  "fill b x y w h colour =
     (case check_bounds b x y w h of Some e \<Rightarrow> Inl e | None \<Rightarrow>
        if length colour \<noteq> rb_bypp b
        then Inl (DecodeError (FillColour (rb_bypp b) (length colour)))
        else
          (let b1 = materialize b;
               b2 = (if is_whole b x y w h then b1 else clear b1);
               b' = b2\<lparr>rb_covered := True\<rparr>;
               stride = rb_width b * rb_bypp b;
               row_bytes = nat w * rb_bypp b;
               row = repeat_bytes (nat w) colour;
               buf = rb_backing b'
           in if x = 0 \<and> w = int (rb_width b) then
                (let offset = nat y * stride in
                 Inr (b'\<lparr>rb_backing :=
                   slice_assign offset (offset + nat h * stride) (repeat_bytes (nat h) row) buf\<rparr>))
              else
                (let x_off = nat x * rb_bypp b in
                 Inr (b'\<lparr>rb_backing :=
                   assign_rows (nat h) (\<lambda>r. (nat y + r) * stride + x_off) row_bytes
                     (\<lambda>r. row) buf\<rparr>))))"

definition tobytes :: "rect_buffer \<Rightarrow> bytes" where
  "tobytes b = (case rb_whole b of Some px \<Rightarrow> px | None \<Rightarrow> take (rb_nbytes b) (rb_backing b))"

section \<open>Invariant and abstraction\<close>

definition rb_inv :: "rect_buffer \<Rightarrow> bool" where
  "rb_inv b \<longleftrightarrow>
     rb_nbytes b = rb_width b * rb_height b * rb_bypp b \<and>
     rb_nbytes b \<le> length (rb_backing b) \<and>
     (\<forall>px. rb_whole b = Some px \<longrightarrow> length px = rb_nbytes b \<and> rb_covered b)"

text \<open>The bytes the buffer stands for: black until something covered it.\<close>

definition content :: "rect_buffer \<Rightarrow> bytes" where
  "content b =
     (if rb_covered b then tobytes b else replicate (rb_nbytes b) 0)"

text \<open>Pixel \<open>(i, j)\<close> of a byte string of rows of \<open>width\<close> pixels of \<open>n\<close> bytes.\<close>

definition pixel_of :: "nat \<Rightarrow> nat \<Rightarrow> bytes \<Rightarrow> nat \<Rightarrow> nat \<Rightarrow> bytes" where
  "pixel_of width n bs i j = pslice ((j * width + i) * n) ((j * width + i) * n + n) bs"

definition canvas_pixel :: "rect_buffer \<Rightarrow> nat \<Rightarrow> nat \<Rightarrow> bytes" where
  "canvas_pixel b = pixel_of (rb_width b) (rb_bypp b) (content b)"

definition in_rect :: "int \<Rightarrow> int \<Rightarrow> int \<Rightarrow> int \<Rightarrow> nat \<Rightarrow> nat \<Rightarrow> bool" where
  "in_rect x y w h i j \<longleftrightarrow> x \<le> int i \<and> int i < x + w \<and> y \<le> int j \<and> int j < y + h"

lemma rect_buffer_init_inv [wf_intros]:
  "rect_buffer_init w h n backing = Inr b \<Longrightarrow> rb_inv b"
  by (auto simp: rect_buffer_init_def rb_inv_def Let_def split: option.splits if_splits)

lemma length_content: "rb_inv b \<Longrightarrow> length (content b) = rb_nbytes b"
  by (auto simp: content_def tobytes_def rb_inv_def split: option.splits)

lemma check_bounds_None:
  "check_bounds b x y w h = None \<longleftrightarrow>
     0 \<le> x \<and> 0 \<le> y \<and> 0 \<le> w \<and> 0 \<le> h \<and> x + w \<le> int (rb_width b) \<and> y + h \<le> int (rb_height b)"
  by (auto simp: check_bounds_def)

text \<open>Putting a held blit into the store and clearing the store change nothing that is read.\<close>

lemma materialize_simps [simp]:
  "rb_width (materialize b) = rb_width b" "rb_height (materialize b) = rb_height b"
  "rb_bypp (materialize b) = rb_bypp b" "rb_nbytes (materialize b) = rb_nbytes b"
  "rb_covered (materialize b) = rb_covered b" "rb_whole (materialize b) = None"
  by (auto simp: materialize_def split: option.splits)

lemma clear_simps [simp]:
  "rb_width (clear b) = rb_width b" "rb_height (clear b) = rb_height b"
  "rb_bypp (clear b) = rb_bypp b" "rb_nbytes (clear b) = rb_nbytes b"
  "rb_covered (clear b)" "rb_whole (clear b) = rb_whole b"
  by (auto simp: clear_def)

lemma materialize_inv: "rb_inv b \<Longrightarrow> rb_inv (materialize b)"
  by (auto simp: rb_inv_def materialize_def length_slice_assign split: option.splits)

lemma content_materialize: "rb_inv b \<Longrightarrow> content (materialize b) = content b"
  by (auto simp: content_def tobytes_def materialize_def rb_inv_def slice_assign_def
      split: option.splits)

lemma clear_inv: "rb_inv b \<Longrightarrow> rb_inv (clear b)"
  by (auto simp: rb_inv_def clear_def length_slice_assign)

lemma content_clear: "rb_inv b \<Longrightarrow> rb_whole b = None \<Longrightarrow> content (clear b) = content b"
  by (auto simp: content_def tobytes_def clear_def rb_inv_def slice_assign_def)

lemma content_prepared:
  assumes "rb_inv b"
  shows "take (rb_nbytes b) (rb_backing (clear (materialize b))) = content b"
    and "rb_nbytes b \<le> length (rb_backing (clear (materialize b)))"
proof -
  have inv: "rb_inv (clear (materialize b))" using assms materialize_inv clear_inv by blast
  have "content (clear (materialize b)) = content b"
    using assms materialize_inv content_clear content_materialize by simp
  then show "take (rb_nbytes b) (rb_backing (clear (materialize b))) = content b"
    by (simp add: content_def [of "clear _"] tobytes_def)
  show "rb_nbytes b \<le> length (rb_backing (clear (materialize b)))"
    using inv by (simp add: rb_inv_def)
qed

section \<open>Writing rows\<close>

lemma row_slice:
  fixes c s :: nat
  assumes "c < s" "xo + n \<le> s"
  shows "q * s + xo \<le> r * s + c \<and> r * s + c < q * s + xo + n \<longleftrightarrow>
    r = q \<and> xo \<le> c \<and> c < xo + n"
proof -
  have "r < q \<Longrightarrow> r * s + c < q * s"
  proof -
    assume "r < q"
    then have "Suc r * s \<le> q * s" by (intro mult_le_mono1) simp
    with assms(1) show ?thesis by simp
  qed
  moreover have "q < r \<Longrightarrow> q * s + xo + n \<le> r * s"
  proof -
    assume "q < r"
    then have "Suc q * s \<le> r * s" by (intro mult_le_mono1) simp
    with assms(2) show ?thesis by simp
  qed
  ultimately show ?thesis by (cases r q rule: linorder_cases) auto
qed

lemma block_slice:
  fixes c s :: nat
  assumes "c < s"
  shows "q * s \<le> r * s + c \<and> r * s + c < q * s + h * s \<longleftrightarrow> q \<le> r \<and> r < q + h"
proof -
  have "q * s \<le> r * s + c \<longleftrightarrow> q \<le> r"
    using assms by (metis div_mult_self3 div_less add.right_neutral less_eq_div_iff_mult_less_eq
        gr_implies_not0 not_gr0 mult.commute add.commute)
  moreover have "r * s + c < (q + h) * s \<longleftrightarrow> r < q + h"
    using assms by (metis div_mult_self3 div_less add.right_neutral div_less_iff_less_mult
        gr_implies_not0 not_gr0 add.commute)
  ultimately show ?thesis by (simp add: distrib_right)
qed

lemma length_assign_rows:
  assumes "\<And>r. r < h \<Longrightarrow> length (src r) = n" "\<And>r. r < h \<Longrightarrow> dst r + n \<le> length buf"
  shows "length (assign_rows h dst n src buf) = length buf"
  using assms
proof (induction h)
  case 0
  then show ?case by simp
next
  case (Suc h)
  then show ?case by (simp add: Let_def length_slice_assign)
qed

lemma rows_fit:
  fixes s :: nat
  assumes "xo + n \<le> s" "(y + h) * s \<le> len" "r < h"
  shows "(y + r) * s + xo + n \<le> len"
proof -
  have "(y + Suc r) * s \<le> (y + h) * s" using assms(3) by (intro mult_le_mono1) simp
  with assms(1,2) show ?thesis by (simp add: distrib_right)
qed

lemma nth_assign_rows:
  assumes "\<And>q. q < h \<Longrightarrow> length (src q) = n" "xo + n \<le> s" "(y + h) * s \<le> length buf"
    and "c < s" "r * s + c < length buf"
  shows "assign_rows h (\<lambda>q. (y + q) * s + xo) n src buf ! (r * s + c) =
    (if y \<le> r \<and> r < y + h \<and> xo \<le> c \<and> c < xo + n then src (r - y) ! (c - xo)
     else buf ! (r * s + c))"
  using assms
proof (induction h)
  case 0
  then show ?case by auto
next
  case (Suc h)
  let ?buf = "assign_rows h (\<lambda>q. (y + q) * s + xo) n src buf"
  have fits: "(y + h) * s + xo + n \<le> length buf"
    using rows_fit [OF Suc.prems(2,3), of h] by simp
  have "(y + h) * s \<le> length buf"
    using fits by linarith
  with Suc have IH: "?buf ! (r * s + c) =
    (if y \<le> r \<and> r < y + h \<and> xo \<le> c \<and> c < xo + n then src (r - y) ! (c - xo)
     else buf ! (r * s + c))" by simp
  have "length ?buf = length buf"
    using Suc.prems(1) rows_fit [OF Suc.prems(2,3)] by (intro length_assign_rows) auto
  then have "assign_rows (Suc h) (\<lambda>q. (y + q) * s + xo) n src buf ! (r * s + c) =
    (if (y + h) * s + xo \<le> r * s + c \<and> r * s + c < (y + h) * s + xo + n
     then src h ! (r * s + c - ((y + h) * s + xo)) else ?buf ! (r * s + c))"
    using fits Suc.prems(1,5) by (simp add: Let_def nth_slice_assign)
  also have "\<dots> = (if r = y + h \<and> xo \<le> c \<and> c < xo + n then src h ! (c - xo) else ?buf ! (r * s + c))"
    using row_slice [OF Suc.prems(4,2), of "y + h" r] by auto
  finally show ?case using IH by auto
qed

text \<open>
  Both ways the code writes a rectangle, the single slice of full rows and the row loop, put the
  same bytes in the same places: \<open>painted\<close> says where.
\<close>

definition painted ::
  "nat \<Rightarrow> nat \<Rightarrow> nat \<Rightarrow> nat \<Rightarrow> nat \<Rightarrow> (nat \<Rightarrow> nat \<Rightarrow> byte) \<Rightarrow> bytes \<Rightarrow> bytes \<Rightarrow> bool" where
  "painted s xo n y h src old new \<longleftrightarrow> length new = length old \<and>
     (\<forall>r c. c < s \<longrightarrow> r * s + c < length old \<longrightarrow>
        new ! (r * s + c) = (if y \<le> r \<and> r < y + h \<and> xo \<le> c \<and> c < xo + n
                             then src (r - y) (c - xo) else old ! (r * s + c)))"

lemma painted_rows:
  assumes "\<And>q. q < h \<Longrightarrow> length (src q) = n" "xo + n \<le> s" "(y + h) * s \<le> length buf"
  shows "painted s xo n y h (\<lambda>r c. src r ! c) buf
    (assign_rows h (\<lambda>q. (y + q) * s + xo) n src buf)"
  unfolding painted_def
proof (intro conjI allI impI)
  show "length (assign_rows h (\<lambda>q. (y + q) * s + xo) n src buf) = length buf"
    using assms(1) rows_fit [OF assms(2,3)] by (intro length_assign_rows) auto
qed (rule nth_assign_rows [OF assms])

lemma painted_block:
  assumes "length px = h * s" "(y + h) * s \<le> length buf"
  shows "painted s 0 s y h (\<lambda>r c. px ! (r * s + c)) buf
    (slice_assign (y * s) (y * s + h * s) px buf)"
  unfolding painted_def
proof (intro conjI allI impI)
  show "length (slice_assign (y * s) (y * s + h * s) px buf) = length buf"
    using assms by (intro length_slice_assign) (auto simp: distrib_right)
  fix r c
  assume c: "c < s" and k: "r * s + c < length buf"
  have "slice_assign (y * s) (y * s + h * s) px buf ! (r * s + c) =
    (if y \<le> r \<and> r < y + h then px ! (r * s + c - y * s) else buf ! (r * s + c))"
    using assms k block_slice [OF c, of y r h] by (subst nth_slice_assign) (auto simp: distrib_right)
  moreover have "y \<le> r \<Longrightarrow> r * s + c - y * s = (r - y) * s + c"
    using mult_le_mono1 [of y r s] by (simp only: diff_mult_distrib) arith
  ultimately show "slice_assign (y * s) (y * s + h * s) px buf ! (r * s + c) =
    (if y \<le> r \<and> r < y + h \<and> 0 \<le> c \<and> c < 0 + s then px ! ((r - y) * s + (c - 0))
     else buf ! (r * s + c))"
    using c by simp
qed

section \<open>The canvas\<close>

text \<open>A byte at row \<open>r\<close>, column \<open>c\<close> of the painted store is the painted rectangle's, or the old one.\<close>

lemma painted_pixel_in:
  assumes p: "painted (W * n) (x * n) (w * n) y h src old new"
    and "x + w \<le> W" "in_rect (int x) (int y) (int w) (int h) i j"
    and "(j + 1) * (W * n) \<le> length old"
  shows "pixel_of W n new i j = map (\<lambda>t. src (j - y) ((i - x) * n + t)) [0..<n]"
proof (rule nth_equalityI)
  have i: "x \<le> i" "i < x + w" "i < W" and j: "y \<le> j" "j < y + h"
    using assms(2,3) by (auto simp: in_rect_def)
  have row: "(i + 1) * n \<le> W * n" using i by (intro mult_le_mono1) simp
  have fits: "(j * W + i) * n + n \<le> length old"
    using assms(4) row by (simp add: algebra_simps)
  have len: "length new = length old" using p by (simp add: painted_def)
  then show "length (pixel_of W n new i j) = length (map (\<lambda>t. src (j - y) ((i - x) * n + t)) [0..<n])"
    using fits by (simp add: pixel_of_def)
  fix t assume "t < length (pixel_of W n new i j)"
  then have t: "t < n" by (simp add: pixel_of_def)
  let ?c = "i * n + t"
  have c: "?c < W * n" using t row by simp
  have k: "j * (W * n) + ?c < length old" using t fits by (simp add: algebra_simps)
  have "x * n \<le> i * n" using i by simp
  moreover have "(i + 1) * n \<le> (x + w) * n" using i by (intro mult_le_mono1) simp
  ultimately have c_in: "x * n \<le> ?c" "?c < x * n + w * n"
    using t unfolding distrib_right by linarith+
  have "pixel_of W n new i j ! t = new ! (j * (W * n) + ?c)"
    using t k len fits by (simp add: pixel_of_def nth_pslice algebra_simps)
  also have "\<dots> = src (j - y) (?c - x * n)"
    using p c k c_in j unfolding painted_def by simp
  also have "?c - x * n = (i - x) * n + t"
    using \<open>x * n \<le> i * n\<close> by (simp add: diff_mult_distrib)
  finally show "pixel_of W n new i j ! t = map (\<lambda>t. src (j - y) ((i - x) * n + t)) [0..<n] ! t"
    using t by simp
qed

lemma painted_pixel_out:
  assumes p: "painted (W * n) (x * n) (w * n) y h src old new"
    and "i < W" "\<not> in_rect (int x) (int y) (int w) (int h) i j"
    and "(j + 1) * (W * n) \<le> length old"
  shows "pixel_of W n new i j = pixel_of W n old i j"
proof (rule nth_equalityI)
  have row: "(i + 1) * n \<le> W * n" using assms(2) by (intro mult_le_mono1) simp
  have fits: "(j * W + i) * n + n \<le> length old"
    using assms(4) row by (simp add: algebra_simps)
  have len: "length new = length old" using p by (simp add: painted_def)
  then show "length (pixel_of W n new i j) = length (pixel_of W n old i j)"
    by (simp add: pixel_of_def)
  fix t assume "t < length (pixel_of W n new i j)"
  then have t: "t < n" by (simp add: pixel_of_def)
  let ?c = "i * n + t"
  have c: "?c < W * n" using t row by simp
  have k: "j * (W * n) + ?c < length old" using t fits by (simp add: algebra_simps)
  have "i < x \<Longrightarrow> ?c < x * n"
    using t mult_le_mono1 [of "Suc i" x n] by simp
  moreover have "x + w \<le> i \<Longrightarrow> x * n + w * n \<le> ?c"
    using mult_le_mono1 [of "x + w" i n] by (simp add: distrib_right)
  ultimately have "\<not> (y \<le> j \<and> j < y + h \<and> x * n \<le> ?c \<and> ?c < x * n + w * n)"
    using assms(3) by (auto simp: in_rect_def)
  then have "new ! (j * (W * n) + ?c) = old ! (j * (W * n) + ?c)"
    using p c k unfolding painted_def by auto
  then show "pixel_of W n new i j ! t = pixel_of W n old i j ! t"
    using t k len fits by (simp add: pixel_of_def nth_pslice algebra_simps)
qed

lemma pixel_of_take:
  assumes "i < W" "(j + 1) * (W * n) \<le> m"
  shows "pixel_of W n (take m bs) i j = pixel_of W n bs i j"
proof -
  have "(i + 1) * n \<le> W * n" using assms(1) by (intro mult_le_mono1) simp
  with assms(2) have "(j * W + i) * n + n \<le> m" by (simp add: algebra_simps)
  then show ?thesis by (simp add: pixel_of_def pslice_def drop_take min_def)
qed

lemma row_in_bounds:
  fixes j H :: nat
  assumes "j < H"
  shows "(j + 1) * (W * n) \<le> W * H * n"
proof -
  have "(j + 1) * (W * n) \<le> H * (W * n)" using assms by (intro mult_le_mono1) simp
  then show ?thesis by (simp add: ac_simps)
qed

text \<open>
  What a successful write leaves: the store prepared by \<open>prep\<close> (cleared, unless everything is about
  to be overwritten) with one rectangle painted on it.
\<close>

definition wrote ::
  "rect_buffer \<Rightarrow> int \<Rightarrow> int \<Rightarrow> int \<Rightarrow> int \<Rightarrow> (nat \<Rightarrow> nat \<Rightarrow> byte) \<Rightarrow> rect_buffer \<Rightarrow> bool" where
  "wrote b x y w h src b' \<longleftrightarrow>
     rb_width b' = rb_width b \<and> rb_height b' = rb_height b \<and> rb_bypp b' = rb_bypp b \<and>
     rb_nbytes b' = rb_nbytes b \<and> rb_covered b' \<and> rb_whole b' = None \<and>
     (\<exists>store. rb_nbytes b \<le> length store \<and>
        (\<not> is_whole b x y w h \<longrightarrow> take (rb_nbytes b) store = content b) \<and>
        painted (rb_width b * rb_bypp b) (nat x * rb_bypp b) (nat w * rb_bypp b) (nat y) (nat h)
          src store (rb_backing b'))"

lemma wrote_inv: "rb_inv b \<Longrightarrow> wrote b x y w h src b' \<Longrightarrow> rb_inv b'"
  by (auto simp: rb_inv_def wrote_def painted_def)

lemma wrote_pixel:
  assumes inv: "rb_inv b" and wr: "wrote b x y w h src b'"
    and bounds: "0 \<le> x" "0 \<le> y" "0 \<le> w" "0 \<le> h" "x + w \<le> int (rb_width b)"
    and ij: "i < rb_width b" "j < rb_height b"
  shows "canvas_pixel b' i j =
    (if in_rect x y w h i j
     then map (\<lambda>t. src (j - nat y) ((i - nat x) * rb_bypp b + t)) [0..<rb_bypp b]
     else canvas_pixel b i j)"
proof -
  obtain store where store: "rb_nbytes b \<le> length store"
    "\<not> is_whole b x y w h \<Longrightarrow> take (rb_nbytes b) store = content b"
    "painted (rb_width b * rb_bypp b) (nat x * rb_bypp b) (nat w * rb_bypp b) (nat y) (nat h)
          src store (rb_backing b')"
    using wr by (auto simp: wrote_def)
  let ?W = "rb_width b" let ?n = "rb_bypp b"
  have row: "(j + 1) * (?W * ?n) \<le> rb_nbytes b"
    using row_in_bounds [OF ij(2)] inv by (simp add: rb_inv_def)
  then have row_store: "(j + 1) * (?W * ?n) \<le> length store" using store(1) by simp
  have ints: "int (nat x) = x" "int (nat y) = y" "int (nat w) = w" "int (nat h) = h"
    using bounds by simp_all
  have new: "canvas_pixel b' i j = pixel_of ?W ?n (rb_backing b') i j"
    using wr pixel_of_take [OF ij(1) row]
    by (simp add: canvas_pixel_def content_def tobytes_def wrote_def)
  show ?thesis
  proof (cases "in_rect x y w h i j")
    case True
    have "nat x + nat w \<le> ?W" using bounds by simp
    from painted_pixel_in [OF store(3) this _ row_store, of i] True new show ?thesis
      by (simp add: ints bounds)
  next
    case False
    then have "\<not> is_whole b x y w h" using ij by (auto simp: is_whole_def in_rect_def)
    then have old: "canvas_pixel b i j = pixel_of ?W ?n store i j"
      using store(2) pixel_of_take [OF ij(1) row, of store] by (simp add: canvas_pixel_def)
    from painted_pixel_out [OF store(3) ij(1) _ row_store] False new old show ?thesis
      by (simp add: ints bounds)
  qed
qed

lemma fill_wrote:
  assumes inv: "rb_inv b" and f: "fill b x y w h colour = Inr b'"
  shows "0 \<le> x \<and> 0 \<le> y \<and> 0 \<le> w \<and> 0 \<le> h \<and> x + w \<le> int (rb_width b) \<and> y + h \<le> int (rb_height b) \<and>
    length colour = rb_bypp b \<and>
    wrote b x y w h (\<lambda>r c. if x = 0 \<and> w = int (rb_width b)
                      then repeat_bytes (nat h) (repeat_bytes (nat w) colour) ! (r * (rb_width b * rb_bypp b) + c)
                      else repeat_bytes (nat w) colour ! c) b'"
proof -
  let ?W = "rb_width b" let ?n = "rb_bypp b"
  have bounds: "0 \<le> x" "0 \<le> y" "0 \<le> w" "0 \<le> h" "x + w \<le> int ?W" "y + h \<le> int (rb_height b)"
    and len: "length colour = ?n"
    using f by (auto simp: fill_def check_bounds_None split: option.splits if_splits)
  define b2 where "b2 = (if is_whole b x y w h then materialize b else clear (materialize b))"
  have b2: "rb_nbytes b \<le> length (rb_backing b2)"
    "\<not> is_whole b x y w h \<Longrightarrow> take (rb_nbytes b) (rb_backing b2) = content b"
    "rb_width b2 = ?W" "rb_height b2 = rb_height b" "rb_bypp b2 = ?n" "rb_nbytes b2 = rb_nbytes b"
    "rb_whole b2 = None"
    using content_prepared [OF inv] materialize_inv [OF inv]
    by (auto simp: b2_def rb_inv_def)
  have H: "nat y + nat h \<le> rb_height b" using bounds by simp
  have "(nat y + nat h) * (?W * ?n) \<le> rb_height b * (?W * ?n)" using H by (intro mult_le_mono1)
  also have "\<dots> = rb_nbytes b" using inv by (simp add: rb_inv_def ac_simps)
  finally have rows: "(nat y + nat h) * (?W * ?n) \<le> length (rb_backing b2)" using b2(1) by simp
  have nb: "check_bounds b x y w h = None" using bounds by (simp add: check_bounds_None)
  show ?thesis
  proof (cases "x = 0 \<and> w = int ?W")
    case True
    have b': "b' = b2\<lparr>rb_covered := True, rb_backing :=
        slice_assign (nat y * (?W * ?n)) (nat y * (?W * ?n) + nat h * (?W * ?n))
          (repeat_bytes (nat h) (repeat_bytes (nat w) colour)) (rb_backing b2)\<rparr>"
      using f nb len True by (simp add: fill_def b2_def Let_def)
    have "painted (?W * ?n) 0 (?W * ?n) (nat y) (nat h)
        (\<lambda>r c. repeat_bytes (nat h) (repeat_bytes (nat w) colour) ! (r * (?W * ?n) + c))
        (rb_backing b2) (rb_backing b')"
      using painted_block [OF _ rows, of "repeat_bytes (nat h) (repeat_bytes (nat w) colour)"] True len
      by (simp add: b' )
    then show ?thesis
      using bounds len True b2 by (auto simp: wrote_def b')
  next
    case False
    have b': "b' = b2\<lparr>rb_covered := True, rb_backing :=
        assign_rows (nat h) (\<lambda>r. (nat y + r) * (?W * ?n) + nat x * ?n) (nat w * ?n)
          (\<lambda>r. repeat_bytes (nat w) colour) (rb_backing b2)\<rparr>"
      using f nb len False by (auto simp: fill_def b2_def Let_def)
    have "(nat x + nat w) * ?n \<le> ?W * ?n" using bounds by (intro mult_le_mono1) simp
    then have "nat x * ?n + nat w * ?n \<le> ?W * ?n" by (simp add: distrib_right)
    from painted_rows [OF _ this rows, of "\<lambda>r. repeat_bytes (nat w) colour"] len
    have "painted (?W * ?n) (nat x * ?n) (nat w * ?n) (nat y) (nat h)
        (\<lambda>r c. repeat_bytes (nat w) colour ! c) (rb_backing b2) (rb_backing b')"
      by (simp add: b')
    then show ?thesis
      using bounds len False b2 by (auto simp: wrote_def b')
  qed
qed

lemma blit_wrote:
  assumes inv: "rb_inv b" and bl: "blit b x y w h px = Inr b'" and nw: "\<not> is_whole b x y w h"
  shows "0 \<le> x \<and> 0 \<le> y \<and> 0 \<le> w \<and> 0 \<le> h \<and> x + w \<le> int (rb_width b) \<and> y + h \<le> int (rb_height b) \<and>
    length px = nat w * nat h * rb_bypp b \<and>
    wrote b x y w h (\<lambda>r c. if x = 0 \<and> w = int (rb_width b)
                      then px ! (r * (rb_width b * rb_bypp b) + c)
                      else pslice (r * (nat w * rb_bypp b)) (r * (nat w * rb_bypp b) + nat w * rb_bypp b) px ! c) b'"
proof -
  let ?W = "rb_width b" let ?n = "rb_bypp b" let ?rb = "nat w * rb_bypp b"
  define b2 where "b2 = clear (materialize b)"
  have nb: "check_bounds b x y w h = None" and len: "length px = nat w * nat h * ?n"
    using bl nw by (auto simp: blit_def Let_def split: option.splits if_splits)
  have bounds: "0 \<le> x" "0 \<le> y" "0 \<le> w" "0 \<le> h" "x + w \<le> int ?W" "y + h \<le> int (rb_height b)"
    using nb by (auto simp: check_bounds_None)
  have b2: "rb_nbytes b \<le> length (rb_backing b2)"
    "take (rb_nbytes b) (rb_backing b2) = content b"
    "rb_width b2 = ?W" "rb_height b2 = rb_height b" "rb_bypp b2 = ?n" "rb_nbytes b2 = rb_nbytes b"
    "rb_whole b2 = None" "rb_covered b2"
    using content_prepared [OF inv] by (auto simp: b2_def)
  have H: "nat y + nat h \<le> rb_height b" using bounds by simp
  have "(nat y + nat h) * (?W * ?n) \<le> rb_height b * (?W * ?n)" using H by (intro mult_le_mono1)
  also have "\<dots> = rb_nbytes b" using inv by (simp add: rb_inv_def ac_simps)
  finally have rows: "(nat y + nat h) * (?W * ?n) \<le> length (rb_backing b2)" using b2(1) by simp
  show ?thesis
  proof (cases "x = 0 \<and> w = int ?W")
    case True
    have l: "length px = nat h * (?W * ?n)" using len True by simp
    have b': "b' = b2\<lparr>rb_backing :=
        slice_assign (nat y * (?W * ?n)) (nat y * (?W * ?n) + nat h * (?W * ?n)) px (rb_backing b2)\<rparr>"
      using bl nw nb len l True by (simp add: blit_def b2_def Let_def ac_simps)
    have "painted (?W * ?n) 0 (?W * ?n) (nat y) (nat h) (\<lambda>r c. px ! (r * (?W * ?n) + c))
        (rb_backing b2) (rb_backing b')"
      using painted_block [OF l rows] by (simp add: b')
    then show ?thesis
      using bounds len True b2 by (auto simp: wrote_def b')
  next
    case False
    have b': "b' = b2\<lparr>rb_backing :=
        assign_rows (nat h) (\<lambda>r. (nat y + r) * (?W * ?n) + nat x * ?n) ?rb
          (\<lambda>r. pslice (r * ?rb) (r * ?rb + ?rb) px) (rb_backing b2)\<rparr>"
      using bl nw nb len False by (auto simp: blit_def b2_def Let_def)
    have "(nat x + nat w) * ?n \<le> ?W * ?n" using bounds by (intro mult_le_mono1) simp
    then have fits: "nat x * ?n + ?rb \<le> ?W * ?n" by (simp add: distrib_right)
    have "length (pslice (r * ?rb) (r * ?rb + ?rb) px) = ?rb" if "r < nat h" for r
    proof -
      have "(r + 1) * ?rb \<le> nat h * ?rb" using that by (intro mult_le_mono1) simp
      moreover have "length px = nat h * ?rb" using len by (simp add: ac_simps)
      ultimately show ?thesis unfolding length_pslice distrib_right by arith
    qed
    from painted_rows [OF this fits rows]
    have "painted (?W * ?n) (nat x * ?n) ?rb (nat y) (nat h)
        (\<lambda>r c. pslice (r * ?rb) (r * ?rb + ?rb) px ! c) (rb_backing b2) (rb_backing b')"
      by (simp add: b')
    then show ?thesis
      using bounds len False b2 by (auto simp: wrote_def b')
  qed
qed

section \<open>What a successful write does\<close>

lemma wrote_ok:
  assumes "rb_inv b" "wrote b x y w h src b'"
  shows "rb_inv b'" "rb_width b' = rb_width b" "rb_height b' = rb_height b"
    "rb_bypp b' = rb_bypp b" "rb_nbytes b' = rb_nbytes b" "rb_covered b'"
  using assms(2) wrote_inv [OF assms] by (simp_all add: wrote_def)

lemma fill_ok:
  assumes "rb_inv b" "fill b x y w h colour = Inr b'"
  shows "rb_inv b'" "rb_width b' = rb_width b" "rb_height b' = rb_height b"
    "rb_bypp b' = rb_bypp b" "rb_nbytes b' = rb_nbytes b" "rb_covered b'"
proof -
  obtain src where "wrote b x y w h src b'"
    using fill_wrote [OF assms] by blast
  note ok = wrote_ok [OF assms(1) this]
  show "rb_inv b'" "rb_width b' = rb_width b" "rb_height b' = rb_height b"
    "rb_bypp b' = rb_bypp b" "rb_nbytes b' = rb_nbytes b" "rb_covered b'" by (rule ok)+
qed

lemma blit_ok:
  assumes "rb_inv b" "blit b x y w h px = Inr b'"
  shows "rb_inv b'" "rb_width b' = rb_width b" "rb_height b' = rb_height b"
    "rb_bypp b' = rb_bypp b" "rb_nbytes b' = rb_nbytes b" "rb_covered b'"
proof -
  have "rb_inv b' \<and> rb_width b' = rb_width b \<and> rb_height b' = rb_height b \<and>
    rb_bypp b' = rb_bypp b \<and> rb_nbytes b' = rb_nbytes b \<and> rb_covered b'"
  proof (cases "is_whole b x y w h")
    case True
    then show ?thesis using assms by (auto simp: blit_def rb_inv_def split: if_splits)
  next
    case False
    obtain src where "wrote b x y w h src b'"
      using blit_wrote [OF assms False] by blast
    from wrote_ok [OF assms(1) this] show ?thesis by simp
  qed
  then show "rb_inv b'" "rb_width b' = rb_width b" "rb_height b' = rb_height b"
    "rb_bypp b' = rb_bypp b" "rb_nbytes b' = rb_nbytes b" "rb_covered b'" by auto
qed

lemma fill_pixel:
  assumes inv: "rb_inv b" and f: "fill b x y w h colour = Inr b'"
    and ij: "i < rb_width b" "j < rb_height b"
  shows "canvas_pixel b' i j = (if in_rect x y w h i j then colour else canvas_pixel b i j)"
proof -
  let ?W = "rb_width b" let ?n = "rb_bypp b"
  note fw = fill_wrote [OF inv f]
  let ?f = "\<lambda>t. if x = 0 \<and> w = int ?W
      then repeat_bytes (nat h) (repeat_bytes (nat w) colour) ! ((j - nat y) * (?W * ?n) + ((i - nat x) * ?n + t))
      else repeat_bytes (nat w) colour ! ((i - nat x) * ?n + t)"
  have px: "(if x = 0 \<and> w = int ?W
      then repeat_bytes (nat h) (repeat_bytes (nat w) colour) ! ((j - nat y) * (?W * ?n) + ((i - nat x) * ?n + t))
      else repeat_bytes (nat w) colour ! ((i - nat x) * ?n + t)) = colour ! t"
    if t: "t < ?n" and r: "in_rect x y w h i j" for t
  proof -
    have len: "length colour = ?n" using fw by simp
    have i: "i - nat x < nat w" and j: "j - nat y < nat h"
      using fw r by (auto simp: in_rect_def)
    have "(i - nat x + 1) * ?n \<le> nat w * ?n" using i by (intro mult_le_mono1) simp
    then have c: "(i - nat x) * ?n + t < nat w * ?n" using t by simp
    have row: "repeat_bytes (nat w) colour ! ((i - nat x) * ?n + t) = colour ! t"
      using c t len by (simp add: nth_repeat_bytes)
    show ?thesis
    proof (cases "x = 0 \<and> w = int ?W")
      case True
      let ?c = "(i - nat x) * ?n + t"
      have s: "?W * ?n = nat w * ?n" using True by simp
      have "(j - nat y + 1) * (nat w * ?n) \<le> nat h * (nat w * ?n)"
        using j by (intro mult_le_mono1) simp
      then have "(j - nat y) * (nat w * ?n) + ?c < nat h * (nat w * ?n)" using c by simp
      then have "repeat_bytes (nat h) (repeat_bytes (nat w) colour) ! ((j - nat y) * (nat w * ?n) + ?c)
          = repeat_bytes (nat w) colour ! (((j - nat y) * (nat w * ?n) + ?c) mod (nat w * ?n))"
        using nth_repeat_bytes [of "(j - nat y) * (nat w * ?n) + ?c" "nat h" "repeat_bytes (nat w) colour"]
        by (simp only: length_repeat_bytes len)
      also have "((j - nat y) * (nat w * ?n) + ?c) mod (nat w * ?n) = ?c"
        using c by simp
      finally show ?thesis unfolding if_P [OF True] s using row by (rule trans)
    qed (simp only: if_False row)
  qed
  have eq: "canvas_pixel b' i j = (if in_rect x y w h i j then map ?f [0..<?n] else canvas_pixel b i j)"
    using fw by (intro wrote_pixel [OF inv _ _ _ _ _ _ ij]) simp_all
  show ?thesis
  proof (cases "in_rect x y w h i j")
    case True
    have "canvas_pixel b' i j = map ?f [0..<?n]" by (simp only: eq True if_True)
    also have "\<dots> = map ((!) colour) [0..<?n]"
      using px [OF _ True] by (intro map_cong) simp_all
    also have "\<dots> = colour"
      using fw map_nth [of colour] by simp
    finally show ?thesis by (simp only: True if_True)
  qed (simp only: eq if_False)
qed

lemma blit_pixel:
  assumes inv: "rb_inv b" and bl: "blit b x y w h px = Inr b'"
    and ij: "i < rb_width b" "j < rb_height b"
  shows "canvas_pixel b' i j =
    (if in_rect x y w h i j then pixel_of (nat w) (rb_bypp b) px (i - nat x) (j - nat y)
     else canvas_pixel b i j)"
proof (cases "is_whole b x y w h")
  case True
  then have "in_rect x y w h i j" using ij by (auto simp: is_whole_def in_rect_def)
  with True bl show ?thesis
    by (auto simp: blit_def is_whole_def canvas_pixel_def content_def tobytes_def split: if_splits)
next
  case False
  let ?W = "rb_width b" let ?n = "rb_bypp b" let ?rb = "nat w * rb_bypp b"
  note bw = blit_wrote [OF inv bl False]
  have "map (\<lambda>t. if x = 0 \<and> w = int ?W
      then px ! ((j - nat y) * (?W * ?n) + ((i - nat x) * ?n + t))
      else pslice ((j - nat y) * ?rb) ((j - nat y) * ?rb + ?rb) px ! ((i - nat x) * ?n + t)) [0..<?n]
    = pixel_of (nat w) ?n px (i - nat x) (j - nat y)" (is "map ?f _ = _")
    if r: "in_rect x y w h i j"
  proof (rule nth_equalityI)
    have i: "i - nat x < nat w" and j: "j - nat y < nat h"
      using bw r by (auto simp: in_rect_def)
    have ci: "(i - nat x + 1) * ?n \<le> ?rb" using i by (intro mult_le_mono1) simp
    have cj: "(j - nat y + 1) * ?rb \<le> nat h * ?rb" using j by (intro mult_le_mono1) simp
    have len: "length px = nat h * ?rb" using bw by (simp add: ac_simps)
    have addr: "((j - nat y) * nat w + (i - nat x)) * ?n = (j - nat y) * ?rb + (i - nat x) * ?n"
      by (simp add: algebra_simps)
    have l: "length (pixel_of (nat w) ?n px (i - nat x) (j - nat y)) = ?n"
      using ci cj len unfolding pixel_of_def addr length_pslice distrib_right by arith
    then show "length (map ?f [0..<?n]) = length (pixel_of (nat w) ?n px (i - nat x) (j - nat y))"
      by simp
    fix t assume "t < length (map ?f [0..<?n])"
    then have t: "t < ?n" by simp
    have k: "(j - nat y) * ?rb + (i - nat x) * ?n + t < length px" "(i - nat x) * ?n + t < ?rb"
      using ci cj len t by simp_all
    then have "pixel_of (nat w) ?n px (i - nat x) (j - nat y) ! t
        = px ! ((j - nat y) * ?rb + (i - nat x) * ?n + t)"
      using t by (simp add: pixel_of_def addr nth_pslice)
    moreover have "?f t = px ! ((j - nat y) * ?rb + (i - nat x) * ?n + t)"
      using k by (auto simp: nth_pslice add.assoc)
    moreover have "map ?f [0..<?n] ! t = ?f t"
      using t by (subst nth_map) simp_all
    ultimately show "map ?f [0..<?n] ! t = pixel_of (nat w) ?n px (i - nat x) (j - nat y) ! t"
      by (simp only:)
  qed
  moreover have "canvas_pixel b' i j = (if in_rect x y w h i j then map ?f [0..<?n] else canvas_pixel b i j)"
    using bw by (intro wrote_pixel [OF inv _ _ _ _ _ _ ij]) simp_all
  ultimately show ?thesis by simp
qed

section \<open>The interface the decoders rely on\<close>

text \<open>
  A canvas of pixels: two ways to paint, a size, an invariant and what can be seen.  The decoders are
  its clients; what they need is that a successful paint changes its rectangle and nothing else.
\<close>

locale canvas =
  fixes paint_fill :: "'b \<Rightarrow> int \<Rightarrow> int \<Rightarrow> int \<Rightarrow> int \<Rightarrow> bytes \<Rightarrow> exn + 'b"
    and paint_blit :: "'b \<Rightarrow> int \<Rightarrow> int \<Rightarrow> int \<Rightarrow> int \<Rightarrow> bytes \<Rightarrow> exn + 'b"
    and dims :: "'b \<Rightarrow> nat \<times> nat \<times> nat"
    and good :: "'b \<Rightarrow> bool"
    and see :: "'b \<Rightarrow> nat \<Rightarrow> nat \<Rightarrow> bytes"
  assumes fill_good: "good b \<Longrightarrow> paint_fill b x y w h c = Inr b' \<Longrightarrow> good b' \<and> dims b' = dims b"
    and blit_good: "good b \<Longrightarrow> paint_blit b x y w h p = Inr b' \<Longrightarrow> good b' \<and> dims b' = dims b"
    and fill_see: "good b \<Longrightarrow> paint_fill b x y w h c = Inr b' \<Longrightarrow> dims b = (wd, ht, n) \<Longrightarrow>
      i < wd \<Longrightarrow> j < ht \<Longrightarrow> see b' i j = (if in_rect x y w h i j then c else see b i j)"
    and blit_see: "good b \<Longrightarrow> paint_blit b x y w h p = Inr b' \<Longrightarrow> dims b = (wd, ht, n) \<Longrightarrow>
      i < wd \<Longrightarrow> j < ht \<Longrightarrow> see b' i j =
        (if in_rect x y w h i j then pixel_of (nat w) n p (i - nat x) (j - nat y) else see b i j)"

text \<open>One paint, as data, a list of them run in order, and the picture they make.\<close>

datatype paint =
    Fill int int int int bytes
  | Blit int int int int bytes

fun paint_covers :: "nat \<Rightarrow> nat \<Rightarrow> paint \<Rightarrow> bool" where
  "paint_covers i j (Fill x y w h c) = in_rect x y w h i j"
| "paint_covers i j (Blit x y w h p) = in_rect x y w h i j"

fun paint_pixel :: "nat \<Rightarrow> paint \<Rightarrow> nat \<Rightarrow> nat \<Rightarrow> bytes" where
  "paint_pixel n (Fill x y w h c) i j = c"
| "paint_pixel n (Blit x y w h p) i j = pixel_of (nat w) n p (i - nat x) (j - nat y)"

text \<open>The painter's rule: the last paint that covers a pixel decides it.\<close>

fun pixel_after :: "nat \<Rightarrow> nat \<Rightarrow> nat \<Rightarrow> paint list \<Rightarrow> bytes \<Rightarrow> bytes" where
  "pixel_after n i j [] px = px"
| "pixel_after n i j (p # ps) px =
     pixel_after n i j ps (if paint_covers i j p then paint_pixel n p i j else px)"

fun run_paint :: "('b \<Rightarrow> int \<Rightarrow> int \<Rightarrow> int \<Rightarrow> int \<Rightarrow> bytes \<Rightarrow> exn + 'b) \<Rightarrow>
  ('b \<Rightarrow> int \<Rightarrow> int \<Rightarrow> int \<Rightarrow> int \<Rightarrow> bytes \<Rightarrow> exn + 'b) \<Rightarrow> 'b \<Rightarrow> paint \<Rightarrow> exn + 'b" where
  "run_paint f g b (Fill x y w h c) = f b x y w h c"
| "run_paint f g b (Blit x y w h p) = g b x y w h p"

fun run_paints :: "('b \<Rightarrow> int \<Rightarrow> int \<Rightarrow> int \<Rightarrow> int \<Rightarrow> bytes \<Rightarrow> exn + 'b) \<Rightarrow>
  ('b \<Rightarrow> int \<Rightarrow> int \<Rightarrow> int \<Rightarrow> int \<Rightarrow> bytes \<Rightarrow> exn + 'b) \<Rightarrow> 'b \<Rightarrow> paint list \<Rightarrow> exn + 'b" where
  "run_paints f g b [] = Inr b"
| "run_paints f g b (p # ps) =
     (case run_paint f g b p of Inl e \<Rightarrow> Inl e | Inr b' \<Rightarrow> run_paints f g b' ps)"

lemma pixel_after_append:
  "pixel_after n i j (ps @ qs) px = pixel_after n i j qs (pixel_after n i j ps px)"
  by (induction ps arbitrary: px) auto

lemma pixel_after_covered:
  "p \<in> set ps \<Longrightarrow> paint_covers i j p \<Longrightarrow> pixel_after n i j ps px = pixel_after n i j ps px'"
  by (induction ps arbitrary: px px') auto

lemma pixel_after_uncovered:
  "\<forall>p \<in> set ps. \<not> paint_covers i j p \<Longrightarrow> pixel_after n i j ps px = px"
  by (induction ps arbitrary: px) auto

lemma pixel_after_last:
  "paint_covers i j p \<Longrightarrow> \<forall>q \<in> set qs. \<not> paint_covers i j q \<Longrightarrow>
     pixel_after n i j (ps @ p # qs) px = paint_pixel n p i j"
  by (simp add: pixel_after_append pixel_after_uncovered)

context canvas
begin

lemma run_paint_good:
  assumes "good b" "run_paint paint_fill paint_blit b p = Inr b'"
  shows "good b' \<and> dims b' = dims b"
proof (cases p)
  case (Fill x y w h c)
  with assms(2) have "paint_fill b x y w h c = Inr b'" by simp
  then show ?thesis by (rule fill_good [OF assms(1)])
next
  case (Blit x y w h q)
  with assms(2) have "paint_blit b x y w h q = Inr b'" by simp
  then show ?thesis by (rule blit_good [OF assms(1)])
qed

lemma run_paint_see:
  assumes "good b" "run_paint paint_fill paint_blit b p = Inr b'" "dims b = (wd, ht, n)"
    and "i < wd" "j < ht"
  shows "see b' i j = (if paint_covers i j p then paint_pixel n p i j else see b i j)"
proof (cases p)
  case (Fill x y w h c)
  with assms(2) have "paint_fill b x y w h c = Inr b'" by simp
  from fill_see [OF assms(1) this assms(3-5)] show ?thesis by (simp add: Fill)
next
  case (Blit x y w h q)
  with assms(2) have "paint_blit b x y w h q = Inr b'" by simp
  from blit_see [OF assms(1) this assms(3-5)] show ?thesis by (simp add: Blit)
qed

lemma run_paints_good:
  "good b \<Longrightarrow> run_paints paint_fill paint_blit b ps = Inr b' \<Longrightarrow> good b' \<and> dims b' = dims b"
proof (induction ps arbitrary: b)
  case Nil
  then show ?case by simp
next
  case (Cons p ps)
  obtain b1 where b1: "run_paint paint_fill paint_blit b p = Inr b1"
    "run_paints paint_fill paint_blit b1 ps = Inr b'"
    using Cons.prems(2) by (auto split: sum.splits)
  from run_paint_good [OF Cons.prems(1) b1(1)] have "good b1" "dims b1 = dims b" by auto
  with Cons.IH [OF \<open>good b1\<close> b1(2)] show ?case by simp
qed

lemma run_paints_see:
  assumes "good b" "run_paints paint_fill paint_blit b ps = Inr b'" "dims b = (wd, ht, n)"
    and "i < wd" "j < ht"
  shows "see b' i j = pixel_after n i j ps (see b i j)"
  using assms
proof (induction ps arbitrary: b)
  case Nil
  then show ?case by simp
next
  case (Cons p ps)
  obtain b1 where b1: "run_paint paint_fill paint_blit b p = Inr b1"
    "run_paints paint_fill paint_blit b1 ps = Inr b'"
    using Cons.prems(2) by (auto split: sum.splits)
  have g: "good b1" "dims b1 = (wd, ht, n)"
    using run_paint_good [OF Cons.prems(1) b1(1)] Cons.prems(3) by auto
  from Cons.IH [OF g(1) b1(2) g(2) Cons.prems(4,5)]
    run_paint_see [OF Cons.prems(1) b1(1) Cons.prems(3,4,5)]
  show ?case by simp
qed

end

definition rb_dims :: "rect_buffer \<Rightarrow> nat \<times> nat \<times> nat" where
  "rb_dims b = (rb_width b, rb_height b, rb_bypp b)"

interpretation rect_canvas: canvas fill blit rb_dims rb_inv canvas_pixel
proof (unfold_locales, goal_cases)
  case (1 b x y w h c b')
  then show ?case using fill_ok [OF 1] by (simp add: rb_dims_def)
next
  case (2 b x y w h p b')
  then show ?case using blit_ok [OF 2] by (simp add: rb_dims_def)
next
  case (3 b x y w h c b' wd ht n i j)
  then show ?case using fill_pixel [OF 3(1,2), of i j] by (simp add: rb_dims_def)
next
  case (4 b x y w h p b' wd ht n i j)
  then show ?case using blit_pixel [OF 4(1,2), of i j] by (simp add: rb_dims_def)
qed

section \<open>Nothing of the previous rectangle is seen\<close>

lemma rect_buffer_init_dims:
  "rect_buffer_init w h n backing = Inr b \<Longrightarrow>
     rb_dims b = (w, h, n) \<and> rb_nbytes b = w * h * n \<and> \<not> rb_covered b \<and> rb_whole b = None"
  by (auto simp: rect_buffer_init_def rb_dims_def Let_def split: option.splits if_splits)

lemma pixel_of_black:
  assumes "i < w" "j < h"
  shows "pixel_of w n (replicate (w * h * n) 0) i j = replicate n 0"
proof -
  have "(i + 1) * n \<le> w * n" using assms(1) by (intro mult_le_mono1) simp
  with row_in_bounds [OF assms(2), of w n] have "(j * w + i) * n + n \<le> w * h * n"
    by (simp add: algebra_simps)
  then show ?thesis by (simp add: pixel_of_def pslice_def)
qed

lemma canvas_starts_black:
  assumes "rect_buffer_init w h n backing = Inr b" "i < w" "j < h"
  shows "canvas_pixel b i j = replicate n 0"
  using rect_buffer_init_dims [OF assms(1)] pixel_of_black [OF assms(2,3)]
  by (simp add: canvas_pixel_def content_def rb_dims_def)

lemma run_paints_covered:
  assumes "rb_inv b" "run_paints fill blit b ps = Inr b'" "rb_covered b \<or> ps \<noteq> []"
  shows "rb_covered b'"
  using assms
proof (induction ps arbitrary: b)
  case Nil
  then show ?case by simp
next
  case (Cons p ps)
  obtain b1 where b1: "run_paint fill blit b p = Inr b1" "run_paints fill blit b1 ps = Inr b'"
    using Cons.prems(2) by (auto split: sum.splits)
  have "rb_covered b1"
    using b1(1) fill_ok(6) [OF Cons.prems(1)] blit_ok(6) [OF Cons.prems(1)] by (cases p) auto
  moreover have "rb_inv b1" using rect_canvas.run_paint_good [OF Cons.prems(1) b1(1)] by simp
  ultimately show ?case using Cons.IH b1(2) by blast
qed

text \<open>Two byte strings with the same pixels are the same.\<close>

lemma pixels_determine_bytes:
  assumes "length xs = w * h * n" "length ys = w * h * n"
    and px: "\<And>i j. i < w \<Longrightarrow> j < h \<Longrightarrow> pixel_of w n xs i j = pixel_of w n ys i j"
  shows "xs = ys"
proof (rule nth_equalityI)
  show "length xs = length ys" using assms(1,2) by simp
  fix k assume k: "k < length xs"
  then have n: "0 < n" and w: "0 < w" using assms(1) by (auto intro: gr0I)
  let ?q = "k div n" let ?i = "?q mod w" let ?j = "?q div w" let ?t = "k mod n"
  have "?q < w * h" using k assms(1) n by (simp add: less_mult_imp_div_less)
  then have ij: "?i < w" "?j < h" using w by (simp_all add: less_mult_imp_div_less mult.commute)
  have t: "?t < n" using n by simp
  have addr: "(?j * w + ?i) * n + ?t = k" by simp
  have "pixel_of w n zs ?i ?j ! ?t = zs ! k" if "k < length zs" for zs
    using that t addr by (simp add: pixel_of_def nth_pslice)
  from this [of xs] this [of ys] show "xs ! k = ys ! k"
    using px [OF ij] k assms(1,2) by simp
qed

lemma rect_buffer_pixels:
  assumes "rect_buffer_init w h n (Some store) = Inr b"
    and "run_paints fill blit b ps = Inr b'" and "ps \<noteq> []"
    and "i < w" "j < h"
  shows "length (tobytes b') = w * h * n \<and>
    pixel_of w n (tobytes b') i j = pixel_after n i j ps (replicate n 0)"
proof -
  note inv = rect_buffer_init_inv [OF assms(1)]
  note init = rect_buffer_init_dims [OF assms(1)]
  have inv': "rb_inv b'" and dims: "rb_dims b' = (w, h, n)"
    using rect_canvas.run_paints_good [OF inv assms(2)] init by simp_all
  have cov: "content b' = tobytes b'"
    using run_paints_covered [OF inv assms(2)] assms(3) by (simp add: content_def)
  have "canvas_pixel b' i j = pixel_after n i j ps (replicate n 0)"
    using rect_canvas.run_paints_see [OF inv assms(2) _ assms(4,5)] init
      canvas_starts_black [OF assms(1,4,5)] by simp
  then show ?thesis
    using length_content [OF inv'] inv' dims cov by (simp add: canvas_pixel_def rb_dims_def rb_inv_def)
qed

text \<open>
  C35: the buffer is a canvas that starts black. Whatever the reused store held, after any non-empty
  sequence of fills and blits that succeeded the bytes handed to the client have the full length,
  and each pixel is the one the last covering paint gave it, or black.
\<close>

theorem rect_buffer_paints:
  assumes "rect_buffer_init w h n (Some store) = Inr b"
    and "run_paints fill blit b ps = Inr b'" and "ps \<noteq> []"
    and "i < w" "j < h"
  shows "length (tobytes b') = w * h * n \<and>
    pixel_of w n (tobytes b') i j = pixel_after n i j ps (replicate n 0)"
  by (rule rect_buffer_pixels [OF assms])

lemma rect_buffer_paints_witness:
  "\<exists>b b'. rect_buffer_init 2 1 1 (Some [7, 7, 7]) = Inr b \<and>
     run_paints fill blit b [Fill 1 0 1 1 [9]] = Inr b' \<and>
     pixel_of 2 1 (tobytes b') 0 0 = [0] \<and> pixel_of 2 1 (tobytes b') 1 0 = [9]"
proof -
  define b where "b = \<lparr>rb_width = 2, rb_height = 1, rb_bypp = 1, rb_backing = [7, 7, 7 :: byte],
    rb_nbytes = 2, rb_whole = None, rb_covered = False\<rparr>"
  have b: "rect_buffer_init 2 1 1 (Some [7, 7, 7]) = Inr b"
    by (simp add: rect_buffer_init_def b_def)
  obtain b' where b': "run_paints fill blit b [Fill 1 0 1 1 [9]] = Inr b'"
    by (simp add: b_def fill_def check_bounds_def Let_def)
  from rect_buffer_paints [OF b b', of 0 0] rect_buffer_paints [OF b b', of 1 0] b b'
  show ?thesis by (auto simp: in_rect_def)
qed

lemma fill_same_error:
  "rb_dims b1 = rb_dims b2 \<Longrightarrow> fill b1 x y w h c = Inl e \<longleftrightarrow> fill b2 x y w h c = Inl e"
  by (auto simp: rb_dims_def fill_def check_bounds_def Let_def)

lemma blit_same_error:
  "rb_dims b1 = rb_dims b2 \<Longrightarrow> rb_nbytes b1 = rb_nbytes b2 \<Longrightarrow>
     blit b1 x y w h p = Inl e \<longleftrightarrow> blit b2 x y w h p = Inl e"
  by (auto simp: rb_dims_def blit_def is_whole_def check_bounds_def Let_def)

end
