(* ===== verification/Session.thy ===== *)
theory Session
  imports Const RectBuffers
begin

text \<open>
  What one connection knows (\<open>rfb.py\<close>, \<open>RFBClient.__init__\<close> and the attributes of its factory), the
  methods a subclass overrides, the libraries the sources call, and what a decoder may ask of the
  client: \<open>requireFits\<close>, \<open>rectBuffer\<close> and \<open>requirePayload\<close>.

  The record is extensible: \<open>VNCDoToolClient\<close> adds its own fields, and everything here is stated
  for any extension \<open>'m\<close>.  The overridable methods are a record of functions on that state, as a
  subclass's method table is, each of which may raise.  zlib, Pillow's JPEG reader, the ciphers and
  TLS are functions of \<open>externals\<close>.  The attributes that only the pump touches (the receive buffer,
  the parked handler, \<open>_aborted\<close> and \<open>_tls_handshake_pending\<close>) are in the theory of the pump, \<open>Rfb\<close>;
  the ones below are those the rest of the code sees.
\<close>

section \<open>State\<close>

text \<open>Python strings whose encoding matters are lists of code points.\<close>

type_synonym unicode = "nat list"
type_synonym rect = "nat \<times> nat \<times> nat \<times> nat"

record 'z rfb_state =
  st_version :: "nat \<times> nat"
  st_version_server :: "nat \<times> nat"
  st_vencrypt_subtype :: int
  st_negotiated :: "int list"
  st_pixfmt :: pixel_format
  st_width :: nat
  st_height :: nat
  st_rect_backing :: bytes
  st_rectangles :: nat
  st_rect_log :: "rect list"
  st_challenge :: bytes
  st_name :: bytes
  st_zrle :: 'z
  st_tight :: "'z option list"
  st_jpeg_offered :: bool
  st_written :: "bytes list"
  st_lost :: bool
  st_tls_started :: bool
  fac_username :: "unicode option"
  fac_password :: "unicode option"
  fac_shared :: bool
  fac_tls_hostname :: "unicode option"
  fac_tls_ca_certs :: "unicode option"
  fac_tls_allow_unverified :: bool

text \<open>
  Third-party code.  A decompressor is a value of type \<open>'z\<close> that each call returns updated, with
  the bytes it produced and its \<open>unconsumed_tail\<close>; a \<open>max_length\<close> of 0 means no limit, as in
  \<open>zlib\<close>.  \<open>read_jpeg\<close> is \<open>Image.open(...).convert("RGB")\<close>: the size and the bytes, or None where
  Pillow raises.  \<open>merge_bands w h\<close> is \<open>Image.merge\<close> of single-band images of that size, as bytes.
\<close>

record 'z externals =
  can_allocate :: "nat \<Rightarrow> bool"
  zlib_new :: "int \<Rightarrow> 'z"
  zlib_decompress :: "'z \<Rightarrow> bytes \<Rightarrow> nat \<Rightarrow> exn + 'z \<times> bytes \<times> bytes"
  read_jpeg :: "bytes \<Rightarrow> (nat \<times> nat \<times> bytes) option"
  merge_bands :: "nat \<Rightarrow> nat \<Rightarrow> bytes list \<Rightarrow> bytes"
  des_ecb :: "bytes \<Rightarrow> bytes \<Rightarrow> bytes"
  ard_response :: "bytes \<Rightarrow> nat \<Rightarrow> nat \<Rightarrow> nat \<Rightarrow> nat \<Rightarrow> exn + bytes"
  urandom :: "nat \<Rightarrow> bytes"
  prompt_username :: unicode
  prompt_password :: unicode
  tls_options :: "int \<Rightarrow> unicode option \<Rightarrow> unicode option \<Rightarrow> bool \<Rightarrow> bool"

definition rfb_init :: "'z externals \<Rightarrow> 'z rfb_state" where
  "rfb_init ex =
     \<lparr>st_version = (0, 0), st_version_server = (0, 0),
      st_vencrypt_subtype = 256, st_negotiated = [RAW],
      st_pixfmt = default_pixel_format, st_width = 0, st_height = 0, st_rect_backing = [],
      st_rectangles = 0, st_rect_log = [], st_challenge = [], st_name = [],
      st_zrle = zlib_new ex 0, st_tight = replicate 4 None, st_jpeg_offered = False,
      st_written = [], st_lost = False, st_tls_started = False,
      fac_username = None, fac_password = None, fac_shared = False,
      fac_tls_hostname = None, fac_tls_ca_certs = None, fac_tls_allow_unverified = False\<rparr>"

text \<open>
  A concrete instance for the witnesses: a decompressor that stores its input, within
  \<open>max_length\<close>, and ciphers that do nothing.
\<close>

definition stored_externals :: "unit externals" where
  "stored_externals =
     \<lparr>can_allocate = (\<lambda>n. True), zlib_new = (\<lambda>wbits. ()),
      zlib_decompress = (\<lambda>z data max_length.
        Inr (z, if max_length = 0 then data else take max_length data,
             if max_length = 0 then [] else drop max_length data)),
      read_jpeg = (\<lambda>data. None),
      merge_bands = (\<lambda>w h bands. concat (map (\<lambda>i. map (\<lambda>band. band ! i) bands) [0..<w * h])),
      des_ecb = (\<lambda>key data. data), ard_response = (\<lambda>creds g n p k. Inr creds),
      urandom = (\<lambda>n. replicate n 0), prompt_username = [], prompt_password = [],
      tls_options = (\<lambda>subtype host certs unverified. True)\<rparr>"

section \<open>Why a connection is given up\<close>

text \<open>One constructor per message text that reaches \<open>abortConnection\<close> or \<open>vncProtocolError\<close>.\<close>

datatype abort_reason =
    InvalidGreeting bytes
  | NoCommonSecurity "nat list"
  | ServerRequiresSecurity nat
  | ServerChoseSecurity nat
  | ConnFailedUnreadable decode_error
  | ServerRefused bytes
  | MessageNotImplemented nat
  | EncodingNotDecoded int
  | WrongPasteLength nat nat nat nat nat
  | CannotDecodeRectangle exn
  | CannotDecodeMessage nat exn
  | CannotNegotiate nat exn
  | NegativeRequest int
  | TlsHandshakeFailed int
  | RequestedFormatUnsupported pf_error

section \<open>Overridable methods\<close>

record 'c hooks =
  vncConnectionMade :: "'c \<Rightarrow> exn + 'c"
  vncRequestPassword :: "'c \<Rightarrow> exn + 'c"
  vncAuthFailed :: "bytes \<Rightarrow> 'c \<Rightarrow> exn + 'c"
  vncProtocolError :: "abort_reason \<Rightarrow> 'c \<Rightarrow> exn + 'c"
  beginUpdate :: "'c \<Rightarrow> exn + 'c"
  commitUpdate :: "rect list \<Rightarrow> 'c \<Rightarrow> exn + 'c"
  updateRectangle :: "nat \<Rightarrow> nat \<Rightarrow> nat \<Rightarrow> nat \<Rightarrow> bytes \<Rightarrow> pixel_format \<Rightarrow> 'c \<Rightarrow> exn + 'c"
  copyRectangle :: "nat \<Rightarrow> nat \<Rightarrow> nat \<Rightarrow> nat \<Rightarrow> nat \<Rightarrow> nat \<Rightarrow> 'c \<Rightarrow> exn + 'c"
  updateCursor :: "nat \<Rightarrow> nat \<Rightarrow> nat \<Rightarrow> nat \<Rightarrow> bytes \<Rightarrow> bytes \<Rightarrow> 'c \<Rightarrow> exn + 'c"
  updatePointerPos :: "nat \<Rightarrow> nat \<Rightarrow> 'c \<Rightarrow> exn + 'c"
  updateDesktopSize :: "nat \<Rightarrow> nat \<Rightarrow> 'c \<Rightarrow> exn + 'c"
  set_color_map :: "nat \<Rightarrow> (nat \<times> nat \<times> nat) list \<Rightarrow> 'c \<Rightarrow> exn + 'c"
  bell :: "'c \<Rightarrow> exn + 'c"
  copy_text :: "bytes \<Rightarrow> 'c \<Rightarrow> exn + 'c"

section \<open>The transport\<close>

definition transport_write :: "bytes \<Rightarrow> ('z, 'm) rfb_state_scheme \<Rightarrow> ('z, 'm) rfb_state_scheme" where
  "transport_write bs c = c\<lparr>st_written := st_written c @ [bs]\<rparr>"

definition lose_connection :: "('z, 'm) rfb_state_scheme \<Rightarrow> ('z, 'm) rfb_state_scheme" where
  "lose_connection c = c\<lparr>st_lost := True\<rparr>"

text \<open>Everything written so far, as the server reads it.\<close>

definition sent :: "('z, 'm) rfb_state_scheme \<Rightarrow> bytes" where
  "sent c = concat (st_written c)"

lemma sent_write [simp]: "sent (transport_write bs c) = sent c @ bs"
  by (simp add: sent_def transport_write_def)

section \<open>What a decoder may ask of the client\<close>

definition MAX_DESKTOP_SIZE :: nat where
  "MAX_DESKTOP_SIZE = 0x10000"

definition MAX_MESSAGE_PAYLOAD :: nat where
  "MAX_MESSAGE_PAYLOAD = 2 ^ 20"

definition fit_limits :: "('z, 'm) rfb_state_scheme \<Rightarrow> nat \<times> nat" where
  "fit_limits c =
     (if st_width c = 0 then MAX_DESKTOP_SIZE else st_width c,
      if st_height c = 0 then MAX_DESKTOP_SIZE else st_height c)"

definition requireFits :: "nat \<Rightarrow> nat \<Rightarrow> ('z, 'm) rfb_state_scheme \<Rightarrow> exn + unit" where
  "requireFits width height c =
     (let (limit_w, limit_h) = fit_limits c
      in if width \<le> limit_w \<and> height \<le> limit_h then Inr ()
         else Inl (DecodeError (DoesNotFit width height limit_w limit_h)))"

definition requirePayload :: "nat \<Rightarrow> exn + unit" where
  "requirePayload n = (if n > MAX_MESSAGE_PAYLOAD then Inl (DecodeError (PayloadTooLarge n)) else Inr ())"

text \<open>
  \<open>rectBuffer\<close>: the store is grown when it is too small, and shared with the buffer it returns.
  The sharing is modelled by writing the buffer's store back when the rectangle is finished.
\<close>

definition rectBuffer ::
  "'z externals \<Rightarrow> nat \<Rightarrow> nat \<Rightarrow> ('z, 'm) rfb_state_scheme \<Rightarrow>
     exn + ('z, 'm) rfb_state_scheme \<times> rect_buffer" where
  "rectBuffer ex width height c =
     (case requireFits width height c of Inl e \<Rightarrow> Inl e | Inr _ \<Rightarrow>
        (let n = bypp (st_pixfmt c);
             needed = width * height * n
         in if length (st_rect_backing c) < needed \<and> \<not> can_allocate ex needed
            then Inl (DecodeError (NoMemory width height))
            else
              (let c' = (if length (st_rect_backing c) < needed
                         then c\<lparr>st_rect_backing := replicate needed 0\<rparr> else c)
               in case rect_buffer_init width height n (Some (st_rect_backing c')) of
                    Inl e \<Rightarrow> Inl e
                  | Inr b \<Rightarrow> Inr (c', b))))"

lemma rectBuffer_Inr:
  assumes "rectBuffer ex w h c = Inr (c', b)"
  shows "rb_inv b \<and> rb_dims b = (w, h, bypp (st_pixfmt c)) \<and>
    rect_buffer_init w h (bypp (st_pixfmt c)) (Some (st_rect_backing c')) = Inr b \<and>
    c' = c\<lparr>st_rect_backing := st_rect_backing c'\<rparr>"
proof -
  have "rect_buffer_init w h (bypp (st_pixfmt c)) (Some (st_rect_backing c')) = Inr b"
    and c': "c' = c\<lparr>st_rect_backing := st_rect_backing c'\<rparr>"
    using assms by (auto simp: rectBuffer_def Let_def split: sum.splits if_splits)
  then show ?thesis
    using rect_buffer_init_inv rect_buffer_init_dims by blast
qed

lemma rectBuffer_never_ValueError:
  "rectBuffer ex w h c = Inl e \<Longrightarrow> \<exists>d. e = DecodeError d"
  by (auto simp: rectBuffer_def rect_buffer_init_def requireFits_def Let_def
      split: sum.splits prod.splits if_splits)

section \<open>The base class's methods\<close>

text \<open>
  \<open>RFBClient\<close>'s own versions: the callbacks do nothing, and \<open>vncRequestPassword\<close> is given by the
  theory of the security types, which has \<open>sendPassword\<close>.
\<close>

definition base_hooks :: "(('z, 'm) rfb_state_scheme \<Rightarrow> exn + ('z, 'm) rfb_state_scheme) \<Rightarrow>
  ('z, 'm) rfb_state_scheme hooks" where
  "base_hooks request_password =
     \<lparr>vncConnectionMade = Inr, vncRequestPassword = request_password, vncAuthFailed = (\<lambda>r. Inr),
      vncProtocolError = (\<lambda>r. Inr), beginUpdate = Inr, commitUpdate = (\<lambda>rs. Inr),
      updateRectangle = (\<lambda>x y w h d pf. Inr), copyRectangle = (\<lambda>sx sy x y w h. Inr),
      updateCursor = (\<lambda>x y w h i m. Inr), updatePointerPos = (\<lambda>x y. Inr),
      updateDesktopSize = (\<lambda>w h. Inr), set_color_map = (\<lambda>n cs. Inr), bell = Inr,
      copy_text = (\<lambda>t. Inr)\<rparr>"

end
