(* ===== verification/Decoding.thy ===== *)
theory Decoding
  imports Session
begin

text \<open>
  \<open>vncdotool/decoders/base.py\<close>: what every decoder returns, and the four shapes of \<open>decode\<close>.
  The locale at the end is the contract of the decoders that fill a rect buffer; each of them is
  shown to meet it in its own theory, and what follows from it (the paste always has the length the
  pump expects, and nothing of the reused store reaches it) is proved once.
\<close>

section \<open>Outcomes\<close>

datatype rect_outcome = Outcome bool "(bytes \<times> pixel_format) option"

abbreviation NOTHING :: rect_outcome where "NOTHING \<equiv> Outcome False None"
abbreviation CHANGED :: rect_outcome where "CHANGED \<equiv> Outcome True None"

type_synonym ('z, 'm) client = "('z, 'm) rfb_state_scheme"

section \<open>The four shapes\<close>

text \<open>
  \<open>PixelDecoder.decode\<close>.  The buffer shares its store with the client, which is why the store is
  written back once the generator has finished with it.
\<close>

definition pixel_decode ::
  "'z externals \<Rightarrow> (rect_buffer \<Rightarrow> pixel_format \<Rightarrow> (('z, 'm) client, rect_buffer) gen) \<Rightarrow>
     rect \<Rightarrow> pixel_format \<Rightarrow> (('z, 'm) client, rect_outcome) gen" where
  "pixel_decode ex decodePixels r pf =
     (case r of (x, y, w, h) \<Rightarrow>
        ReadClient (\<lambda>c. checked (rectBuffer ex w h c) (\<lambda>(c', target).
          WriteClient c' (yield_from (decodePixels target pf) (\<lambda>t.
            ReadClient (\<lambda>c2. WriteClient (c2\<lparr>st_rect_backing := rb_backing t\<rparr>)
              (Return (Outcome True (Some (tobytes t, pf))))))))))"

text \<open>\<open>WholeRectDecoder.decode\<close>.\<close>

definition whole_rect_decode ::
  "(nat \<Rightarrow> nat \<Rightarrow> pixel_format \<Rightarrow> (('z, 'm) client, bytes \<times> pixel_format) gen) \<Rightarrow>
     rect \<Rightarrow> pixel_format \<Rightarrow> (('z, 'm) client, rect_outcome) gen" where
  "whole_rect_decode decodeRect r pf =
     (case r of (x, y, w, h) \<Rightarrow>
        ReadClient (\<lambda>c. checked (requireFits w h c) (\<lambda>_.
          yield_from (decodeRect w h pf) (\<lambda>paste. Return (Outcome True (Some paste))))))"

text \<open>\<open>ClientDecoder.decode\<close> and \<open>ControlDecoder.decode\<close>.\<close>

definition client_decode ::
  "(rect \<Rightarrow> pixel_format \<Rightarrow> (('z, 'm) client, unit) gen) \<Rightarrow>
     rect \<Rightarrow> pixel_format \<Rightarrow> (('z, 'm) client, rect_outcome) gen" where
  "client_decode decodeForClient r pf = yield_from (decodeForClient r pf) (\<lambda>_. Return CHANGED)"

definition control_decode ::
  "(nat \<Rightarrow> nat \<Rightarrow> nat \<Rightarrow> nat \<Rightarrow> ('z, 'm) client \<Rightarrow> exn + ('z, 'm) client) \<Rightarrow>
     rect \<Rightarrow> pixel_format \<Rightarrow> (('z, 'm) client, rect_outcome) gen" where
  "control_decode decodeForControl r pf =
     (case r of (x, y, w, h) \<Rightarrow> call_client (decodeForControl x y w h) (Return NOTHING))"

section \<open>Packed indices\<close>

text \<open>The reference for ZRLE and Tight, which both pack palette indices into bytes: the index of pixel \<open>x\<close> of a row, read directly out of the row's bytes.\<close>

definition packed_index :: "nat \<Rightarrow> bytes \<Rightarrow> nat \<Rightarrow> nat" where
  "packed_index bits row x =
     (let per_byte = 8 div bits; slot = x mod per_byte
      in unat (row ! (x div per_byte)) div 2 ^ (8 - bits - slot * bits) mod 2 ^ bits)"

section \<open>Tiles\<close>

text \<open>
  Hextile and ZRLE walk the rectangle in square tiles, left to right and top to bottom, the last
  of a row or column cut to what is left: \<open>for ty in range(0, height, T): for tx in ...\<close>.
\<close>

definition tiles :: "nat \<Rightarrow> nat \<Rightarrow> nat \<Rightarrow> (nat \<times> nat \<times> nat \<times> nat) list" where
  "tiles T W H =
     concat (map (\<lambda>ty. map (\<lambda>tx. (tx, ty, min T (W - tx), min T (H - ty))) (py_range 0 W T))
       (py_range 0 H T))"

fun in_tile :: "nat \<times> nat \<times> nat \<times> nat \<Rightarrow> nat \<Rightarrow> nat \<Rightarrow> bool" where
  "in_tile (tx, ty, tw, th) i j \<longleftrightarrow> tx \<le> i \<and> i < tx + tw \<and> ty \<le> j \<and> j < ty + th"

lemma in_rect_tile:
  "in_rect (int tx) (int ty) (int tw) (int th) i j \<longleftrightarrow> in_tile (tx, ty, tw, th) i j"
  by (auto simp: in_rect_def)

lemma py_range_floor:
  assumes "0 < T" "i < W"
  shows "i div T * T \<in> set (py_range 0 W T)"
proof -
  have "i div T < (W + T - 1) div T"
  proof -
    have "i + T \<le> W + T - 1" using assms by simp
    then have "(i + T) div T \<le> (W + T - 1) div T" by (rule div_le_mono)
    moreover have "(i + T) div T = i div T + 1" using assms(1) by (intro div_add_self2) simp
    ultimately show ?thesis by linarith
  qed
  then show ?thesis by (auto simp: py_range_def)
qed

lemma tiles_cover:
  assumes "0 < T" "i < W" "j < H"
  shows "\<exists>t \<in> set (tiles T W H). in_tile t i j"
proof -
  let ?t = "(i div T * T, j div T * T, min T (W - i div T * T), min T (H - j div T * T))"
  have "?t \<in> set (tiles T W H)"
    unfolding tiles_def
    using py_range_floor [OF assms(1,2)] py_range_floor [OF assms(1,3)]
    by (auto simp: image_iff intro!: bexI)
  moreover have "in_tile ?t i j"
  proof -
    have "i < i div T * T + T" "j < j div T * T + T"
      using dividend_less_div_times [OF assms(1)] by (simp_all add: add.commute)
    then show ?thesis
      using assms(2,3) by (auto simp: min_def)
  qed
  ultimately show ?thesis by blast
qed

lemma tiles_inside:
  assumes "0 < T" "(tx, ty, tw, th) \<in> set (tiles T W H)"
  shows "tx + tw \<le> W \<and> ty + th \<le> H \<and> 0 < tw \<and> 0 < th \<and> tw \<le> T \<and> th \<le> T"
proof -
  have "tx \<in> set (py_range 0 W T)" "ty \<in> set (py_range 0 H T)"
    and "tw = min T (W - tx)" "th = min T (H - ty)"
    using assms(2) by (auto simp: tiles_def)
  then show ?thesis
    using py_range_bounds [OF assms(1)] assms(1) by fastforce
qed

lemma py_range_distinct: "0 < step \<Longrightarrow> distinct (py_range a b step)"
  by (auto simp: py_range_def distinct_map inj_on_def)

lemma py_range_block:
  assumes "0 < T" "x \<in> set (py_range 0 W T)" "x \<le> i" "i < x + T"
  shows "x = i div T * T"
proof -
  obtain k where x: "x = k * T" using assms(2) by (auto simp: py_range_def)
  have "i div T = k" using assms(1,3,4) by (intro div_nat_eqI) (auto simp: x algebra_simps)
  then show ?thesis using x by simp
qed

text \<open>A pixel is in one tile only.\<close>

lemma tiles_disjoint:
  assumes "0 < T" "t \<in> set (tiles T W H)" "in_tile t i j"
  shows "t = (i div T * T, j div T * T, min T (W - i div T * T), min T (H - j div T * T))"
proof -
  obtain tx ty where t: "t = (tx, ty, min T (W - tx), min T (H - ty))"
    and m: "tx \<in> set (py_range 0 W T)" "ty \<in> set (py_range 0 H T)"
    using assms(2) by (auto simp: tiles_def)
  have "tx \<le> i" "i < tx + T" "ty \<le> j" "j < ty + T"
    using assms(3) by (auto simp: t)
  then show ?thesis
    using py_range_block [OF assms(1) m(1)] py_range_block [OF assms(1) m(2)] t by simp
qed

lemma tiles_distinct:
  assumes "0 < T"
  shows "distinct (tiles T W H)"
proof -
  have "distinct (map (\<lambda>tx. (tx, ty, min T (W - tx), min T (H - ty))) (py_range 0 W T))" for ty
    using py_range_distinct [OF assms] by (simp add: distinct_map inj_on_def)
  moreover have "inj_on (\<lambda>ty. map (\<lambda>tx. (tx, ty, min T (W - tx), min T (H - ty))) (py_range 0 W T)) A"
    if "py_range 0 W T \<noteq> []" for A
    using that by (auto simp: inj_on_def neq_Nil_conv)
  ultimately have "distinct (tiles T W H)" if "py_range 0 W T \<noteq> []"
    using py_range_distinct [OF assms] that unfolding tiles_def
    by (auto simp: distinct_map intro!: distinct_concat)
  moreover have "tiles T W H = []" if "py_range 0 W T = []"
    using that by (simp add: tiles_def)
  ultimately show ?thesis by fastforce
qed

lemma tile_index:
  assumes "0 < T" "k < length (tiles T W H)" "in_tile (tiles T W H ! k) i j"
    and "m < length (tiles T W H)" "m \<noteq> k"
  shows "\<not> in_tile (tiles T W H ! m) i j"
proof
  assume "in_tile (tiles T W H ! m) i j"
  with tiles_disjoint [OF assms(1) nth_mem [OF assms(4)]]
    tiles_disjoint [OF assms(1) nth_mem [OF assms(2)] assms(3)]
  have "tiles T W H ! m = tiles T W H ! k" by simp
  then show False
    using tiles_distinct [OF assms(1)] assms(2,4,5) by (simp add: nth_eq_iff_index_eq)
qed

section \<open>Two generators that go in lockstep\<close>

text \<open>
  \<open>lock g1 g2 P\<close>: whenever \<open>g1\<close> finishes on some bytes, it left the client alone and \<open>g2\<close>, on any
  client, finishes on the same bytes with the same rest, and \<open>P\<close> relates what they returned.  The
  rules follow the syntax of generators.
\<close>

definition lock :: "('c, 'a) gen \<Rightarrow> ('c, 'b) gen \<Rightarrow> ('a \<Rightarrow> 'b \<Rightarrow> bool) \<Rightarrow> bool" where
  "lock g1 g2 P \<longleftrightarrow> (\<forall>bs c c2 a rest c'. drive g1 bs c = Finished a rest c' \<longrightarrow>
     c' = c \<and> (\<exists>b. drive g2 bs c2 = Finished b rest c2 \<and> P a b))"

lemma lockD:
  "lock g1 g2 P \<Longrightarrow> drive g1 bs c = Finished a rest c' \<Longrightarrow>
     c' = c \<and> (\<exists>b. drive g2 bs c2 = Finished b rest c2 \<and> P a b)"
  by (simp add: lock_def)

named_theorems lock_intros \<open>rules for generators in lockstep\<close>

lemma lock_Return [lock_intros]: "P a b \<Longrightarrow> lock (Return a) (Return b) P"
  by (simp add: lock_def)

lemma lock_Throw [lock_intros]: "lock (Throw e) g P"
  by (simp add: lock_def)

lemma lock_Yield [lock_intros]:
  "(\<And>block. int (length block) = n \<Longrightarrow> lock (k1 block) (k2 block) P) \<Longrightarrow>
     lock (Yield n k1) (Yield n k2) P"
  unfolding lock_def
proof (intro allI impI, goal_cases)
  case (1 bs c c2 a rest c')
  let ?b = "take (nat n) bs"
  have n: "\<not> n < 0" "\<not> length bs < nat n"
    and d: "drive (k1 ?b) (drop (nat n) bs) c = Finished a rest c'"
    using 1(2) by (simp_all split: if_splits)
  have "int (length ?b) = n" using n by simp
  from 1(1) [OF this] d n show ?case by simp
qed

lemma lock_checked:
  "(\<And>a. r1 = Inr a \<Longrightarrow> \<exists>b. r2 = Inr b \<and> lock (f a) (g b) P) \<Longrightarrow>
     lock (checked r1 f) (checked r2 g) P"
  by (cases r1) (auto simp: lock_def)

lemma lock_yield_from:
  "lock g1 g2 Q \<Longrightarrow> (\<And>a b. Q a b \<Longrightarrow> lock (f a) (h b) P) \<Longrightarrow>
     lock (yield_from g1 f) (yield_from g2 h) P"
  unfolding lock_def
proof (intro allI impI, goal_cases)
  case (1 bs c c2 a rest c')
  then obtain x rest1 c1 where x: "drive g1 bs c = Finished x rest1 c1"
    and f: "drive (f x) rest1 c1 = Finished a rest c'"
    by (auto simp: drive_yield_from split: outcome.splits)
  with 1(1) obtain y where y: "drive g2 bs c2 = Finished y rest1 c2" "Q x y" and c1: "c1 = c"
    by blast
  from 1(2) [OF y(2)] f c1 y(1) show ?case by (auto simp: drive_yield_from)
qed

lemma lock_if [lock_intros]:
  "(b \<Longrightarrow> lock f1 f2 P) \<Longrightarrow> (\<not> b \<Longrightarrow> lock g1 g2 P) \<Longrightarrow>
     lock (if b then f1 else g1) (if b then f2 else g2) P"
  by simp

lemma lock_mono: "lock g1 g2 Q \<Longrightarrow> (\<And>a b. Q a b \<Longrightarrow> P a b) \<Longrightarrow> lock g1 g2 P"
  by (fastforce simp: lock_def)

section \<open>The contract of a decoder that fills a buffer\<close>

text \<open>Two buffers of the same shape, whatever their stores hold.\<close>

definition in_step :: "rect_buffer \<Rightarrow> rect_buffer \<Rightarrow> bool" where
  "in_step t1 t2 \<longleftrightarrow> rb_inv t1 \<and> rb_inv t2 \<and> rb_dims t1 = rb_dims t2"

lemma fill_in_step:
  assumes "in_step t1 t2" "fill t1 x y w h c = Inr t1'"
  shows "\<exists>t2'. fill t2 x y w h c = Inr t2' \<and> in_step t1' t2'"
proof -
  from assms(1) have i: "rb_inv t1" "rb_inv t2" "rb_dims t1 = rb_dims t2"
    by (auto simp: in_step_def)
  have "fill t2 x y w h c \<noteq> Inl e" for e
    using fill_same_error [OF i(3), of x y w h c e] assms(2) by simp
  then obtain t2' where t2': "fill t2 x y w h c = Inr t2'" by (cases "fill t2 x y w h c") auto
  then show ?thesis
    using rect_canvas.fill_good [OF i(1) assms(2)] rect_canvas.fill_good [OF i(2) t2'] i
    by (auto simp: in_step_def)
qed

lemma blit_in_step:
  assumes "in_step t1 t2" "blit t1 x y w h p = Inr t1'"
  shows "\<exists>t2'. blit t2 x y w h p = Inr t2' \<and> in_step t1' t2'"
proof -
  from assms(1) have i: "rb_inv t1" "rb_inv t2" "rb_dims t1 = rb_dims t2"
    by (auto simp: in_step_def)
  then have nb: "rb_nbytes t1 = rb_nbytes t2" by (simp add: rb_inv_def rb_dims_def)
  have "blit t2 x y w h p \<noteq> Inl e" for e
    using blit_same_error [OF i(3), of x y w h p e] assms(2) nb by simp
  then obtain t2' where t2': "blit t2 x y w h p = Inr t2'" by (cases "blit t2 x y w h p") auto
  then show ?thesis
    using rect_canvas.blit_good [OF i(1) assms(2)] rect_canvas.blit_good [OF i(2) t2'] i
    by (auto simp: in_step_def)
qed

definition paints_to :: "rect_buffer \<Rightarrow> paint list \<Rightarrow> rect_buffer \<Rightarrow> bool" where
  "paints_to t ps t' \<longleftrightarrow> run_paints fill blit t ps = Inr t'"

lemma paints_to_Nil [simp]: "paints_to t [] t' \<longleftrightarrow> t' = t"
  by (auto simp: paints_to_def)

lemma paints_to_Fill: "fill t x y w h c = Inr t1 \<Longrightarrow> paints_to t1 ps t' \<Longrightarrow>
    paints_to t (Fill x y w h c # ps) t'"
  by (simp add: paints_to_def)

lemma paints_to_Blit: "blit t x y w h p = Inr t1 \<Longrightarrow> paints_to t1 ps t' \<Longrightarrow>
    paints_to t (Blit x y w h p # ps) t'"
  by (simp add: paints_to_def)

lemma paints_to_append:
  "paints_to t ps t1 \<Longrightarrow> paints_to t1 qs t' \<Longrightarrow> paints_to t (ps @ qs) t'"
  unfolding paints_to_def
proof (induction ps arbitrary: t)
  case (Cons p ps)
  then show ?case by (cases "run_paint fill blit t p") auto
qed simp

text \<open>
  \<open>covering W H ps\<close>: every pixel of the rectangle is painted.  The contract: a finished run only
  paints, covers the rectangle, changes no field of the client but the decompressor, and a run on
  another buffer of the same shape, with another store behind it, makes the same paints.
\<close>

definition covering :: "nat \<Rightarrow> nat \<Rightarrow> paint list \<Rightarrow> bool" where
  "covering W H ps \<longleftrightarrow> (\<forall>i<W. \<forall>j<H. \<exists>p \<in> set ps. paint_covers i j p)"

text \<open>The paints of one tile: the first covers it, none leaves it; and those of a list of tiles.\<close>

definition within_tile :: "nat \<times> nat \<times> nat \<times> nat \<Rightarrow> paint \<Rightarrow> bool" where
  "within_tile t p \<longleftrightarrow> (\<forall>i j. paint_covers i j p \<longrightarrow> in_tile t i j)"

definition tile_paints :: "nat \<times> nat \<times> nat \<times> nat \<Rightarrow> paint list \<Rightarrow> bool" where
  "tile_paints t ps \<longleftrightarrow> (\<exists>p qs. ps = p # qs \<and> (\<forall>i j. in_tile t i j \<longrightarrow> paint_covers i j p)) \<and>
     list_all (within_tile t) ps"

definition tiles_paints :: "(nat \<times> nat \<times> nat \<times> nat) list \<Rightarrow> paint list list \<Rightarrow> bool" where
  "tiles_paints ts pss \<longleftrightarrow> list_all2 tile_paints ts pss"

lemma tiles_paints_simps [simp]:
  "tiles_paints [] pss \<longleftrightarrow> pss = []"
  "tiles_paints (t # ts) (ps # pss) \<longleftrightarrow> tile_paints t ps \<and> tiles_paints ts pss"
  by (simp_all add: tiles_paints_def)

lemma within_tile_Fill:
  assumes "sx + sw \<le> tw" "sy + sh \<le> th"
  shows "within_tile (tx, ty, tw, th) (Fill (int (tx + sx)) (int (ty + sy)) (int sw) (int sh) c)"
  unfolding within_tile_def
proof (intro allI impI)
  fix i j assume "paint_covers i j (Fill (int (tx + sx)) (int (ty + sy)) (int sw) (int sh) c)"
  then have "tx + sx \<le> i" "i < tx + sx + sw" "ty + sy \<le> j" "j < ty + sy + sh"
    by (simp_all add: in_rect_def)
  with assms show "in_tile (tx, ty, tw, th) i j" by (simp add: in_rect_def)
qed

lemma tile_paints_whole:
  "tile_paints (tx, ty, tw, th) [Fill (int tx) (int ty) (int tw) (int th) c]"
  "tile_paints (tx, ty, tw, th) [Blit (int tx) (int ty) (int tw) (int th) p]"
  by (simp_all add: tile_paints_def within_tile_def in_rect_tile)

lemma tile_paints_append:
  "tile_paints t ps \<Longrightarrow> list_all (within_tile t) qs \<Longrightarrow> tile_paints t (ps @ qs)"
  by (fastforce simp: tile_paints_def)

lemma tile_paints_hits:
  assumes "tile_paints t ps" "in_tile t i j"
  shows "\<exists>p \<in> set ps. paint_covers i j p"
proof -
  obtain p qs where "ps = p # qs" and p: "\<forall>i j. in_tile t i j \<longrightarrow> paint_covers i j p"
    using assms(1) by (auto simp: tile_paints_def)
  moreover have "paint_covers i j p" using p assms(2) by blast
  ultimately show ?thesis by simp
qed

lemma tiles_paints_covering:
  assumes "0 < T" "tiles_paints (tiles T W H) pss"
  shows "covering W H (concat pss)"
  unfolding covering_def
proof (intro allI impI)
  fix i j assume "i < W" "j < H"
  from tiles_cover [OF assms(1) this] obtain t where t: "t \<in> set (tiles T W H)" "in_tile t i j"
    by blast
  then obtain k where k: "k < length (tiles T W H)" "tiles T W H ! k = t"
    by (auto simp: in_set_conv_nth)
  then have "tile_paints t (pss ! k)" "k < length pss"
    using assms(2) by (auto simp: tiles_paints_def list_all2_conv_all_nth)
  then obtain p where "p \<in> set (pss ! k)" "paint_covers i j p"
    using tile_paints_hits [OF _ t(2)] by blast
  with \<open>k < length pss\<close> show "\<exists>p \<in> set (concat pss). paint_covers i j p"
    using nth_mem by auto
qed

lemma pixel_after_within:
  "list_all (within_tile t) ps \<Longrightarrow> \<not> in_tile t i j \<Longrightarrow> pixel_after n i j ps px = px"
  by (rule pixel_after_uncovered) (auto simp: list_all_iff within_tile_def)

text \<open>A pixel is decided by the paints of the tile it is in.\<close>

lemma tiles_paints_pixel:
  assumes "tiles_paints ts pss" "k < length ts" "in_tile (ts ! k) i j"
    and "\<And>m. m < length ts \<Longrightarrow> m \<noteq> k \<Longrightarrow> \<not> in_tile (ts ! m) i j"
  shows "pixel_after n i j (concat pss) px = pixel_after n i j (pss ! k) px"
  using assms
proof (induction ts arbitrary: pss k px)
  case Nil
  then show ?case by simp
next
  case (Cons t ts)
  obtain ps pss' where pss: "pss = ps # pss'" and tp: "tile_paints t ps" "tiles_paints ts pss'"
    using Cons.prems(1) by (cases pss) (auto simp: tiles_paints_def)
  show ?case
  proof (cases k)
    case 0
    have "pixel_after n i j (concat pss') q = q" for q
    proof (rule pixel_after_uncovered, rule ballI)
      fix p assume "p \<in> set (concat pss')"
      then obtain m where m: "m < length pss'" "p \<in> set (pss' ! m)"
        by (auto simp: in_set_conv_nth) (metis in_set_conv_nth)
      then have "m < length ts" "tile_paints (ts ! m) (pss' ! m)"
        using tp(2) by (auto simp: tiles_paints_def list_all2_conv_all_nth)
      then show "\<not> paint_covers i j p"
        using Cons.prems(4) [of "Suc m"] m(2) 0 by (auto simp: tile_paints_def list_all_iff within_tile_def)
    qed
    with 0 show ?thesis by (simp add: pss pixel_after_append)
  next
    case (Suc k')
    have "\<not> in_tile t i j" using Cons.prems(4) [of 0] Suc by auto
    moreover have "list_all (within_tile t) ps" using tp(1) by (simp add: tile_paints_def)
    ultimately have "pixel_after n i j ps q = q" for q by (intro pixel_after_within)
    moreover have "pixel_after n i j (concat pss') px = pixel_after n i j (pss' ! k') px"
      using Cons.prems(2,3) Cons.prems(4) [of "Suc m" for m] Suc
      by (intro Cons.IH [OF tp(2)]) auto
    ultimately show ?thesis by (simp add: pss Suc pixel_after_append)
  qed
qed

text \<open>A paint that succeeded lay inside the rectangle.\<close>

fun paint_inside :: "nat \<Rightarrow> nat \<Rightarrow> paint \<Rightarrow> bool" where
  "paint_inside W H (Fill x y w h c) \<longleftrightarrow> 0 \<le> x \<and> 0 \<le> y \<and> 0 \<le> w \<and> 0 \<le> h \<and> x + w \<le> int W \<and> y + h \<le> int H"
| "paint_inside W H (Blit x y w h p) \<longleftrightarrow> 0 \<le> x \<and> 0 \<le> y \<and> 0 \<le> w \<and> 0 \<le> h \<and> x + w \<le> int W \<and> y + h \<le> int H"

lemma run_paint_inside:
  "run_paint fill blit t p = Inr t' \<Longrightarrow> paint_inside (rb_width t) (rb_height t) p"
  by (cases p) (auto simp: fill_def blit_def is_whole_def check_bounds_None
      split: option.splits if_splits)

lemma paints_to_inside:
  assumes "rb_inv t" "paints_to t ps t'" "p \<in> set ps"
  shows "paint_inside (rb_width t) (rb_height t) p"
  using assms unfolding paints_to_def
proof (induction ps arbitrary: t)
  case Nil
  then show ?case by simp
next
  case (Cons q ps)
  obtain u where u: "run_paint fill blit t q = Inr u" "run_paints fill blit u ps = Inr t'"
    using Cons.prems(2) by (auto split: sum.splits)
  have "rb_inv u" "rb_width u = rb_width t" "rb_height u = rb_height t"
    using rect_canvas.run_paint_good [OF Cons.prems(1) u(1)] by (simp_all add: rb_dims_def)
  then show ?case
    using Cons.IH [OF _ u(2)] Cons.prems(3) run_paint_inside [OF u(1)] by auto
qed

text \<open>What two runs in lockstep share after painting a list of paints from \<open>t1\<close> and \<open>t2\<close>.\<close>

definition painted_pair ::
  "rect_buffer \<Rightarrow> rect_buffer \<Rightarrow> (paint list \<Rightarrow> bool) \<Rightarrow> rect_buffer \<Rightarrow> rect_buffer \<Rightarrow> bool" where
  "painted_pair t1 t2 Q u1 u2 \<longleftrightarrow>
     in_step u1 u2 \<and> (\<exists>ps. paints_to t1 ps u1 \<and> paints_to t2 ps u2 \<and> Q ps)"

lemma painted_pair_fill:
  assumes "in_step t1 t2" "fill t1 x y w h c = Inr u1" "Q [Fill x y w h c]"
  shows "\<exists>u2. fill t2 x y w h c = Inr u2 \<and> painted_pair t1 t2 Q u1 u2"
proof -
  from fill_in_step [OF assms(1,2)] obtain u2 where u2: "fill t2 x y w h c = Inr u2" "in_step u1 u2"
    by blast
  moreover have "paints_to t1 [Fill x y w h c] u1" "paints_to t2 [Fill x y w h c] u2"
    using assms(2) u2(1) by (simp_all add: paints_to_def)
  ultimately show ?thesis using assms(3) unfolding painted_pair_def by blast
qed

lemma painted_pair_blit:
  assumes "in_step t1 t2" "blit t1 x y w h p = Inr u1" "Q [Blit x y w h p]"
  shows "\<exists>u2. blit t2 x y w h p = Inr u2 \<and> painted_pair t1 t2 Q u1 u2"
proof -
  from blit_in_step [OF assms(1,2)] obtain u2 where u2: "blit t2 x y w h p = Inr u2" "in_step u1 u2"
    by blast
  moreover have "paints_to t1 [Blit x y w h p] u1" "paints_to t2 [Blit x y w h p] u2"
    using assms(2) u2(1) by (simp_all add: paints_to_def)
  ultimately show ?thesis using assms(3) unfolding painted_pair_def by blast
qed

lemma painted_pair_trans:
  assumes "painted_pair t1 t2 Q u1 u2" "painted_pair u1 u2 R v1 v2"
    and "\<And>ps qs. Q ps \<Longrightarrow> R qs \<Longrightarrow> S (ps @ qs)"
  shows "painted_pair t1 t2 S v1 v2"
  using assms unfolding painted_pair_def by (blast intro: paints_to_append)

locale pixel_decoder =
  fixes decodePixels :: "rect_buffer \<Rightarrow> pixel_format \<Rightarrow> (('z, 'm) client, rect_buffer) gen"
  assumes lockstep:
    "in_step t1 t2 \<Longrightarrow> drive (decodePixels t1 pf) bs c = Finished t1' rest c' \<Longrightarrow>
       \<exists>ps t2'. paints_to t1 ps t1' \<and> paints_to t2 ps t2' \<and>
         covering (rb_width t1) (rb_height t1) ps \<and>
         c' = c\<lparr>st_zrle := st_zrle c'\<rparr> \<and>
         drive (decodePixels t2 pf) bs (c\<lparr>st_rect_backing := store\<rparr>)
           = Finished t2' rest (c'\<lparr>st_rect_backing := store\<rparr>)"
begin

text \<open>Two runs on fresh buffers of the same shape hand over the same bytes.\<close>

lemma same_bytes:
  assumes b1: "rect_buffer_init w h n (Some s1) = Inr t1"
    and b2: "rect_buffer_init w h n (Some s2) = Inr t2"
    and d: "drive (decodePixels t1 pf) bs c = Finished t1' rest c'"
  shows "\<exists>t2'. drive (decodePixels t2 pf) bs (c\<lparr>st_rect_backing := store\<rparr>)
      = Finished t2' rest (c'\<lparr>st_rect_backing := store\<rparr>) \<and>
    tobytes t2' = tobytes t1' \<and> length (tobytes t1') = w * h * n"
proof -
  note i1 = rect_buffer_init_inv [OF b1] and i2 = rect_buffer_init_inv [OF b2]
  note d1 = rect_buffer_init_dims [OF b1] and d2 = rect_buffer_init_dims [OF b2]
  have "in_step t1 t2" using i1 i2 d1 d2 by (simp add: in_step_def)
  from lockstep [OF this d, of store] obtain ps t2' where
    p1: "run_paints fill blit t1 ps = Inr t1'" and p2: "run_paints fill blit t2 ps = Inr t2'"
    and cov: "covering w h ps" and d2': "drive (decodePixels t2 pf) bs (c\<lparr>st_rect_backing := store\<rparr>)
      = Finished t2' rest (c'\<lparr>st_rect_backing := store\<rparr>)"
    using d1 by (auto simp: paints_to_def rb_dims_def)
  have g: "rb_inv t' \<and> rb_dims t' = (w, h, n)"
    if "run_paints fill blit t ps = Inr t'" "rb_inv t" "rb_dims t = (w, h, n)" for t t'
    using rect_canvas.run_paints_good [OF that(2,1)] that(3) by simp
  have len: "length (tobytes t') = w * h * n" if "rb_inv t'" "rb_dims t' = (w, h, n)" for t'
    using that by (auto simp: rb_inv_def rb_dims_def tobytes_def split: option.splits)
  have l1: "length (tobytes t1') = w * h * n" and l2: "length (tobytes t2') = w * h * n"
    using len g [OF p1 i1] g [OF p2 i2] d1 d2 by blast+
  have "tobytes t2' = tobytes t1'"
  proof (rule pixels_determine_bytes [OF l2 l1])
    fix i j assume ij: "i < w" "j < h"
    then have ne: "ps \<noteq> []" using cov by (auto simp: covering_def)
    show "pixel_of w n (tobytes t2') i j = pixel_of w n (tobytes t1') i j"
      using rect_buffer_pixels [OF b1 p1 ne ij] rect_buffer_pixels [OF b2 p2 ne ij] by simp
  qed
  with d2' l1 show ?thesis by blast
qed

text \<open>The whole \<open>decode\<close>: the paste has the length the pump will ask for.\<close>

lemma decode_paste:
  assumes "drive (pixel_decode ex decodePixels (x, y, w, h) pf) bs c = Finished out rest c'"
  shows "\<exists>px. out = Outcome True (Some (px, pf)) \<and> length px = w * h * bypp (st_pixfmt c)"
proof -
  obtain c1 t where rb: "rectBuffer ex w h c = Inr (c1, t)"
    using assms by (auto simp: pixel_decode_def split: sum.splits)
  then obtain t' rest' c2 where d: "drive (decodePixels t pf) bs c1 = Finished t' rest' c2"
    and out: "out = Outcome True (Some (tobytes t', pf))"
    using assms by (auto simp: pixel_decode_def drive_yield_from split: outcome.splits)
  from rectBuffer_Inr [OF rb]
  have b: "rect_buffer_init w h (bypp (st_pixfmt c)) (Some (st_rect_backing c1)) = Inr t" by simp
  from same_bytes [OF b b d] out show ?thesis by blast
qed

text \<open>The store left by earlier rectangles does not reach the outcome.\<close>

lemma decode_ignores_store:
  assumes d: "drive (pixel_decode ex decodePixels (x, y, w, h) pf) bs c = Finished out rest c'"
    and mem: "can_allocate ex (w * h * bypp (st_pixfmt c))"
  shows "\<exists>c''. drive (pixel_decode ex decodePixels (x, y, w, h) pf) bs
    (c\<lparr>st_rect_backing := store\<rparr>) = Finished out rest c''"
proof -
  let ?n = "bypp (st_pixfmt c)" and ?c = "c\<lparr>st_rect_backing := store\<rparr>"
  obtain c1 t where rb: "rectBuffer ex w h c = Inr (c1, t)"
    using d by (auto simp: pixel_decode_def split: sum.splits)
  then obtain t' rest' c2 where d1: "drive (decodePixels t pf) bs c1 = Finished t' rest' c2"
    and out: "out = Outcome True (Some (tobytes t', pf))" and rest: "rest' = rest"
    using d by (auto simp: pixel_decode_def drive_yield_from split: outcome.splits)
  note r1 = rectBuffer_Inr [OF rb]
  have fits: "requireFits w h ?c = requireFits w h c"
    by (simp add: requireFits_def fit_limits_def)
  have "\<exists>d2 t2. rectBuffer ex w h ?c = Inr (d2, t2)"
    using rb mem by (auto simp: rectBuffer_def fits rect_buffer_init_def Let_def
        split: sum.splits if_splits)
  then obtain d2 t2 where rb2: "rectBuffer ex w h ?c = Inr (d2, t2)" by blast
  note r2 = rectBuffer_Inr [OF rb2]
  obtain a where a: "c1 = c\<lparr>st_rect_backing := a\<rparr>" using r1 by blast
  obtain b where b: "d2 = ?c\<lparr>st_rect_backing := b\<rparr>" using r2 by blast
  have d2: "c1\<lparr>st_rect_backing := b\<rparr> = d2" by (simp add: a b)
  have b1: "rect_buffer_init w h ?n (Some (st_rect_backing c1)) = Inr t" using r1 by simp
  have b2: "rect_buffer_init w h ?n (Some (st_rect_backing d2)) = Inr t2" using r2 by simp
  from same_bytes [OF b1 b2 d1, of b] obtain t2' c3 where
    "drive (decodePixels t2 pf) bs d2 = Finished t2' rest c3" "tobytes t2' = tobytes t'"
    unfolding d2 rest by blast
  then show ?thesis
    by (simp add: pixel_decode_def rb2 drive_yield_from out)
qed

end

end
