(* ===== verification/SimpleDecoders.thy ===== *)
theory SimpleDecoders
  imports Decoding
begin

text \<open>
  \<open>vncdotool/decoders/\<close>: Raw, CopyRect, RRE and CoRRE, Cursor and the pseudo-encodings that only call
  the client (\<open>raw.py\<close>, \<open>copyrect.py\<close>, \<open>rre.py\<close>, \<open>cursor.py\<close>, \<open>control.py\<close>).  RRE's theorem is the
  painter's rule over the bytes of the stream, and the overflow checks are theorems of their own.
\<close>

section \<open>Raw\<close>

definition raw_decode :: "rect \<Rightarrow> pixel_format \<Rightarrow> (('z, 'm) client, rect_outcome) gen" where
  "raw_decode r pf =
     (case r of (x, y, w, h) \<Rightarrow>
        ReadClient (\<lambda>c. checked (requireFits w h c) (\<lambda>_.
          Yield (int (w * h * bypp pf)) (\<lambda>data. Return (Outcome True (Some (data, pf)))))))"

section \<open>CopyRect\<close>

definition copyrect_decode_for_client ::
  "('z, 'm) client hooks \<Rightarrow> rect \<Rightarrow> pixel_format \<Rightarrow> (('z, 'm) client, unit) gen" where
  "copyrect_decode_for_client hk r pf =
     Yield 4 (\<lambda>block.
       let srcx = u16_at 0 block; srcy = u16_at 2 block; (x, y, w, h) = r
       in ReadClient (\<lambda>c.
            if srcx + w > st_width c \<or> srcy + h > st_height c
            then Throw (DecodeError (CopySourceOutside srcx srcy w h (st_width c) (st_height c)))
            else call_client (copyRectangle hk srcx srcy x y w h) (Return ())))"

section \<open>RRE and CoRRE\<close>

text \<open>\<open>COORDS\<close>: the size of a subrectangle's coordinates and how they are read at an offset.\<close>

type_synonym coords = "nat \<times> (nat \<Rightarrow> bytes \<Rightarrow> nat \<times> nat \<times> nat \<times> nat)"

definition rre_coords :: coords where
  "rre_coords = (8, \<lambda>p d. (u16_at p d, u16_at (p + 2) d, u16_at (p + 4) d, u16_at (p + 6) d))"

definition corre_coords :: coords where
  "corre_coords = (4, \<lambda>p d. (unat (d ! p), unat (d ! (p + 1)), unat (d ! (p + 2)), unat (d ! (p + 3))))"

fun rre_subrects :: "coords \<Rightarrow> nat \<Rightarrow> bytes \<Rightarrow> nat list \<Rightarrow> rect_buffer \<Rightarrow> exn + rect_buffer" where
  "rre_subrects cs n data [] target = Inr target"
| "rre_subrects cs n data (pos # ps) target =
     (case snd cs (pos + n) data of (x, y, w, h) \<Rightarrow>
        case fill target (int x) (int y) (int w) (int h) (pslice pos (pos + n) data) of
          Inl e \<Rightarrow> Inl e
        | Inr target' \<Rightarrow> rre_subrects cs n data ps target')"

definition rre_pixels :: "coords \<Rightarrow> rect_buffer \<Rightarrow> pixel_format \<Rightarrow> ('c, rect_buffer) gen" where
  "rre_pixels cs target pf =
     (let n = rb_bypp target in
      Yield (4 + int n) (\<lambda>header.
        let count = be_val (take 4 header) in
        checked (fill target 0 0 (int (rb_width target)) (int (rb_height target)) (drop 4 header))
          (\<lambda>target1.
            if count = 0 then Return target1
            else if count > rb_width target * rb_height target
              then Throw (DecodeError (TooManySubrects count (rb_width target) (rb_height target)))
            else
              (let nbytes = n + fst cs in
               Yield (int (nbytes * count)) (\<lambda>data.
                 checked (rre_subrects cs n data (py_range 0 (length data) nbytes) target1)
                   Return)))))"

section \<open>Cursor and control\<close>

definition cursor_decode_for_client ::
  "('z, 'm) client hooks \<Rightarrow> rect \<Rightarrow> pixel_format \<Rightarrow> (('z, 'm) client, unit) gen" where
  "cursor_decode_for_client hk r pf =
     (case r of (x, y, w, h) \<Rightarrow>
        let pixel_len = w * h * bypp pf; mask_len = (w + 7) div 8 * h
        in Yield (int (pixel_len + mask_len)) (\<lambda>block.
             call_client (updateCursor hk x y w h (take pixel_len block) (drop pixel_len block))
               (Return ())))"

definition desktop_size_control ::
  "('z, 'm) client hooks \<Rightarrow> nat \<Rightarrow> nat \<Rightarrow> nat \<Rightarrow> nat \<Rightarrow> ('z, 'm) client \<Rightarrow> exn + ('z, 'm) client" where
  "desktop_size_control hk x y w h = updateDesktopSize hk w h"

definition pointer_pos_control ::
  "('z, 'm) client hooks \<Rightarrow> nat \<Rightarrow> nat \<Rightarrow> nat \<Rightarrow> nat \<Rightarrow> ('z, 'm) client \<Rightarrow> exn + ('z, 'm) client" where
  "pointer_pos_control hk x y w h = updatePointerPos hk x y"

definition qemu_key_control ::
  "nat \<Rightarrow> nat \<Rightarrow> nat \<Rightarrow> nat \<Rightarrow> ('z, 'm) client \<Rightarrow> exn + ('z, 'm) client" where
  "qemu_key_control x y w h c =
     Inr (c\<lparr>st_negotiated := List.insert PSEUDO_QEMU_EXTENDED_KEY_EVENT (st_negotiated c)\<rparr>)"

section \<open>RRE paints by the painter's rule\<close>

text \<open>The subrectangles of a block as paints.\<close>

definition rre_paint :: "coords \<Rightarrow> nat \<Rightarrow> bytes \<Rightarrow> nat \<Rightarrow> paint" where
  "rre_paint cs n data pos =
     (case snd cs (pos + n) data of (x, y, w, h) \<Rightarrow>
        Fill (int x) (int y) (int w) (int h) (pslice pos (pos + n) data))"

lemma rre_subrects_paints:
  "rre_subrects cs n data ps t = Inr t' \<Longrightarrow> paints_to t (map (rre_paint cs n data) ps) t'"
proof (induction ps arbitrary: t)
  case Nil
  then show ?case by simp
next
  case (Cons p ps)
  then show ?case
    by (auto simp: rre_paint_def split: prod.splits sum.splits intro: paints_to_Fill)
qed

lemma rre_subrects_in_step:
  "in_step t1 t2 \<Longrightarrow> rre_subrects cs n data ps t1 = Inr t1' \<Longrightarrow>
     \<exists>t2'. rre_subrects cs n data ps t2 = Inr t2' \<and> in_step t1' t2'"
proof (induction ps arbitrary: t1 t2)
  case Nil
  then show ?case by auto
next
  case (Cons p ps)
  obtain x y w h where xy: "snd cs (p + n) data = (x, y, w, h)" by (cases "snd cs (p + n) data")
  obtain u1 where u1: "fill t1 (int x) (int y) (int w) (int h) (pslice p (p + n) data) = Inr u1"
    "rre_subrects cs n data ps u1 = Inr t1'"
    using Cons.prems(2) by (auto simp: xy split: sum.splits)
  from fill_in_step [OF Cons.prems(1) u1(1)] Cons.IH u1(2) xy show ?case by fastforce
qed

text \<open>What a finished run read and did.\<close>

lemma rre_pixels_finished:
  assumes "drive (rre_pixels cs t pf) bs c = Finished t' rest c'"
  shows "\<exists>header data u. bs = header @ data @ rest \<and> c' = c \<and>
    length header = 4 + rb_bypp t \<and>
    be_val (take 4 header) \<le> rb_width t * rb_height t \<and>
    length data = (rb_bypp t + fst cs) * be_val (take 4 header) \<and>
    fill t 0 0 (int (rb_width t)) (int (rb_height t)) (drop 4 header) = Inr u \<and>
    rre_subrects cs (rb_bypp t) data
      (py_range 0 (length data) (rb_bypp t + fst cs)) u = Inr t'"
proof -
  let ?n = "rb_bypp t" let ?h = "take (4 + ?n) bs" let ?count = "be_val (take 4 ?h)"
  have len: "4 + ?n \<le> length bs"
    using assms by (auto simp: rre_pixels_def Let_def nat_add_distrib split: if_splits)
  obtain u where u: "fill t 0 0 (int (rb_width t)) (int (rb_height t)) (drop 4 ?h) = Inr u"
    using assms len
    by (auto simp: rre_pixels_def Let_def nat_add_distrib split: if_splits sum.splits)
  show ?thesis
  proof (cases "?count = 0")
    case True
    then have "t' = u" "rest = drop (4 + ?n) bs" "c' = c"
      using assms len u
      by (auto simp: rre_pixels_def Let_def nat_add_distrib split: if_splits sum.splits)
    then show ?thesis
      using True u len
      by - (rule exI [of _ ?h], rule exI [of _ "[]"], rule exI [of _ u], simp)
  next
    case False
    let ?m = "(?n + fst cs) * ?count" let ?bs = "drop (4 + ?n) bs"
    have "drive (Yield (int ?m) (\<lambda>data. checked
        (rre_subrects cs ?n data (py_range 0 (length data) (?n + fst cs)) u) Return)) ?bs c
        = Finished t' rest c'" and le: "?count \<le> rb_width t * rb_height t"
      using assms len u False
      by (auto simp: rre_pixels_def Let_def nat_add_distrib split: if_splits sum.splits)
    then have m: "?m \<le> length ?bs" and r: "rest = drop ?m ?bs" and "c' = c"
      and "rre_subrects cs ?n (take ?m ?bs) (py_range 0 ?m (?n + fst cs)) u = Inr t'"
      by (auto simp: min_def simp flip: of_nat_add of_nat_mult split: if_splits sum.splits)
    moreover have "bs = ?h @ take ?m ?bs @ rest"
      unfolding r by (simp only: append_take_drop_id)
    moreover have h: "length ?h = 4 + ?n" and l: "length (take ?m ?bs) = ?m"
      using len m by (simp_all add: min_def)
    ultimately show ?thesis
      using u le by (intro exI [of _ ?h] exI [of _ "take ?m ?bs"] exI [of _ u] conjI) simp_all
  qed
qed

lemma rre_lockstep:
  assumes st: "in_step t1 t2" and d: "drive (rre_pixels cs t1 pf) bs c = Finished t1' rest c'"
  shows "\<exists>t2'. drive (rre_pixels cs t2 pf) bs c2 = Finished t2' rest c2 \<and> in_step t1' t2'"
proof -
  have dims: "rb_bypp t2 = rb_bypp t1" "rb_width t2 = rb_width t1" "rb_height t2 = rb_height t1"
    using st by (simp_all add: in_step_def rb_dims_def)
  let ?k = "rb_bypp t1 + fst cs"
  from rre_pixels_finished [OF d] obtain h data u where bs: "bs = h @ data @ rest"
    and lh: "length h = 4 + rb_bypp t1"
    and le: "be_val (take 4 h) \<le> rb_width t1 * rb_height t1"
    and ld: "length data = ?k * be_val (take 4 h)"
    and f: "fill t1 0 0 (int (rb_width t1)) (int (rb_height t1)) (drop 4 h) = Inr u"
    and s: "rre_subrects cs (rb_bypp t1) data (py_range 0 (length data) ?k) u = Inr t1'"
    by blast
  from fill_in_step [OF st f] obtain u2 where
    f2: "fill t2 0 0 (int (rb_width t1)) (int (rb_height t1)) (drop 4 h) = Inr u2"
    and st2: "in_step u u2" by blast
  from rre_subrects_in_step [OF st2 s] obtain t2' where
    s2: "rre_subrects cs (rb_bypp t1) data (py_range 0 (length data) ?k) u2 = Inr t2'"
    and st': "in_step t1' t2'" by blast
  have "drive (rre_pixels cs t2 pf) bs c2 = Finished t2' rest c2"
  proof (cases "be_val (take 4 h) = 0")
    case True
    then have "data = []" "t2' = u2" using ld s2 by auto
    then show ?thesis
      using True lh f2 by (simp add: rre_pixels_def Let_def dims bs nat_add_distrib)
  next
    case False
    have "length data = ?k * be_val (take 4 h)" by (rule ld)
    then show ?thesis
      using False lh le f2 s2
      by (simp add: rre_pixels_def Let_def dims bs nat_add_distrib flip: of_nat_add of_nat_mult)
  qed
  with st' show ?thesis by blast
qed

text \<open>The background, then the subrectangles in the order of the stream.\<close>

definition rre_paints :: "coords \<Rightarrow> nat \<Rightarrow> nat \<Rightarrow> nat \<Rightarrow> bytes \<Rightarrow> paint list" where
  "rre_paints cs W H n bs =
     Fill 0 0 (int W) (int H) (pslice 4 (4 + n) bs) #
     (let k = n + fst cs; count = u32_at 0 bs; data = take (k * count) (drop (4 + n) bs)
      in map (\<lambda>m. rre_paint cs n data (m * k)) [0..<count])"

lemma covering_whole: "covering W H (Fill 0 0 (int W) (int H) colour # ps)"
  by (auto simp: covering_def in_rect_def)

lemma rre_finished_paints:
  assumes d: "drive (rre_pixels cs t pf) bs c = Finished t' rest c'" and k: "0 < fst cs"
  shows "paints_to t (rre_paints cs (rb_width t) (rb_height t) (rb_bypp t) bs) t' \<and> c' = c"
proof -
  let ?n = "rb_bypp t" let ?k = "?n + fst cs"
  from rre_pixels_finished [OF d] obtain h data u where bs: "bs = h @ data @ rest"
    and lh: "length h = 4 + ?n" and c': "c' = c"
    and ld: "length data = ?k * be_val (take 4 h)"
    and f: "fill t 0 0 (int (rb_width t)) (int (rb_height t)) (drop 4 h) = Inr u"
    and s: "rre_subrects cs ?n data (py_range 0 (length data) ?k) u = Inr t'"
    by blast
  have "take (4 + ?n) bs = h" using lh by (simp add: bs)
  then have hd: "pslice 4 (4 + ?n) bs = drop 4 h" "be_val (pslice 0 4 bs) = be_val (take 4 h)"
    using lh by (auto simp: bs pslice_def)
  have dt: "take (?k * be_val (take 4 h)) (drop (4 + ?n) bs) = data"
    using lh ld by (simp add: bs)
  have "py_range 0 (length data) ?k = map (\<lambda>m. m * ?k) [0..<be_val (take 4 h)]"
    unfolding ld using k by (intro py_range_multiple) simp
  with rre_subrects_paints [OF s] have
    "paints_to u (map (\<lambda>m. rre_paint cs ?n data (m * ?k)) [0..<be_val (take 4 h)]) t'"
    by (simp add: comp_def)
  with f c' show ?thesis
    by (simp add: rre_paints_def Let_def hd dt paints_to_Fill)
qed

lemma rre_decoder: "0 < fst cs \<Longrightarrow> pixel_decoder (rre_pixels cs)"
proof (unfold_locales, goal_cases)
  case (1 t1 t2 pf bs c t1' rest c' store)
  let ?ps = "rre_paints cs (rb_width t1) (rb_height t1) (rb_bypp t1) bs"
  have dims: "rb_bypp t2 = rb_bypp t1" "rb_width t2 = rb_width t1" "rb_height t2 = rb_height t1"
    using 1(2) by (simp_all add: in_step_def rb_dims_def)
  from rre_lockstep [OF 1(2,3), of "c\<lparr>st_rect_backing := store\<rparr>"] obtain t2' where
    d2: "drive (rre_pixels cs t2 pf) bs (c\<lparr>st_rect_backing := store\<rparr>)
      = Finished t2' rest (c\<lparr>st_rect_backing := store\<rparr>)" by blast
  from rre_finished_paints [OF 1(3,1)] rre_finished_paints [OF d2 1(1)]
  have p: "paints_to t1 ?ps t1'" "paints_to t2 ?ps t2'" "c' = c" by (simp_all add: dims)
  have cov: "covering (rb_width t1) (rb_height t1) ?ps"
    by (simp add: rre_paints_def covering_whole)
  have same: "c' = c\<lparr>st_zrle := st_zrle c'\<rparr>" "c'\<lparr>st_rect_backing := store\<rparr> = c\<lparr>st_rect_backing := store\<rparr>"
    using p(3) by simp_all
  show ?case
    unfolding same(2) using p(1,2) cov same(1) d2 by blast
qed

interpretation rre: pixel_decoder "rre_pixels rre_coords"
  by (rule rre_decoder) (simp add: rre_coords_def)

interpretation corre: pixel_decoder "rre_pixels corre_coords"
  by (rule rre_decoder) (simp add: corre_coords_def)

section \<open>Properties\<close>

lemma rre_pixels_length:
  assumes "drive (rre_pixels cs t pf) bs c = Finished t' rest c'"
  shows "\<exists>used. bs = used @ rest \<and>
    length used = 4 + rb_bypp t + (rb_bypp t + fst cs) * u32_at 0 bs \<and>
    u32_at 0 bs \<le> rb_width t * rb_height t"
proof -
  from rre_pixels_finished [OF assms] obtain h data where bs: "bs = h @ data @ rest"
    and lh: "length h = 4 + rb_bypp t"
    and le: "be_val (take 4 h) \<le> rb_width t * rb_height t"
    and ld: "length data = (rb_bypp t + fst cs) * be_val (take 4 h)"
    by blast
  have "u32_at 0 bs = be_val (take 4 h)" using lh by (simp add: bs pslice_def)
  then show ?thesis
    using le ld lh by (intro exI [of _ "h @ data"]) (simp add: bs)
qed

text \<open>
  C36: an RRE rectangle is painted by the painter's rule. Whatever the reused store held, a finished
  run consumed exactly the header and the declared subrectangles, no subrectangle leaves the
  rectangle, and each pixel is the colour of the last subrectangle of the stream that covers it, or
  the background.
\<close>

theorem rre_painters_rule:
  assumes b: "rect_buffer_init w h n (Some store) = Inr t"
    and d: "drive (rre_pixels rre_coords t pf) bs c = Finished t' rest c'"
    and ij: "i < w" "j < h"
  shows "pixel_of w n (tobytes t') i j
      = pixel_after n i j (rre_paints rre_coords w h n bs) (replicate n 0) \<and>
    list_all (paint_inside w h) (rre_paints rre_coords w h n bs) \<and>
    (\<exists>used. bs = used @ rest \<and> length used = 4 + n + (n + 8) * u32_at 0 bs) \<and>
    length (tobytes t') = w * h * n \<and> c' = c"
proof -
  let ?ps = "rre_paints rre_coords w h n bs"
  have dims: "rb_width t = w" "rb_height t = h" "rb_bypp t = n"
    using rect_buffer_init_dims [OF b] by (simp_all add: rb_dims_def)
  have p: "paints_to t ?ps t'" "c' = c"
    using rre_finished_paints [OF d] by (simp_all add: rre_coords_def dims)
  have ne: "?ps \<noteq> []" by (simp add: rre_paints_def)
  have "list_all (paint_inside w h) ?ps"
    using paints_to_inside [OF rect_buffer_init_inv [OF b] p(1)] by (simp add: list_all_iff dims)
  moreover have "\<exists>used. bs = used @ rest \<and> length used = 4 + n + (n + 8) * u32_at 0 bs"
    using rre_pixels_length [OF d] by (auto simp: rre_coords_def dims)
  ultimately show ?thesis
    using rect_buffer_pixels [OF b p(1) [unfolded paints_to_def] ne ij] p(2) by blast
qed

lemma rre_painters_rule_witness:
  "\<exists>t t'. rect_buffer_init 2 1 1 (Some [9, 9]) = Inr t \<and>
     drive (rre_pixels rre_coords t TPIXEL_FORMAT)
       [0, 0, 0, 1, 5, 7, 0, 1, 0, 0, 0, 1, 0, 1, 42] () = Finished t' [42] () \<and>
     pixel_of 2 1 (tobytes t') 0 0 = [5] \<and> pixel_of 2 1 (tobytes t') 1 0 = [7]"
proof -
  let ?bs = "[0, 0, 0, 1, 5, 7, 0, 1, 0, 0, 0, 1, 0, 1, 42] :: bytes"
  define t where "t = \<lparr>rb_width = 2, rb_height = 1, rb_bypp = 1, rb_backing = [9, 9 :: byte],
    rb_nbytes = 2, rb_whole = None, rb_covered = False\<rparr>"
  have b: "rect_buffer_init 2 1 1 (Some [9, 9]) = Inr t"
    by (simp add: rect_buffer_init_def t_def)
  have "\<exists>t'. drive (rre_pixels rre_coords t TPIXEL_FORMAT) ?bs () = Finished t' [42] ()"
    by (simp add: t_def rre_pixels_def rre_coords_def Let_def fill_def check_bounds_def is_whole_def
        materialize_def clear_def py_range_def pslice_def be_val_def)
  then obtain t' where d: "drive (rre_pixels rre_coords t TPIXEL_FORMAT) ?bs () = Finished t' [42] ()"
    by blast
  from rre_painters_rule [OF b d, of 0 0] rre_painters_rule [OF b d, of 1 0] b d
  show ?thesis
    by (simp add: rre_paints_def rre_paint_def rre_coords_def Let_def in_rect_def pslice_def
        be_val_def)
qed

text \<open>
  A copy never reads outside the framebuffer. On every rectangle and every source position the
  decoder either calls \<open>copyRectangle\<close> once, with a source that lies inside the framebuffer, or
  raises before the client is called at all.
\<close>

theorem copyrect_source_inside:
  "drive (client_decode (copyrect_decode_for_client hk) (x, y, w, h) pf)
      (be_bytes 2 srcx @ be_bytes 2 srcy @ rest) c
    = (let sx = srcx mod 65536; sy = srcy mod 65536
       in if sx + w \<le> st_width c \<and> sy + h \<le> st_height c
          then (case copyRectangle hk sx sy x y w h c of
                  Inl e \<Rightarrow> Failed e c | Inr c' \<Rightarrow> Finished CHANGED rest c')
          else Failed (DecodeError (CopySourceOutside sx sy w h (st_width c) (st_height c))) c)"
proof -
  have "pslice 0 (Suc (Suc 0)) (be_bytes 2 srcx @ be_bytes 2 srcy) = be_bytes 2 srcx"
    "pslice 2 4 (be_bytes 2 srcx @ be_bytes 2 srcy) = be_bytes 2 srcy"
    by (simp_all add: pslice_def)
  moreover have "take 4 (be_bytes 2 srcx @ be_bytes 2 srcy @ rest) = be_bytes 2 srcx @ be_bytes 2 srcy"
    "drop 4 (be_bytes 2 srcx @ be_bytes 2 srcy @ rest) = rest"
    by simp_all
  ultimately show ?thesis
    by (auto simp: client_decode_def copyrect_decode_for_client_def Let_def be_val_be_bytes_mod
        split: sum.splits)
qed

text \<open>
  The Cursor decoder hands the client an image of exactly \<open>width * height\<close> pixels and a mask whose
  rows are whole bytes, and consumes nothing else of the stream.
\<close>

theorem cursor_image_and_mask:
  "\<lbrakk>length img = w * h * bypp pf; length msk = (w + 7) div 8 * h\<rbrakk> \<Longrightarrow>
     drive (client_decode (cursor_decode_for_client hk) (x, y, w, h) pf) (img @ msk @ rest) c
       = (case updateCursor hk x y w h img msk c of
            Inl e \<Rightarrow> Failed e c | Inr c' \<Rightarrow> Finished CHANGED rest c')"
  by (auto simp: client_decode_def cursor_decode_for_client_def Let_def
      simp flip: of_nat_mult of_nat_add split: sum.splits)

lemma cursor_image_and_mask_witness:
  "\<forall>ex. drive (client_decode (cursor_decode_for_client (base_hooks Inr)) (0, 0, 1, 2) TPIXEL_FORMAT)
     ([1, 2, 3, 4, 5, 6] @ [128, 128] @ [9]) (rfb_init ex)
   = Finished CHANGED [9] (rfb_init ex)"
  by (intro allI, subst cursor_image_and_mask) (simp_all add: base_hooks_def TPIXEL_FORMAT_def bypp_def)

end
