(* ===== verification/Hextile.thy ===== *)
theory Hextile
  imports Decoding
begin

text \<open>
  \<open>vncdotool/decoders/hextile.py\<close>.  The rectangle is walked in tiles of 16x16; background and
  foreground are carried from tile to tile as byte strings, empty when none is set.  Shown: a
  finished run paints tile by tile, the first paint of each tile covers it and none leaves it, so a
  pixel is decided by its own tile; and the background and foreground a tile leaves behind are those
  the RFC describes.
\<close>

section \<open>The decoder\<close>

abbreviation (input) RAW_BIT :: byte where "RAW_BIT \<equiv> 1"
abbreviation (input) BACKGROUND_BIT :: byte where "BACKGROUND_BIT \<equiv> 2"
abbreviation (input) FOREGROUND_BIT :: byte where "FOREGROUND_BIT \<equiv> 4"
abbreviation (input) SUBRECTS_BIT :: byte where "SUBRECTS_BIT \<equiv> 8"
abbreviation (input) COLOURED_BIT :: byte where "COLOURED_BIT \<equiv> 16"

definition has_bit :: "byte \<Rightarrow> byte \<Rightarrow> bool" where
  "has_bit subencoding b \<longleftrightarrow> subencoding AND b \<noteq> 0"

type_synonym tile = "nat \<times> nat \<times> nat \<times> nat"

text \<open>One pass of \<open>for offset in range(0, len(data), size)\<close>.\<close>

definition hextile_subrect ::
  "nat \<Rightarrow> tile \<Rightarrow> bool \<Rightarrow> bytes \<Rightarrow> bytes \<Rightarrow> nat \<Rightarrow> rect_buffer \<Rightarrow> exn + rect_buffer" where
  "hextile_subrect n t coloured foreground data offset target =
     (let (tx, ty, tw, th) = t;
          (colour, o1) = (if coloured then (pslice offset (offset + n) data, offset + n)
                          else (foreground, offset));
          xy = data ! o1; wh = data ! (o1 + 1);
          sx = unat (drop_bit 4 xy); sy = unat (xy AND 0xF);
          sw = unat (drop_bit 4 wh) + 1; sh = unat (wh AND 0xF) + 1
      in if sx + sw > tw \<or> sy + sh > th
         then Inl (DecodeError (SubrectOverflowsTile sx sy sw sh tw th))
         else fill target (int (tx + sx)) (int (ty + sy)) (int sw) (int sh) colour)"

fun hextile_subrects ::
  "nat \<Rightarrow> tile \<Rightarrow> bool \<Rightarrow> bytes \<Rightarrow> bytes \<Rightarrow> nat list \<Rightarrow> rect_buffer \<Rightarrow> exn + rect_buffer" where
  "hextile_subrects n t coloured foreground data [] target = Inr target"
| "hextile_subrects n t coloured foreground data (offset # os) target =
     (case hextile_subrect n t coloured foreground data offset target of
        Inl e \<Rightarrow> Inl e
      | Inr target' \<Rightarrow> hextile_subrects n t coloured foreground data os target')"

text \<open>The tile once it has been filled with its background: the subrectangles, from \<open>pos\<close> on.\<close>

definition hextile_foreground ::
  "nat \<Rightarrow> tile \<Rightarrow> byte \<Rightarrow> bytes \<Rightarrow> bytes \<Rightarrow> nat \<Rightarrow> bytes \<Rightarrow> rect_buffer \<Rightarrow>
     ('c, bytes \<times> bytes \<times> rect_buffer) gen" where
  "hextile_foreground n t sub background foreground pos block target =
     (if \<not> has_bit sub SUBRECTS_BIT then Return (background, foreground, target)
      else
        (let (tx, ty, tw, th) = t; count = unat (block ! pos); coloured = has_bit sub COLOURED_BIT
         in if count \<noteq> 0 \<and> \<not> coloured \<and> foreground = []
            then Throw (DecodeError (NoForeground tx ty))
            else
              (let size = (if coloured then n + 2 else 2)
               in Yield (int (size * count)) (\<lambda>data.
                    checked (hextile_subrects n t coloured foreground data
                        (py_range 0 (length data) size) target)
                      (\<lambda>target'. Return (background, if coloured then [] else foreground, target'))))))"

text \<open>The tile once its \<open>block\<close> has been read.\<close>

definition hextile_body ::
  "nat \<Rightarrow> tile \<Rightarrow> byte \<Rightarrow> bytes \<Rightarrow> bytes \<Rightarrow> bytes \<Rightarrow> rect_buffer \<Rightarrow>
     ('c, bytes \<times> bytes \<times> rect_buffer) gen" where
  "hextile_body n t sub background foreground block target =
     (let (tx, ty, tw, th) = t;
          (bg, pos) = (if has_bit sub BACKGROUND_BIT then (take n block, n) else (background, 0))
      in if bg = [] then Throw (DecodeError (NoBackground tx ty))
         else checked (fill target (int tx) (int ty) (int tw) (int th) bg) (\<lambda>target1.
           let (fg, pos1) = (if has_bit sub FOREGROUND_BIT
                             then (pslice pos (pos + n) block, pos + n) else (foreground, pos))
           in hextile_foreground n t sub bg fg pos1 block target1))"

definition hextile_tile ::
  "nat \<Rightarrow> tile \<Rightarrow> bytes \<Rightarrow> bytes \<Rightarrow> rect_buffer \<Rightarrow> ('c, bytes \<times> bytes \<times> rect_buffer) gen" where
  "hextile_tile n t background foreground target =
     (let (tx, ty, tw, th) = t
      in Yield 1 (\<lambda>b.
           let sub = b ! 0
           in if has_bit sub RAW_BIT
              then Yield (int (tw * th * n)) (\<lambda>pixels.
                     checked (blit target (int tx) (int ty) (int tw) (int th) pixels)
                       (\<lambda>target'. Return ([], [], target')))
              else
                (let wanted = (if has_bit sub BACKGROUND_BIT then n else 0)
                            + (if has_bit sub FOREGROUND_BIT then n else 0)
                            + (if has_bit sub SUBRECTS_BIT then 1 else 0)
                 in if wanted = 0 then hextile_body n t sub background foreground [] target
                    else Yield (int wanted)
                           (\<lambda>block. hextile_body n t sub background foreground block target))))"

fun hextile_tiles ::
  "nat \<Rightarrow> tile list \<Rightarrow> bytes \<Rightarrow> bytes \<Rightarrow> rect_buffer \<Rightarrow> ('c, rect_buffer) gen" where
  "hextile_tiles n [] background foreground target = Return target"
| "hextile_tiles n (t # ts) background foreground target =
     yield_from (hextile_tile n t background foreground target)
       (\<lambda>(bg, fg, target'). hextile_tiles n ts bg fg target')"

definition hextile_pixels :: "rect_buffer \<Rightarrow> pixel_format \<Rightarrow> ('c, rect_buffer) gen" where
  "hextile_pixels target pf =
     hextile_tiles (rb_bypp target) (tiles 16 (rb_width target) (rb_height target)) [] [] target"

section \<open>Painting tile by tile\<close>

lemma hextile_subrect_pair:
  assumes st: "in_step t1 t2" and ok: "hextile_subrect n t col fg data off t1 = Inr u1"
  shows "\<exists>u2. hextile_subrect n t col fg data off t2 = Inr u2 \<and>
    painted_pair t1 t2 (list_all (within_tile t)) u1 u2"
proof -
  obtain tx ty tw th where t: "t = (tx, ty, tw, th)" by (cases t)
  let ?o = "if col then off + n else off" and ?c = "if col then pslice off (off + n) data else fg"
  let ?sx = "unat (drop_bit 4 (data ! ?o))" and ?sy = "unat (data ! ?o AND 0xF)"
  let ?sw = "unat (drop_bit 4 (data ! (?o + 1))) + 1" and ?sh = "unat (data ! (?o + 1) AND 0xF) + 1"
  have sub: "hextile_subrect n t col fg data off u =
    (if ?sx + ?sw > tw \<or> ?sy + ?sh > th then Inl (DecodeError (SubrectOverflowsTile ?sx ?sy ?sw ?sh tw th))
     else fill u (int (tx + ?sx)) (int (ty + ?sy)) (int ?sw) (int ?sh) ?c)" for u
    by (simp add: hextile_subrect_def t Let_def)
  have fits: "?sx + ?sw \<le> tw" "?sy + ?sh \<le> th"
    and f: "fill t1 (int (tx + ?sx)) (int (ty + ?sy)) (int ?sw) (int ?sh) ?c = Inr u1"
    using ok unfolding sub by (simp_all split: if_splits)
  have "list_all (within_tile t) [Fill (int (tx + ?sx)) (int (ty + ?sy)) (int ?sw) (int ?sh) ?c]"
    using within_tile_Fill [OF fits] by (simp add: t)
  from painted_pair_fill [where Q = "list_all (within_tile t)", OF st f this] fits show ?thesis unfolding sub by auto
qed

lemma hextile_subrects_pair:
  "in_step t1 t2 \<Longrightarrow> hextile_subrects n t col fg data os t1 = Inr u1 \<Longrightarrow>
     \<exists>u2. hextile_subrects n t col fg data os t2 = Inr u2 \<and>
       painted_pair t1 t2 (list_all (within_tile t)) u1 u2"
proof (induction os arbitrary: t1 t2)
  case Nil
  then show ?case by (auto simp: painted_pair_def intro: exI [of _ "[]"])
next
  case (Cons off os)
  obtain v1 where v1: "hextile_subrect n t col fg data off t1 = Inr v1"
    and r: "hextile_subrects n t col fg data os v1 = Inr u1"
    using Cons.prems(2) by (auto split: sum.splits)
  from hextile_subrect_pair [OF Cons.prems(1) v1] obtain v2 where
    v2: "hextile_subrect n t col fg data off t2 = Inr v2"
    "painted_pair t1 t2 (list_all (within_tile t)) v1 v2" by blast
  then have "in_step v1 v2" by (simp add: painted_pair_def)
  from Cons.IH [OF this r] obtain u2 where
    "hextile_subrects n t col fg data os v2 = Inr u2"
    "painted_pair v1 v2 (list_all (within_tile t)) u1 u2" by blast
  then show ?case
    using v2 painted_pair_trans [OF v2(2), of "list_all (within_tile t)" u1 u2] by simp
qed

text \<open>What one tile leaves: the same background and foreground on both sides, its paints.\<close>

definition tile_done ::
  "tile \<Rightarrow> rect_buffer \<Rightarrow> rect_buffer \<Rightarrow> bytes \<times> bytes \<times> rect_buffer \<Rightarrow>
     bytes \<times> bytes \<times> rect_buffer \<Rightarrow> bool" where
  "tile_done t t1 t2 r1 r2 \<longleftrightarrow>
     (case (r1, r2) of ((bg1, fg1, u1), (bg2, fg2, u2)) \<Rightarrow>
        bg1 = bg2 \<and> fg1 = fg2 \<and> painted_pair t1 t2 (tile_paints t) u1 u2)"

lemma lock_hextile_foreground:
  assumes pp: "painted_pair t1 t2 (tile_paints t) u1 u2"
  shows "lock (hextile_foreground n t sub bg fg pos block u1)
    (hextile_foreground n t sub bg fg pos block u2) (tile_done t t1 t2)"
proof -
  have su: "in_step u1 u2" using pp by (simp add: painted_pair_def)
  have subrects: "\<exists>v2. hextile_subrects n t col fg data os u2 = Inr v2 \<and>
      lock (Return (bg, f, v1)) (Return (bg, f, v2)) (tile_done t t1 t2)"
    if "hextile_subrects n t col fg data os u1 = Inr v1" for col data os v1 f
  proof -
    from hextile_subrects_pair [OF su that] obtain v2 where
      v2: "hextile_subrects n t col fg data os u2 = Inr v2"
      and pv: "painted_pair u1 u2 (list_all (within_tile t)) v1 v2" by blast
    have "painted_pair t1 t2 (tile_paints t) v1 v2"
      by (rule painted_pair_trans [OF pp pv]) (rule tile_paints_append)
    then have "lock (Return (bg, f, v1)) (Return (bg, f, v2)) (tile_done t t1 t2)"
      by (intro lock_Return) (simp add: tile_done_def)
    with v2 show ?thesis by blast
  qed
  have same: "tile_done t t1 t2 (bg, fg, u1) (bg, fg, u2)" using pp by (simp add: tile_done_def)
  show ?thesis
    unfolding hextile_foreground_def Let_def split_def
    by (intro lock_if lock_Throw lock_Yield lock_checked lock_Return same subrects) assumption
qed

lemma lock_hextile_body:
  assumes st: "in_step t1 t2"
  shows "lock (hextile_body n t sub bg fg block t1) (hextile_body n t sub bg fg block t2)
    (tile_done t t1 t2)"
proof -
  obtain tx ty tw th where t: "t = (tx, ty, tw, th)" by (cases t)
  let ?bg = "if has_bit sub BACKGROUND_BIT then take n block else bg"
  let ?pos = "if has_bit sub BACKGROUND_BIT then n else 0"
  let ?fg = "if has_bit sub FOREGROUND_BIT then pslice ?pos (?pos + n) block else fg"
  let ?pos1 = "if has_bit sub FOREGROUND_BIT then ?pos + n else ?pos"
  have body: "hextile_body n t sub bg fg block u =
    (if ?bg = [] then Throw (DecodeError (NoBackground tx ty))
     else checked (fill u (int tx) (int ty) (int tw) (int th) ?bg)
       (hextile_foreground n t sub ?bg ?fg ?pos1 block))" for u
    by (cases "has_bit sub BACKGROUND_BIT"; cases "has_bit sub FOREGROUND_BIT")
      (simp_all add: hextile_body_def t)
  have "\<exists>u2. fill t2 (int tx) (int ty) (int tw) (int th) c = Inr u2 \<and>
      lock (hextile_foreground n t sub c f p block u1)
        (hextile_foreground n t sub c f p block u2) (tile_done t t1 t2)"
    if f: "fill t1 (int tx) (int ty) (int tw) (int th) c = Inr u1" for c f p u1
  proof -
    have "tile_paints t [Fill (int tx) (int ty) (int tw) (int th) c]"
      unfolding t by (rule tile_paints_whole)
    from painted_pair_fill [where Q = "tile_paints t", OF st f this]
    show ?thesis using lock_hextile_foreground by blast
  qed
  then show ?thesis
    unfolding body by (intro lock_if lock_Throw lock_checked)
qed

lemma lock_hextile_tile:
  assumes st: "in_step t1 t2"
  shows "lock (hextile_tile n t bg fg t1) (hextile_tile n t bg fg t2) (tile_done t t1 t2)"
proof -
  obtain tx ty tw th where t: "t = (tx, ty, tw, th)" by (cases t)
  have "\<exists>u2. blit t2 (int tx) (int ty) (int tw) (int th) p = Inr u2 \<and>
      lock (Return ([], [], u1)) (Return ([], [], u2)) (tile_done t t1 t2)"
    if f: "blit t1 (int tx) (int ty) (int tw) (int th) p = Inr u1" for p u1
  proof -
    have "tile_paints t [Blit (int tx) (int ty) (int tw) (int th) p]"
      unfolding t by (rule tile_paints_whole)
    from painted_pair_blit [where Q = "tile_paints t", OF st f this] obtain u2 where
      "blit t2 (int tx) (int ty) (int tw) (int th) p = Inr u2"
      "painted_pair t1 t2 (tile_paints t) u1 u2" by blast
    then show ?thesis by (auto intro!: lock_Return simp: tile_done_def)
  qed
  note raw = this
  show ?thesis
    unfolding hextile_tile_def t Let_def prod.case
    by (intro lock_Yield lock_if lock_checked raw lock_hextile_body [OF st, unfolded t]
        raw [unfolded t]) assumption
qed

lemma lock_hextile_tiles:
  "in_step t1 t2 \<Longrightarrow> lock (hextile_tiles n ts bg fg t1) (hextile_tiles n ts bg fg t2)
     (painted_pair t1 t2 (\<lambda>ps. \<exists>pss. ps = concat pss \<and> tiles_paints ts pss))"
proof (induction ts arbitrary: bg fg t1 t2)
  case Nil
  then show ?case
    by (auto intro!: lock_Return exI [of _ "[]"] simp: painted_pair_def)
next
  case (Cons t ts)
  let ?Q = "\<lambda>ts ps. \<exists>pss. ps = concat pss \<and> tiles_paints ts pss"
  show ?case
    unfolding hextile_tiles.simps
  proof (rule lock_yield_from [OF lock_hextile_tile [OF Cons.prems]], goal_cases)
    case (1 r1 r2)
    then obtain bg fg u1 u2 where r1: "r1 = (bg, fg, u1)" and r2: "r2 = (bg, fg, u2)"
      and pp: "painted_pair t1 t2 (tile_paints t) u1 u2"
      by (cases r1, cases r2) (auto simp: tile_done_def)
    then have "in_step u1 u2" by (simp add: painted_pair_def)
    from Cons.IH [OF this, of bg fg] show ?case
      unfolding r1 r2 prod.case
    proof (rule lock_mono)
      fix v1 v2 assume "painted_pair u1 u2 (?Q ts) v1 v2"
      then show "painted_pair t1 t2 (?Q (t # ts)) v1 v2"
      proof (rule painted_pair_trans [OF pp])
        fix ps qs assume "tile_paints t ps" "?Q ts qs"
        then obtain pss where "tile_paints t ps" "qs = concat pss" "tiles_paints ts pss" by blast
        then show "?Q (t # ts) (ps @ qs)" by (intro exI [of _ "ps # pss"]) simp
      qed
    qed
  qed
qed

interpretation hextile: pixel_decoder hextile_pixels
proof (unfold_locales, goal_cases)
  case (1 t1 t2 pf bs c t1' rest c' store)
  let ?ts = "tiles 16 (rb_width t1) (rb_height t1)"
  have dims: "rb_bypp t2 = rb_bypp t1" "rb_width t2 = rb_width t1" "rb_height t2 = rb_height t1"
    using 1(1) by (simp_all add: in_step_def rb_dims_def)
  have "lock (hextile_pixels t1 pf) (hextile_pixels t2 pf)
    (painted_pair t1 t2 (\<lambda>ps. \<exists>pss. ps = concat pss \<and> tiles_paints ?ts pss))"
    using lock_hextile_tiles [OF 1(1)] by (simp add: hextile_pixels_def dims)
  from lockD [OF this 1(2), of "c\<lparr>st_rect_backing := store\<rparr>"] obtain t2' where
    c': "c' = c" and d2: "drive (hextile_pixels t2 pf) bs (c\<lparr>st_rect_backing := store\<rparr>)
      = Finished t2' rest (c\<lparr>st_rect_backing := store\<rparr>)"
    and p: "painted_pair t1 t2 (\<lambda>ps. \<exists>pss. ps = concat pss \<and> tiles_paints ?ts pss) t1' t2'"
    by blast
  from p obtain pss where ps: "paints_to t1 (concat pss) t1'" "paints_to t2 (concat pss) t2'"
    "tiles_paints ?ts pss" by (auto simp: painted_pair_def)
  have "covering (rb_width t1) (rb_height t1) (concat pss)"
    using ps(3) by (rule tiles_paints_covering [rotated]) simp
  then show ?case using ps(1,2) d2 unfolding c' by auto
qed

section \<open>Properties\<close>



lemma pslice_take: "b \<le> m \<Longrightarrow> pslice a b (take m xs) = pslice a b xs"
  by (simp add: pslice_def drop_take min_def)

lemma hextile_foreground_carries:
  assumes "drive (hextile_foreground n t sub b f p block u) bs c = Finished (bg', fg', u') rest c'"
  shows "bg' = b \<and> fg' = (if has_bit sub SUBRECTS_BIT \<and> has_bit sub COLOURED_BIT then [] else f) \<and> c' = c"
  using assms
  by (auto simp: hextile_foreground_def Let_def split: prod.splits if_splits sum.splits)

lemma hextile_body_carries:
  assumes "drive (hextile_body n t sub bg fg block u) bs c = Finished (bg', fg', u') rest c'"
  shows "bg' = (if has_bit sub BACKGROUND_BIT then take n block else bg) \<and>
    fg' = (if has_bit sub SUBRECTS_BIT \<and> has_bit sub COLOURED_BIT then []
           else if has_bit sub FOREGROUND_BIT
             then (let p = if has_bit sub BACKGROUND_BIT then n else 0 in pslice p (p + n) block)
           else fg) \<and> c' = c"
  using assms
  by (cases "has_bit sub BACKGROUND_BIT"; cases "has_bit sub FOREGROUND_BIT")
    (auto simp: hextile_body_def Let_def dest!: hextile_foreground_carries
      split: prod.splits if_splits sum.splits)

text \<open>
  What a Hextile tile leaves for the next one. A raw tile forgets both colours; any other keeps
  the background it inherited unless it sets one, and keeps the foreground unless it sets one or
  colours its own subrectangles, after which there is none.
\<close>

theorem hextile_colours_carried:
  assumes "drive (hextile_tile n t bg fg u) (sub # bs) c = Finished (bg', fg', u') rest c'"
  shows "bg' = (if has_bit sub RAW_BIT then [] else if has_bit sub BACKGROUND_BIT then take n bs else bg) \<and>
    fg' = (if has_bit sub RAW_BIT then []
           else if has_bit sub SUBRECTS_BIT \<and> has_bit sub COLOURED_BIT then []
           else if has_bit sub FOREGROUND_BIT
             then (let p = if has_bit sub BACKGROUND_BIT then n else 0 in pslice p (p + n) bs)
           else fg) \<and> c' = c"
proof (cases "has_bit sub RAW_BIT")
  case True
  then show ?thesis
    using assms by (auto simp: hextile_tile_def split: prod.splits if_splits sum.splits)
next
  case False
  define m where "m = (if has_bit sub BACKGROUND_BIT then n else 0)
    + (if has_bit sub FOREGROUND_BIT then n else 0) + (if has_bit sub SUBRECTS_BIT then 1 else 0)"
  have "drive (hextile_body n t sub bg fg (take m bs) u) (drop m bs) c = Finished (bg', fg', u') rest c'"
    using assms False
    by (auto simp: hextile_tile_def drive_Yield_nat simp flip: m_def split: prod.splits if_splits)
  from hextile_body_carries [OF this] False show ?thesis
    by (auto simp: m_def pslice_take Let_def)
qed

lemma hextile_colours_carried_witness:
  "\<exists>u u'. rect_buffer_init 1 1 1 None = Inr u \<and>
     drive (hextile_tile 1 (0, 0, 1, 1) [] [] u) [6, 5, 8, 77] () = Finished ([5], [8], u') [77] ()"
proof -
  define u where "u = \<lparr>rb_width = 1, rb_height = 1, rb_bypp = 1, rb_backing = [0 :: byte],
    rb_nbytes = 1, rb_whole = None, rb_covered = False\<rparr>"
  have b: "rect_buffer_init 1 1 1 None = Inr u"
    by (simp add: rect_buffer_init_def u_def)
  have "\<exists>bg fg u'. drive (hextile_tile 1 (0, 0, 1, 1) [] [] u) [6, 5, 8, 77] () = Finished (bg, fg, u') [77] ()"
    by (simp add: u_def hextile_tile_def hextile_body_def hextile_foreground_def has_bit_def Let_def
        fill_def check_bounds_def is_whole_def materialize_def clear_def)
  then obtain bg fg u' where
    d: "drive (hextile_tile 1 (0, 0, 1, 1) [] [] u) [6, 5, 8, 77] () = Finished (bg, fg, u') [77] ()"
    by blast
  from hextile_colours_carried [OF d] have "bg = [5]" "fg = [8]"
    by (simp_all add: has_bit_def pslice_def Let_def)
  with b d show ?thesis by blast
qed

end
