(* ===== verification/Zrle.thy ===== *)
theory Zrle
  imports Decoding
begin

text \<open>
  \<open>vncdotool/decoders/zrle.py\<close>.  The decompressed chunk of a rectangle is a sequence of 64x64 tiles:
  raw, one colour, packed palette indices, or runs.  The position \<open>pos\<close> in \<open>data\<close> is modelled by
  the bytes that remain from it.  Shown: a run of the decoder paints each tile exactly once; compact
  pixels lose nothing of what the client will read out of a pixel; the 256-entry tables of packed
  indices are bit extraction; runs are read back as written; and a chunk is consumed to its end.
\<close>

section \<open>Compact pixels\<close>

text \<open>
  \<open>xs[a::k]\<close>, and \<open>xs[a::k] = ys\<close>, which Python allows only when the lengths agree (they do here, see
  \<open>stride_lengths_agree\<close>).
\<close>

definition stride :: "nat \<Rightarrow> nat \<Rightarrow> bytes \<Rightarrow> bytes" where
  "stride a k xs = map (\<lambda>m. xs ! (a + m * k)) [0..<(length xs - a + k - 1) div k]"

definition stride_assign :: "nat \<Rightarrow> nat \<Rightarrow> bytes \<Rightarrow> bytes \<Rightarrow> bytes" where
  "stride_assign a k ys xs =
     map (\<lambda>p. if a \<le> p \<and> (p - a) mod k = 0 then ys ! ((p - a) div k) else xs ! p) [0..<length xs]"

definition expand_cpixels :: "bytes \<Rightarrow> nat \<Rightarrow> nat \<Rightarrow> nat \<Rightarrow> nat \<Rightarrow> bytes" where
  "expand_cpixels raw count cbytes n coffset =
     (if cbytes = n then raw
      else fold (\<lambda>i out. stride_assign (coffset + i) n (stride i cbytes raw) out) [0..<cbytes]
             (replicate (count * n) 0))"

section \<open>Packed palettes\<close>

definition packed_indices :: "nat \<Rightarrow> byte \<Rightarrow> nat list" where
  "packed_indices bits b =
     map (\<lambda>slot. unat (drop_bit (8 - bits - slot * bits) b AND (2 ^ bits - 1))) [0..<8 div bits]"

definition index_tables :: "bytes list \<Rightarrow> nat \<Rightarrow> bytes list \<times> bytes list option" where
  "index_tables palette bits =
     (let colours = length palette;
          blank = replicate (length (palette ! 0)) 0;
          all_bytes = map word_of_nat [0..<256];
          expanded = map (\<lambda>b. concat (map (\<lambda>i. if i < colours then palette ! i else blank)
                                       (packed_indices bits b))) all_bytes;
          flags = map (\<lambda>b. map (\<lambda>i. if i \<ge> colours then 1 else 0) (packed_indices bits b)) all_bytes
      in (expanded, if colours = 2 ^ bits then None else Some flags))"

text \<open>The loop over the rows of a packed tile.\<close>

fun packed_rows ::
  "bytes list \<times> bytes list option \<Rightarrow> nat \<Rightarrow> nat \<Rightarrow> nat \<Rightarrow> nat \<Rightarrow> nat \<Rightarrow> bytes \<Rightarrow> exn + bytes list \<times> bytes" where
  "packed_rows tabs colours tw row_size stride_len 0 rem = Inr ([], rem)"
| "packed_rows tabs colours tw row_size stride_len (Suc th) rem =
     (let packed = take row_size rem; rem' = drop row_size rem
      in if (case snd tabs of None \<Rightarrow> False
             | Some undef \<Rightarrow> list_ex (\<lambda>f. f \<noteq> 0) (take tw (concat (map (\<lambda>b. undef ! unat b) packed))))
         then Inl (DecodeError (ZrlePackedIndex colours))
         else case packed_rows tabs colours tw row_size stride_len th rem' of
                Inl e \<Rightarrow> Inl e
              | Inr (rows, rem'') \<Rightarrow>
                  Inr (take stride_len (concat (map (\<lambda>b. fst tabs ! unat b) packed)) # rows, rem''))"

section \<open>Runs\<close>

text \<open>\<open>while part == 255\<close>: the run length grows by each further byte.\<close>

fun run_more :: "byte \<Rightarrow> nat \<Rightarrow> bytes \<Rightarrow> (nat \<times> bytes) option" where
  "run_more part acc rem =
     (if part \<noteq> 255 then Some (acc, rem)
      else case rem of [] \<Rightarrow> None | p # rem' \<Rightarrow> run_more p (acc + unat p) rem')"

declare run_more.simps [simp del]

text \<open>The pixel of one run, and whether it stands alone (no run length follows).\<close>

definition run_pixel ::
  "nat \<times> nat \<Rightarrow> nat \<times> nat \<times> nat \<Rightarrow> bytes list \<Rightarrow> bytes \<Rightarrow> exn + bytes \<times> bool \<times> bytes" where
  "run_pixel txy cp palette rem =
     (let (tx, ty) = txy; (cbytes, n, coffset) = cp
      in if palette = []
         then (if length rem < cbytes then Inl (DecodeError (ZrleShort tx ty))
               else Inr (expand_cpixels (take cbytes rem) 1 cbytes n coffset, False, drop cbytes rem))
         else (case rem of [] \<Rightarrow> Inl (DecodeError (ZrleShort tx ty))
               | index # rem' \<Rightarrow>
                   (let entry = unat (index AND 0x7F)
                    in if entry \<ge> length palette
                       then Inl (DecodeError (ZrlePaletteIndex entry (length palette)))
                       else Inr (palette ! entry, index AND 0x80 = 0, rem'))))"

lemma run_more_shorter: "run_more p a rem = Some (k, rem') \<Longrightarrow> length rem' \<le> length rem"
  by (induction p a rem rule: run_more.induct)
    (subst (asm) (2) run_more.simps, auto split: if_splits list.splits)

lemma run_pixel_shorter:
  "run_pixel txy cp palette rem = Inr (px, single, rem') \<Longrightarrow>
     length rem' \<le> length rem \<and> (single \<longrightarrow> length rem' < length rem)"
  by (auto simp: run_pixel_def Let_def split: prod.splits if_splits list.splits)

text \<open>The loop \<open>while num_pixels < pixels_in_tile\<close>.\<close>

function zrle_runs ::
  "nat \<times> nat \<Rightarrow> nat \<times> nat \<times> nat \<Rightarrow> bytes list \<Rightarrow> nat \<Rightarrow> nat \<Rightarrow> bytes \<Rightarrow> bytes \<Rightarrow>
     exn + nat \<times> bytes \<times> bytes" where
  "zrle_runs txy cp palette want num pixel_data rem =
     (if num \<ge> want then Inr (num, pixel_data, rem)
      else case run_pixel txy cp palette rem of
             Inl e \<Rightarrow> Inl e
           | Inr (pixel, single, rem1) \<Rightarrow>
               if single then zrle_runs txy cp palette want (num + 1) (pixel_data @ pixel) rem1
               else (case rem1 of
                       [] \<Rightarrow> Inl (DecodeError (ZrleShort (fst txy) (snd txy)))
                     | part # rem2 \<Rightarrow>
                         (case run_more part (unat part) rem2 of
                            None \<Rightarrow> Inl (DecodeError (ZrleShort (fst txy) (snd txy)))
                          | Some (run_minus_one, rem3) \<Rightarrow>
                              zrle_runs txy cp palette want (num + (run_minus_one + 1))
                                (pixel_data @ repeat_bytes (run_minus_one + 1) pixel) rem3)))"
  by pat_completeness auto
termination
proof (relation "measure (\<lambda>(txy, cp, palette, want, num, pixel_data, rem). length rem)", goal_cases)
  case 1
  then show ?case by simp
next
  case (2 txy cp palette want num pixel_data rem b a aa ba)
  then show ?case using run_pixel_shorter [of txy cp palette rem] by auto
next
  case (3 txy cp palette want num pixel_data rem b x y xa ya a list aa x2 xb)
  then show ?case using run_pixel_shorter [of txy cp palette rem] run_more_shorter by fastforce
qed

declare zrle_runs.simps [simp del]

section \<open>The decoder\<close>

definition palette_entries :: "bytes \<Rightarrow> nat \<Rightarrow> nat \<Rightarrow> bytes list" where
  "palette_entries flat n colours = map (\<lambda>i. pslice (i * n) ((i + 1) * n) flat) [0..<colours]"

text \<open>The part of the tile after the palette, by subencoding: what it paints and what is left.\<close>

definition zrle_tile_body ::
  "nat \<times> nat \<times> nat \<Rightarrow> nat \<times> nat \<times> nat \<times> nat \<Rightarrow> byte \<Rightarrow> bytes list \<Rightarrow> bytes \<Rightarrow> exn + paint \<times> bytes" where
  "zrle_tile_body cp t sub palette rem =
     (let (cbytes, n, coffset) = cp; (tx, ty, tw, th) = t;
          short = Inl (DecodeError (ZrleShort tx ty));
          at_tile = (\<lambda>px. Blit (int tx) (int ty) (int tw) (int th) px);
          colours = length palette; pixels_in_tile = tw * th
      in if sub AND 0x80 \<noteq> 0
         then (case zrle_runs (tx, ty) cp palette pixels_in_tile 0 [] rem of
                 Inl e \<Rightarrow> Inl e
               | Inr (num, pixel_data, rem') \<Rightarrow>
                   if num \<noteq> pixels_in_tile
                   then Inl (DecodeError (ZrleRunOverflows tx ty num pixels_in_tile))
                   else Inr (at_tile pixel_data, rem'))
         else if colours = 0
         then (let need = pixels_in_tile * cbytes
               in if length rem < need then short
                  else Inr (at_tile (expand_cpixels (take need rem) pixels_in_tile cbytes n coffset),
                            drop need rem))
         else if colours = 1 then Inr (Fill (int tx) (int ty) (int tw) (int th) (palette ! 0), rem)
         else
           (let bits = (if colours = 2 then 1 else if colours \<le> 4 then 2 else 4);
                per_byte = 8 div bits;
                row_size = (tw + per_byte - 1) div per_byte
            in if length rem < row_size * th then short
               else case packed_rows (index_tables palette bits) colours tw row_size (tw * n) th rem of
                      Inl e \<Rightarrow> Inl e
                    | Inr (rows, rem') \<Rightarrow> Inr (at_tile (concat rows), rem')))"

definition zrle_tile ::
  "nat \<times> nat \<times> nat \<Rightarrow> nat \<times> nat \<times> nat \<times> nat \<Rightarrow> bytes \<Rightarrow> exn + paint \<times> bytes" where
  "zrle_tile cp t rem =
     (let (cbytes, n, coffset) = cp; (tx, ty, tw, th) = t
      in case rem of [] \<Rightarrow> Inl (DecodeError (ZrleShort tx ty))
         | sub # rem1 \<Rightarrow>
             (let palette_size = unat (sub AND 127)
              in if sub AND 0x80 = 0 \<and> palette_size > 16
                 then Inl (DecodeError (ZrlePaletteSize palette_size))
                 else
                   (let need = palette_size * cbytes
                    in if length rem1 < need then Inl (DecodeError (ZrleShort tx ty))
                       else zrle_tile_body cp t sub
                              (palette_entries (expand_cpixels (take need rem1) palette_size cbytes n coffset)
                                 n palette_size) (drop need rem1))))"

fun zrle_tiles ::
  "nat \<times> nat \<times> nat \<Rightarrow> (nat \<times> nat \<times> nat \<times> nat) list \<Rightarrow> bytes \<Rightarrow> rect_buffer \<Rightarrow> exn + rect_buffer \<times> bytes" where
  "zrle_tiles cp [] rem target = Inr (target, rem)"
| "zrle_tiles cp (t # ts) rem target =
     (case zrle_tile cp t rem of
        Inl e \<Rightarrow> Inl e
      | Inr (p, rem') \<Rightarrow>
          (case run_paint fill blit target p of
             Inl e \<Rightarrow> Inl e
           | Inr target' \<Rightarrow> zrle_tiles cp ts rem' target'))"

definition zrle_pixels ::
  "'z externals \<Rightarrow> rect_buffer \<Rightarrow> pixel_format \<Rightarrow> (('z, 'm) client, rect_buffer) gen" where
  "zrle_pixels ex target pf =
     Yield 4 (\<lambda>length_block. Yield (int (be_val length_block)) (\<lambda>block.
       ReadClient (\<lambda>c. checked (zlib_decompress ex (st_zrle c) block 0) (\<lambda>(z, data, tail).
         WriteClient (c\<lparr>st_zrle := z\<rparr>)
           (checked (zrle_tiles (cpixel_bytes pf, rb_bypp target, cpixel_offset pf)
                (tiles 64 (rb_width target) (rb_height target)) data target)
              (\<lambda>(target', rem). if rem \<noteq> [] then Throw (DecodeError (ZrleUnconsumed (length rem)))
                               else Return target'))))))"

section \<open>Compact pixels lose nothing\<close>

lemma stride_lengths_agree:
  assumes "length raw = count * cb" "i < cb" "co + i < n"
  shows "length (stride i cb raw) = count \<and>
    (count * n - (co + i) + n - 1) div n = count"
proof -
  have "(count * cb - i + cb - 1) div cb = count"
    using assms(2) by (cases count) (auto intro!: div_nat_eqI simp: algebra_simps)
  moreover have "(count * n - (co + i) + n - 1) div n = count"
    using assms(3) by (cases count) (auto intro!: div_nat_eqI simp: algebra_simps)
  ultimately show ?thesis by (simp add: stride_def assms(1))
qed

lemma length_stride_assign [simp]: "length (stride_assign a k ys xs) = length xs"
  by (simp add: stride_assign_def)

lemma nth_stride_assign:
  "p < length xs \<Longrightarrow> stride_assign a k ys xs ! p =
     (if a \<le> p \<and> (p - a) mod k = 0 then ys ! ((p - a) div k) else xs ! p)"
  by (simp add: stride_assign_def)

lemma nth_stride:
  assumes "length raw = count * cb" "i < cb" "m < count"
  shows "stride i cb raw ! m = raw ! (i + m * cb)"
proof -
  have "length (stride i cb raw) = count"
    using stride_lengths_agree [OF assms(1,2), of 0 "Suc i"] by simp
  then show ?thesis using assms(3) by (simp add: stride_def)
qed

lemma expand_fold:
  assumes raw: "length raw = count * cb" and n: "co + cb \<le> n" and j: "j \<le> cb" and p: "p < count * n"
  defines "out \<equiv> fold (\<lambda>i out. stride_assign (co + i) n (stride i cb raw) out) [0..<j] (replicate (count * n) 0)"
  shows "length out = count * n \<and>
    out ! p = (if co \<le> p mod n \<and> p mod n < co + j then raw ! (p div n * cb + (p mod n - co)) else 0)"
  using j unfolding out_def
proof (induction j)
  case 0
  then show ?case using p by auto
next
  case (Suc j)
  let ?out = "fold (\<lambda>i out. stride_assign (co + i) n (stride i cb raw) out) [0..<j] (replicate (count * n) 0)"
  have len: "length ?out = count * n" using Suc by simp
  have n0: "0 < n" using Suc.prems n by simp
  have m: "p div n < count" using p by (simp add: less_mult_imp_div_less)
  have step: "(co + j \<le> p \<and> (p - (co + j)) mod n = 0) \<longleftrightarrow> p mod n = co + j"
  proof
    assume a: "co + j \<le> p \<and> (p - (co + j)) mod n = 0"
    then obtain k where "p - (co + j) = n * k" by (auto elim: dvdE simp: mod_eq_0_iff_dvd)
    then have "p = co + j + n * k" using a by simp
    then show "p mod n = co + j" using Suc.prems n by simp
  next
    assume a: "p mod n = co + j"
    have "p = n * (p div n) + (co + j)" using a mult_div_mod_eq [of n p] by simp
    then show "co + j \<le> p \<and> (p - (co + j)) mod n = 0"
      by (metis add_diff_cancel_right' le_add2 mod_mult_self1_is_0)
  qed
  have "(p - (co + j)) div n = p div n" if "p mod n = co + j"
  proof -
    have "p = n * (p div n) + (co + j)" using that mult_div_mod_eq [of n p] by simp
    then have "p - (co + j) = n * (p div n)" by (metis add_diff_cancel_right')
    then show ?thesis using n0 by simp
  qed
  then have new: "stride_assign (co + j) n (stride j cb raw) ?out ! p
      = (if p mod n = co + j then raw ! (j + p div n * cb) else ?out ! p)"
    using step p Suc.prems nth_stride [OF raw, of j "p div n"] m
    by (simp add: nth_stride_assign len)
  have "?out ! p = (if co \<le> p mod n \<and> p mod n < co + j
      then raw ! (p div n * cb + (p mod n - co)) else 0)" using Suc by simp
  moreover have "raw ! (j + p div n * cb) = raw ! (p div n * cb + (p mod n - co))"
    if "p mod n = co + j" using that by (simp add: add.commute)
  moreover have "co \<le> p mod n \<and> p mod n < co + Suc j \<longleftrightarrow>
      p mod n = co + j \<or> co \<le> p mod n \<and> p mod n < co + j" by auto
  ultimately show ?case
    using len new by simp
qed

lemma expand_cpixels_nth:
  assumes "length raw = count * cb" "co + cb \<le> n" "cb \<noteq> n"
  shows "length (expand_cpixels raw count cb n co) = count * n"
    and "p < count * n \<Longrightarrow> expand_cpixels raw count cb n co ! p =
      (if co \<le> p mod n \<and> p mod n < co + cb then raw ! (p div n * cb + (p mod n - co)) else 0)"
proof -
  have "length (fold (\<lambda>i out. stride_assign (co + i) n (stride i cb raw) out) ks
      (replicate (count * n) 0)) = count * n" for ks
    by (induction ks rule: rev_induct) (simp_all add: stride_assign_def)
  then show "length (expand_cpixels raw count cb n co) = count * n"
    using assms(3) by (simp add: expand_cpixels_def)
  show "p < count * n \<Longrightarrow> expand_cpixels raw count cb n co ! p =
      (if co \<le> p mod n \<and> p mod n < co + cb then raw ! (p div n * cb + (p mod n - co)) else 0)"
    using expand_fold [OF assms(1,2) order_refl] assms(3) by (simp add: expand_cpixels_def)
qed

text \<open>Dropping the byte the format does not use does not change a channel.\<close>

lemma channels_cong_low:
  assumes "cpixel_placement pf = Some Low" "v mod 2 ^ 24 = v' mod 2 ^ 24"
    and "pixel_value pf px = v" "pixel_value pf px' = v'"
  shows "channels pf px = channels pf px'"
proof -
  have "redshift pf + bit_length (redmax pf) \<le> 24" "greenshift pf + bit_length (greenmax pf) \<le> 24"
    "blueshift pf + bit_length (bluemax pf) \<le> 24"
    using assms(1) by (auto simp: cpixel_placement_def channel_widths_def split: if_splits)
  then show ?thesis
    using channel_low_bits [OF _ assms(2)] by (simp add: channels_def Let_def assms(3,4))
qed

lemma channels_cong_high:
  assumes "cpixel_placement pf = Some High" "v div 2 ^ 8 = v' div 2 ^ 8"
    and "pixel_value pf px = v" "pixel_value pf px' = v'"
  shows "channels pf px = channels pf px'"
proof -
  have "8 \<le> redshift pf" "8 \<le> greenshift pf" "8 \<le> blueshift pf"
    using assms(1) by (auto simp: cpixel_placement_def split: if_splits prod.splits)
  then show ?thesis
    using channel_high_bits [OF _ assms(2)] by (simp add: channels_def Let_def assms(3,4))
qed

lemma be_val4: "be_val [a, b, c, d] = 16777216 * unat a + (65536 * unat b + (256 * unat c + unat d))"
  by (simp add: be_val_def)

lemma channels_unused_byte:
  assumes "cpixel_bytes pf = 3" "bypp pf = 4"
  shows "channels pf (if cpixel_offset pf = 0 then [a, b, c, 0] else [0, b, c, d]) = channels pf [a, b, c, d]
    \<and> cpixel_offset pf \<le> 1"
proof -
  have lt: "unat x < 256" for x :: byte using unsigned_less [of x] by simp
  have pl: "cpixel_placement pf \<noteq> None"
    using assms by (auto simp: cpixel_bytes_def split: if_splits)
  have off: "cpixel_offset pf = (if (cpixel_placement pf = Some Low) \<noteq> bigendian pf then 0 else 1)"
    using assms by (simp add: cpixel_offset_def)
  obtain q where q: "cpixel_placement pf = Some q" using pl by blast
  have "channels pf (if cpixel_offset pf = 0 then [a, b, c, 0] else [0, b, c, d]) = channels pf [a, b, c, d]"
  proof (cases q)
    case Low
    with q have 1: "cpixel_placement pf = Some Low" by simp
    have "(16777216 * x + y) mod 16777216 = y mod 16777216" for x y :: nat by simp
    then show ?thesis
      by (intro channels_cong_low [OF 1 _ refl refl]) (simp add: off 1 pixel_value_def be_val4)
  next
    case High
    with q have 2: "cpixel_placement pf = Some High" by simp
    have "(16777216 * x + 65536 * y + 256 * z + unat t) div 256 = 65536 * x + 256 * y + z"
      for x y z :: nat and t :: byte
    proof -
      have "(256 * k + unat t) div 256 = k" for k using lt [of t] by simp
      from this [of "65536 * x + 256 * y + z"] show ?thesis by (simp add: algebra_simps)
    qed
    then show ?thesis
      by (intro channels_cong_high [OF 2 _ refl refl])
        (simp add: off 2 pixel_value_def be_val_def)
  qed
  then show ?thesis by (simp add: off)
qed

text \<open>
  ZRLE's compact pixels are lossless. For a format whose pixels are sent as three bytes, dropping
  the byte at which \<open>cpixel_offset\<close> does not look and widening the rest again, for any number of
  pixels at once, gives pixels with the same red, green and blue.
\<close>

theorem cpixel_lossless:
  assumes "cpixel_bytes pf = 3" "bypp pf = 4" and "list_all (\<lambda>px. length px = 4) pxs" and "m < length pxs"
  shows "channels pf (pslice (4 * m) (4 * m + 4)
      (expand_cpixels (concat (map (\<lambda>px. pslice (cpixel_offset pf) (cpixel_offset pf + 3) px) pxs))
        (length pxs) 3 4 (cpixel_offset pf))) = channels pf (pxs ! m)"
proof -
  let ?co = "cpixel_offset pf" let ?raw = "concat (map (\<lambda>px. pslice ?co (?co + 3) px) pxs)"
  let ?out = "expand_cpixels ?raw (length pxs) 3 4 ?co"
  have co: "?co \<le> 1" using channels_unused_byte [OF assms(1,2), of 0 0 0 0] by simp
  have len: "length px = 4" if "px \<in> set pxs" for px using assms(3) that by (simp add: list_all_iff)
  have "length ?raw = length pxs * 3 \<and> (\<forall>m r. m < length pxs \<longrightarrow> r < 3 \<longrightarrow>
      ?raw ! (m * 3 + r) = pxs ! m ! (?co + r))"
    using len
  proof (induction pxs)
    case Nil
    then show ?case by simp
  next
    case (Cons px pxs)
    let ?tail = "concat (map (\<lambda>px. pslice ?co (?co + 3) px) pxs)"
    have px: "length (pslice ?co (?co + 3) px) = 3" using Cons.prems [of px] co by simp
    have IH: "length ?tail = length pxs * 3" "\<And>m r. m < length pxs \<Longrightarrow> r < 3 \<Longrightarrow>
        ?tail ! (m * 3 + r) = pxs ! m ! (?co + r)"
      using Cons by simp_all
    have "(pslice ?co (?co + 3) px @ ?tail) ! (m * 3 + r) = (px # pxs) ! m ! (?co + r)"
      if "m < Suc (length pxs)" "r < 3" for m r
    proof (cases m)
      case 0
      then show ?thesis
        using that px Cons.prems [of px] co by (simp add: nth_append nth_pslice)
    next
      case (Suc k)
      then show ?thesis using that px IH(2) [of k r] by (simp add: nth_append)
    qed
    then show ?case using px IH(1) by simp
  qed
  then have raw: "length ?raw = length pxs * 3"
    "\<And>r. r < 3 \<Longrightarrow> ?raw ! (m * 3 + r) = pxs ! m ! (?co + r)" using assms(4) by auto
  note ex = expand_cpixels_nth [OF raw(1), of ?co 4]
  have out: "?out ! (4 * m + r) = (if ?co \<le> r \<and> r < ?co + 3 then pxs ! m ! r else 0)" if "r < 4" for r
  proof -
    have "(4 * m + r) mod 4 = r" "(4 * m + r) div 4 = m" "4 * m + r < length pxs * 4"
      using that assms(4) by auto
    then show ?thesis using ex(2) [of "4 * m + r"] co raw(2) [of "r - ?co"] by auto
  qed
  have lo: "length ?out = length pxs * 4" using ex(1) co by simp
  obtain a b c d where px: "pxs ! m = [a, b, c, d]"
    using len [OF nth_mem [OF assms(4)]] by (auto simp: length_Suc_conv numeral_eq_Suc)
  have "pslice (4 * m) (4 * m + 4) ?out = [?out ! (4 * m), ?out ! (4 * m + 1), ?out ! (4 * m + 2), ?out ! (4 * m + 3)]"
  proof (rule nth_equalityI)
    show "length (pslice (4 * m) (4 * m + 4) ?out) = length [?out ! (4 * m), ?out ! (4 * m + 1), ?out ! (4 * m + 2), ?out ! (4 * m + 3)]"
      using lo assms(4) by simp
    fix r assume "r < length (pslice (4 * m) (4 * m + 4) ?out)"
    then have r: "r < 4" by simp
    then have "pslice (4 * m) (4 * m + 4) ?out ! r = ?out ! (4 * m + r)"
      using lo assms(4) by (intro nth_pslice) auto
    moreover have "r = 0 \<or> r = 1 \<or> r = 2 \<or> r = 3" using r by auto
    ultimately show "pslice (4 * m) (4 * m + 4) ?out ! r
        = [?out ! (4 * m), ?out ! (4 * m + 1), ?out ! (4 * m + 2), ?out ! (4 * m + 3)] ! r" by auto
  qed
  also have "\<dots> = (if ?co = 0 then [a, b, c, 0] else [0, b, c, d])"
    using out [of 0] out [of 1] out [of 2] out [of 3] co px by auto
  finally show ?thesis
    using channels_unused_byte [OF assms(1,2), of a b c d] by (simp add: px)
qed

lemma cpixel_lossless_witness:
  "let pf = snd (pixel_formats ! 0)
   in cpixel_bytes pf = 3 \<and> bypp pf = 4 \<and>
      channels pf (pslice 0 4 (expand_cpixels
        (concat (map (\<lambda>px. pslice (cpixel_offset pf) (cpixel_offset pf + 3) px) [[1, 2, 3, 99]]))
        1 3 4 (cpixel_offset pf))) = channels pf [1, 2, 3, 99]"
proof -
  let ?pf = "snd (pixel_formats ! 0)"
  have "bit_length 255 = 8" by (simp add: bit_length.simps)
  then have pf: "cpixel_bytes ?pf = 3" "bypp ?pf = 4"
    by (simp_all add: pixel_formats_def cpixel_bytes_def bypp_def cpixel_placement_def channel_widths_def)
  from cpixel_lossless [OF pf, of "[[1, 2, 3, 99]]" 0] pf show ?thesis by (simp add: Let_def)
qed

section \<open>Packed indices are bit extraction\<close>

lemma packed_indices_nth:
  assumes "slot < 8 div bits"
  shows "packed_indices bits b ! slot = unat b div 2 ^ (8 - bits - slot * bits) mod 2 ^ bits"
proof -
  have "w AND (2 ^ bits - 1) = take_bit bits w" for w :: byte
    by (simp add: take_bit_eq_mask mask_eq_exp_minus_1)
  moreover have "unat (take_bit bits (drop_bit k b)) = unat b div 2 ^ k mod 2 ^ bits" for k
  proof -
    have "unat (take_bit bits (drop_bit k b)) = take_bit bits (drop_bit k (unat b))"
      by (simp only: unsigned_take_bit_eq unat_drop_bit_eq)
    then show ?thesis by (simp only: take_bit_eq_mod drop_bit_eq_div)
  qed
  ultimately show ?thesis
    using assms by (simp add: packed_indices_def)
qed

lemma length_packed_indices [simp]: "length (packed_indices bits b) = 8 div bits"
  by (simp add: packed_indices_def)

lemma packed_indices_less: "i \<in> set (packed_indices bits b) \<Longrightarrow> i < 2 ^ bits"
  by (metis in_set_conv_nth length_packed_indices mod_less_divisor packed_indices_nth zero_less_numeral zero_less_power)

lemma nth_all_bytes: "(map word_of_nat [0..<256] :: byte list) ! unat b = b"
proof -
  have "unat b < 256" using unsigned_less [of b] by simp
  then show ?thesis by simp
qed

definition packed_entry :: "bytes list \<Rightarrow> nat \<Rightarrow> bytes" where
  "packed_entry palette i =
     (if i < length palette then palette ! i else replicate (length (palette ! 0)) 0)"

lemma index_tables_nth:
  "fst (index_tables palette bits) ! unat b = concat (map (packed_entry palette) (packed_indices bits b))"
  "snd (index_tables palette bits) = Some flags \<Longrightarrow>
     flags ! unat b = map (\<lambda>i. if i \<ge> length palette then 1 else 0) (packed_indices bits b)"
  "snd (index_tables palette bits) = None \<longleftrightarrow> length palette = 2 ^ bits"
proof -
  have lt: "unat b < length (map word_of_nat [0..<256] :: byte list)"
    using unsigned_less [of b] by simp
  show "fst (index_tables palette bits) ! unat b = concat (map (packed_entry palette) (packed_indices bits b))"
    using lt nth_all_bytes [of b]
    by (simp add: index_tables_def Let_def packed_entry_def [abs_def] del: map_map)
  show "snd (index_tables palette bits) = Some flags \<Longrightarrow>
     flags ! unat b = map (\<lambda>i. if i \<ge> length palette then 1 else 0) (packed_indices bits b)"
    using lt nth_all_bytes [of b]
    by (auto simp: index_tables_def Let_def simp del: map_map split: if_splits)
  show "snd (index_tables palette bits) = None \<longleftrightarrow> length palette = 2 ^ bits"
    by (simp add: index_tables_def Let_def)
qed

lemma row_indices:
  assumes "0 < bits" "bits \<le> 8" "tw \<le> length row * (8 div bits)" "x < tw"
  shows "concat (map (packed_indices bits) row) ! x = packed_index bits row x"
proof -
  have k: "0 < 8 div bits" using assms(1,2) by (simp add: div_greater_zero_iff)
  have "concat (map (packed_indices bits) row) ! x
      = packed_indices bits (row ! (x div (8 div bits))) ! (x mod (8 div bits))"
    using assms(3,4) by (intro nth_concat_uniform) simp_all
  with k show ?thesis by (simp add: packed_indices_nth packed_index_def Let_def)
qed

text \<open>One row: what the tables give is the palette at each pixel's index, all of them defined.\<close>

lemma packed_row_ok:
  assumes bits: "0 < bits" "bits \<le> 8" and tw: "tw \<le> length row * (8 div bits)"
    and pal: "\<And>p. p \<in> set palette \<Longrightarrow> length p = n" "palette \<noteq> []"
    and ok: "\<not> (case snd (index_tables palette bits) of None \<Rightarrow> False
       | Some flags \<Rightarrow> list_ex (\<lambda>f. f \<noteq> 0) (take tw (concat (map (\<lambda>b. flags ! unat b) row))))"
  shows "take (tw * n) (concat (map (\<lambda>b. fst (index_tables palette bits) ! unat b) row))
      = concat (map (\<lambda>x. palette ! packed_index bits row x) [0..<tw]) \<and>
    (\<forall>x<tw. packed_index bits row x < length palette)"
proof -
  let ?is = "concat (map (packed_indices bits) row)"
  have len: "length ?is = length row * (8 div bits)" by (simp add: length_concat_uniform)
  have less: "packed_index bits row x < length palette" if "x < tw" for x
  proof (cases "snd (index_tables palette bits)")
    case None
    have "?is ! x \<in> set ?is" using that tw len by (intro nth_mem) simp
    then have "?is ! x < 2 ^ bits" using packed_indices_less by auto
    with None that row_indices [OF bits tw] show ?thesis by (simp add: index_tables_nth(3))
  next
    case (Some flags)
    let ?g = "\<lambda>i. if i \<ge> length palette then 1 else 0 :: byte"
    have F: "concat (map (\<lambda>b. flags ! unat b) row) = map ?g ?is"
      by (induction row) (simp_all add: index_tables_nth(2) [OF Some])
    have "take tw (map ?g ?is) ! x = ?g (?is ! x)" using that tw len by simp
    moreover have "take tw (map ?g ?is) ! x \<in> set (take tw (map ?g ?is))"
      using that tw len by (intro nth_mem) simp
    ultimately have "?g (?is ! x) = 0"
      using ok by (simp add: Some F list_ex_iff)
    then show ?thesis using row_indices [OF bits tw that] by (simp split: if_splits)
  qed
  have ent: "length (packed_entry palette i) = n" for i
    using pal by (auto simp: packed_entry_def)
  have "concat (map (\<lambda>b. fst (index_tables palette bits) ! unat b) row) = concat (map (packed_entry palette) ?is)"
    by (induction row) (simp_all add: index_tables_nth(1))
  then have "take (tw * n) (concat (map (\<lambda>b. fst (index_tables palette bits) ! unat b) row))
      = concat (map (packed_entry palette) (take tw ?is))"
    using take_concat_uniform [of ?is "packed_entry palette" n tw] ent by simp
  also have "take tw ?is = map (packed_index bits row) [0..<tw]"
    using tw len row_indices [OF bits tw] by (intro nth_equalityI) auto
  finally have "take (tw * n) (concat (map (\<lambda>b. fst (index_tables palette bits) ! unat b) row))
      = concat (map (\<lambda>x. packed_entry palette (packed_index bits row x)) [0..<tw])"
    by (simp add: comp_def)
  also have "map (\<lambda>x. packed_entry palette (packed_index bits row x)) [0..<tw]
      = map (\<lambda>x. palette ! packed_index bits row x) [0..<tw]"
    using less by (intro map_cong) (simp_all add: packed_entry_def)
  finally show ?thesis using less by simp
qed

lemma list_all_upt: "list_all P [0..<n] \<longleftrightarrow> (\<forall>i<n. P i)"
  by (auto simp: list_all_iff)

text \<open>
  the table-driven rows of a packed tile are bit extraction. Whatever the palette and the index
  width, rows that decode are, pixel by pixel, the palette entry at the index the row's bits hold,
  every such index is defined, each row starts at a byte of its own, and exactly \<open>row_size\<close> bytes
  are consumed per row.
\<close>

theorem packed_rows_extract_bits:
  assumes bits: "0 < bits" "bits \<le> 8"
    and size: "row_size = (tw + 8 div bits - 1) div (8 div bits)" "row_size * th \<le> length data"
    and pal: "list_all (\<lambda>p. length p = n) palette" "palette \<noteq> []"
    and ok: "packed_rows (index_tables palette bits) (length palette) tw row_size (tw * n) th data
      = Inr (rows, rest)"
  shows "rows = map (\<lambda>y. concat (map (\<lambda>x. palette !
        packed_index bits (take row_size (drop (y * row_size) data)) x) [0..<tw])) [0..<th] \<and>
    list_all (\<lambda>y. list_all (\<lambda>x. packed_index bits (take row_size (drop (y * row_size) data)) x
      < length palette) [0..<tw]) [0..<th] \<and>
    rest = drop (row_size * th) data"
  using size(2) ok
proof (induction th arbitrary: data rows rest)
  case 0
  then show ?case by simp
next
  case (Suc th)
  let ?row = "take row_size data"
  have k: "0 < 8 div bits" using bits by (simp add: div_greater_zero_iff)
  have "tw \<le> row_size * (8 div bits)"
  proof -
    have "tw + 8 div bits - 1 < row_size * (8 div bits) + 8 div bits"
      unfolding size(1) using k by (metis add.commute dividend_less_div_times)
    then show ?thesis using k by linarith
  qed
  then have tw: "tw \<le> length ?row * (8 div bits)" using Suc.prems(1) by simp
  obtain rows' where row: "\<not> (case snd (index_tables palette bits) of None \<Rightarrow> False
      | Some flags \<Rightarrow> list_ex (\<lambda>f. f \<noteq> 0) (take tw (concat (map (\<lambda>b. flags ! unat b) ?row))))"
    and rec: "packed_rows (index_tables palette bits) (length palette) tw row_size (tw * n) th
      (drop row_size data) = Inr (rows', rest)"
    and rows: "rows = take (tw * n) (concat (map (\<lambda>b. fst (index_tables palette bits) ! unat b) ?row)) # rows'"
    using Suc.prems(2) by (auto simp: Let_def split: if_splits sum.splits prod.splits)
  have pal': "length p = n" if "p \<in> set palette" for p using pal(1) that by (simp add: list_all_iff)
  note r = packed_row_ok [OF bits tw pal' pal(2) row]
  have "row_size * th \<le> length (drop row_size data)" using Suc.prems(1) by simp
  note IH = Suc.IH [OF this rec]
  have "drop (y * row_size) (drop row_size data) = drop (Suc y * row_size) data" for y
    by (simp add: add.commute)
  with r IH show ?case
    unfolding rows map_upt_Suc list_all_upt All_less_Suc2 by (simp add: add.commute)
qed

lemma packed_rows_extract_bits_witness:
  "packed_rows (index_tables [[7], [8]] 1) (length [[7], [8 :: byte]]) 3 1 (3 * 1) 1 [0x40, 9] = Inr ([[7, 8, 7]], [9])"
proof -
  have tabs: "snd (index_tables [[7], [8 :: byte]] (Suc 0)) = None"
    by (simp add: index_tables_nth(3) numeral_2_eq_2)
  obtain rows rest where r: "packed_rows (index_tables [[7], [8]] 1) (length [[7], [8 :: byte]]) 3 1 (3 * 1) 1 [0x40, 9]
      = Inr (rows, rest)"
    by (simp add: tabs Let_def)
  have s: "1 = (3 + 8 div 1 - 1) div (8 div 1 :: nat)" by simp
  from packed_rows_extract_bits [OF _ _ s _ _ _ r]
  have "rows = [[7, 8, 7]] \<and> rest = [9]"
    by (simp add: packed_index_def Let_def upt_rec)
  then have "rows = [[7, 8, 7]]" "rest = [9]" by simp_all
  with r show ?thesis by (simp only:)
qed

section \<open>Runs are read back as written\<close>

text \<open>RFC 6143 7.7.6: one less than the run, as bytes summing to it, each 255 saying that one more follows.\<close>

definition run_length_bytes :: "nat \<Rightarrow> bytes" where
  "run_length_bytes k = replicate ((k - 1) div 255) 255 @ [word_of_nat ((k - 1) mod 255)]"

text \<open>A run on the wire: a literal compact pixel, or a palette entry that may stand alone.\<close>

datatype zrun = Literal bytes nat | Indexed nat nat

fun run_wire :: "zrun \<Rightarrow> bytes" where
  "run_wire (Literal cpixel k) = cpixel @ run_length_bytes k"
| "run_wire (Indexed i k) =
     (if k = 1 then [word_of_nat i] else word_of_nat (i + 128) # run_length_bytes k)"

fun run_count :: "zrun \<Rightarrow> nat" where
  "run_count (Literal cpixel k) = k"
| "run_count (Indexed i k) = k"

fun run_pixels :: "nat \<times> nat \<times> nat \<Rightarrow> bytes list \<Rightarrow> zrun \<Rightarrow> bytes" where
  "run_pixels (cb, n, co) palette (Literal cpixel k) = repeat_bytes k (expand_cpixels cpixel 1 cb n co)"
| "run_pixels cp palette (Indexed i k) = repeat_bytes k (palette ! i)"

fun run_valid :: "nat \<Rightarrow> bytes list \<Rightarrow> zrun \<Rightarrow> bool" where
  "run_valid cb palette (Literal cpixel k) \<longleftrightarrow> palette = [] \<and> length cpixel = cb \<and> 0 < k"
| "run_valid cb palette (Indexed i k) \<longleftrightarrow> i < length palette \<and> length palette \<le> 127 \<and> 0 < k"

lemma run_length_read:
  assumes "0 < k"
  shows "\<exists>p ps. run_length_bytes k = p # ps \<and> (\<forall>acc rest.
    run_more p (acc + unat p) (ps @ rest) = Some (acc + (k - 1), rest))"
proof -
  define q r where "q = (k - 1) div 255" and "r = (k - 1) mod 255"
  have r: "r < 255" by (simp add: r_def)
  have one: "run_more (word_of_nat r) acc rest = Some (acc, rest)" for acc rest
  proof -
    have "unat (word_of_nat r :: byte) \<noteq> unat (255 :: byte)" using r by simp
    then have "(word_of_nat r :: byte) \<noteq> 255" by metis
    then show ?thesis by (subst run_more.simps) simp
  qed
  have "\<exists>p ps. replicate q 255 @ [word_of_nat r] = p # ps \<and> (\<forall>acc rest.
    run_more p (acc + unat p) (ps @ rest) = Some (acc + (255 * q + r), rest))"
  proof (induction q)
    case 0
    then show ?case using r one by simp
  next
    case (Suc q)
    then obtain p ps where ps: "replicate q 255 @ [word_of_nat r] = p # ps" and
      IH: "\<And>acc rest. run_more p (acc + unat p) (ps @ rest) = Some (acc + (255 * q + r), rest)" by blast
    have "run_more 255 (acc + 255) ((p # ps) @ rest) = Some (acc + (255 * Suc q + r), rest)" for acc rest
      by (subst run_more.simps) (simp add: IH)
    then show ?case by (intro exI [of _ 255] exI [of _ "p # ps"]) (simp add: ps)
  qed
  then show ?thesis by (simp add: run_length_bytes_def q_def r_def)
qed

lemma seven_bits:
  assumes "i < 128"
  shows "(word_of_nat i :: byte) AND 0x7F = word_of_nat i" "(word_of_nat i :: byte) AND 0x80 = 0"
    "(word_of_nat (i + 128) :: byte) AND 0x7F = word_of_nat i"
    "(word_of_nat (i + 128) :: byte) AND 0x80 \<noteq> 0"
proof -
  have low: "w AND 0x7F = word_of_nat (unat w mod 128)" for w :: byte
  proof -
    have "w AND 0x7F = take_bit 7 w" by (simp add: take_bit_eq_mask mask_eq_exp_minus_1)
    moreover have "unat (take_bit 7 w) = take_bit 7 (unat w)" by (simp only: unsigned_take_bit_eq)
    moreover have "take_bit 7 (unat w) = unat w mod 128" by (simp only: take_bit_eq_mod) simp
    ultimately have "unat (w AND 0x7F) = unat w mod 128" by (simp only:)
    then have "word_of_nat (unat (w AND 0x7F)) = (word_of_nat (unat w mod 128) :: byte)" by (simp only:)
    then show ?thesis by simp
  qed
  have high: "w AND 0x80 = 0 \<longleftrightarrow> even (unat w div 128)" for w :: byte
  proof -
    have "w AND 0x80 = 0 \<longleftrightarrow> \<not> bit w 7" using and_exp_eq_0_iff_not_bit [of w 7] by simp
    also have "bit w 7 \<longleftrightarrow> bit (unat w) 7" by (simp add: bit_unsigned_iff)
    finally show ?thesis by (simp add: bit_iff_odd)
  qed
  have u: "unat (word_of_nat i :: byte) = i" "unat (word_of_nat (i + 128) :: byte) = i + 128"
    using assms by (simp_all del: of_nat_add)
  show "(word_of_nat i :: byte) AND 0x7F = word_of_nat i" "(word_of_nat (i + 128) :: byte) AND 0x7F = word_of_nat i"
    using assms unfolding low u by simp_all
  show "(word_of_nat i :: byte) AND 0x80 = 0" "(word_of_nat (i + 128) :: byte) AND 0x80 \<noteq> 0"
    unfolding high u
  proof -
    have "i div 128 = 0" "(i + 128) div 128 = 1" using assms by (auto intro: div_nat_eqI)
    then show "even (i div 128)" "\<not> even ((i + 128) div 128)" by (simp_all only:) simp_all
  qed
qed

lemma zrle_runs_step:
  assumes v: "run_valid (fst cp) palette r" and num: "num < want"
  shows "zrle_runs txy cp palette want num acc (run_wire r @ rest)
    = zrle_runs txy cp palette want (num + run_count r) (acc @ run_pixels cp palette r) rest"
proof -
  obtain cb n co where cp: "cp = (cb, n, co)" by (cases cp)
  obtain tx ty where txy: "txy = (tx, ty)" by (cases txy)
  have long: "zrle_runs txy cp palette want num acc wire
      = zrle_runs txy cp palette want (num + k) (acc @ repeat_bytes k px) rest"
    if px: "run_pixel txy cp palette wire = Inr (px, False, run_length_bytes k @ rest)" and k: "0 < k"
    for wire px k
  proof -
    from run_length_read [OF k] obtain p ps where p: "run_length_bytes k = p # ps"
      "\<And>acc rest. run_more p (acc + unat p) (ps @ rest) = Some (acc + (k - 1), rest)" by blast
    from p(2) [of 0] have "run_more p (unat p) (ps @ rest) = Some (k - 1, rest)" by simp
    then show ?thesis
      using num k px by (subst zrle_runs.simps) (simp add: p(1))
  qed
  show ?thesis
  proof (cases r)
    case (Literal cpixel k)
    then show ?thesis
      using v cp long [of "cpixel @ run_length_bytes k @ rest" "expand_cpixels cpixel 1 cb n co" k]
      by (simp add: run_pixel_def txy)
  next
    case (Indexed i k)
    then have i: "i < length palette" "i < 127" and k: "0 < k" and ne: "palette \<noteq> []" using v by auto
    have bits: "(word_of_nat i :: byte) AND 0x7F = word_of_nat i" "(word_of_nat i :: byte) AND 0x80 = 0"
      "(word_of_nat (i + 128) :: byte) AND 0x7F = word_of_nat i" "(word_of_nat (i + 128) :: byte) AND 0x80 \<noteq> 0"
      using i(2) seven_bits by auto
    show ?thesis
    proof (cases "k = 1")
      case True
      then show ?thesis
        using Indexed i num by (subst zrle_runs.simps) (simp add: run_pixel_def txy cp bits ne repeat_bytes_def)
    next
      case False
      have "run_pixel txy cp palette (word_of_nat (i + 128) # run_length_bytes k @ rest)
          = Inr (palette ! i, False, run_length_bytes k @ rest)"
        using i ne bits by (auto simp: run_pixel_def txy cp)
      from long [OF this k] False show ?thesis by (simp add: Indexed cp)
    qed
  qed
qed

lemma zrle_runs_written:
  "list_all (run_valid (fst cp) palette) rs \<Longrightarrow> num + sum_list (map run_count rs) = want \<Longrightarrow>
     zrle_runs txy cp palette want num acc (concat (map run_wire rs) @ rest)
       = Inr (want, acc @ concat (map (run_pixels cp palette) rs), rest)"
proof (induction rs arbitrary: num acc)
  case Nil
  then show ?case by (simp add: zrle_runs.simps)
next
  case (Cons r rs)
  then have v: "run_valid (fst cp) palette r" by simp
  then have "0 < run_count r" by (cases r) auto
  then have "num < want" using Cons.prems(2) by simp
  from zrle_runs_step [OF v this] show ?case
    using Cons.IH [of "num + run_count r"] Cons.prems by simp
qed

text \<open>
  C38: run-length tiles are read back as they were written. A tile sent as any sequence of runs that
  add up to its pixels, literal or out of a palette of at most 127 colours, with lengths in as many
  bytes as they need, decodes to those pixels in order, and what follows in the chunk is left.
\<close>

theorem zrle_runs_roundtrip:
  assumes "list_all (run_valid cb palette) rs" and "sum_list (map run_count rs) = want"
  shows "zrle_runs txy (cb, n, co) palette want 0 [] (concat (map run_wire rs) @ rest)
    = Inr (want, concat (map (run_pixels (cb, n, co) palette) rs), rest)"
  using assms by (simp add: zrle_runs_written)

lemma zrle_runs_roundtrip_witness:
  "zrle_runs (0, 0) (1, 1, 0) [[5], [6]] 301 0 [] (concat (map run_wire [Indexed 1 300, Indexed 0 1]) @ [9])
    = Inr (301, concat (map (run_pixels (1, 1, 0) [[5], [6]]) [Indexed 1 300, Indexed 0 1]), [9])"
  by (rule zrle_runs_roundtrip) simp_all

section \<open>Painting tile by tile\<close>

lemma zrle_tile_paint:
  assumes "zrle_tile cp t rem = Inr (p, rem')"
  shows "tile_paints t [p]"
proof -
  obtain cb n co tx ty tw th where cp: "cp = (cb, n, co)" and t: "t = (tx, ty, tw, th)"
    by (cases cp, cases t)
  have "tile_paints t [p]" if "zrle_tile_body cp t sub palette r = Inr (p, rem')" for sub palette r
    using that by (auto simp: zrle_tile_body_def cp t Let_def tile_paints_whole
        split: if_splits sum.splits prod.splits)
  then show ?thesis
    using assms by (auto simp: zrle_tile_def cp t Let_def split: if_splits list.splits)
qed

lemma zrle_tiles_paint:
  "zrle_tiles cp ts rem t1 = Inr (t1', rem') \<Longrightarrow>
     \<exists>pss. paints_to t1 (concat pss) t1' \<and> tiles_paints ts pss"
proof (induction ts arbitrary: rem t1)
  case Nil
  then show ?case by (auto intro: exI [of _ "[]"])
next
  case (Cons t ts)
  obtain p rem1 u where p: "zrle_tile cp t rem = Inr (p, rem1)" "run_paint fill blit t1 p = Inr u"
    "zrle_tiles cp ts rem1 u = Inr (t1', rem')"
    using Cons.prems by (auto split: sum.splits prod.splits)
  from Cons.IH [OF p(3)] obtain pss where "paints_to u (concat pss) t1'" "tiles_paints ts pss" by blast
  then show ?case
    using zrle_tile_paint [OF p(1)] p(2) by (intro exI [of _ "[p] # pss"]) (simp add: paints_to_def)
qed

lemma run_paint_in_step:
  "in_step t1 t2 \<Longrightarrow> run_paint fill blit t1 p = Inr u1 \<Longrightarrow>
     \<exists>u2. run_paint fill blit t2 p = Inr u2 \<and> in_step u1 u2"
  by (cases p) (simp_all add: fill_in_step blit_in_step)

lemma zrle_tiles_in_step:
  "in_step t1 t2 \<Longrightarrow> zrle_tiles cp ts rem t1 = Inr (t1', rem') \<Longrightarrow>
     \<exists>t2' pss. zrle_tiles cp ts rem t2 = Inr (t2', rem') \<and> tiles_paints ts pss \<and>
       paints_to t1 (concat pss) t1' \<and> paints_to t2 (concat pss) t2'"
proof (induction ts arbitrary: rem t1 t2)
  case Nil
  then show ?case by (auto intro: exI [of _ "[]"])
next
  case (Cons t ts)
  obtain p rem1 u1 where p: "zrle_tile cp t rem = Inr (p, rem1)" "run_paint fill blit t1 p = Inr u1"
    "zrle_tiles cp ts rem1 u1 = Inr (t1', rem')"
    using Cons.prems(2) by (auto split: sum.splits prod.splits)
  from run_paint_in_step [OF Cons.prems(1) p(2)] obtain u2 where
    u2: "run_paint fill blit t2 p = Inr u2" "in_step u1 u2" by blast
  from Cons.IH [OF u2(2) p(3)] obtain t2' pss where
    "zrle_tiles cp ts rem1 u2 = Inr (t2', rem')" "tiles_paints ts pss"
    "paints_to u1 (concat pss) t1'" "paints_to u2 (concat pss) t2'" by blast
  then show ?case
    using zrle_tile_paint [OF p(1)] p u2(1)
    by (intro exI [of _ t2'] exI [of _ "[p] # pss"]) (simp add: paints_to_def)
qed

text \<open>What a finished run read and did.\<close>

lemma zrle_finished:
  assumes "drive (zrle_pixels ex t pf) bs c = Finished t' rest c'"
  shows "\<exists>len block z data tail. bs = len @ block @ rest \<and> length len = 4 \<and> length block = be_val len \<and>
    zlib_decompress ex (st_zrle c) block 0 = Inr (z, data, tail) \<and> c' = c\<lparr>st_zrle := z\<rparr> \<and>
    zrle_tiles (cpixel_bytes pf, rb_bypp t, cpixel_offset pf) (tiles 64 (rb_width t) (rb_height t)) data t
      = Inr (t', [])"
proof -
  let ?l = "take 4 bs" let ?n = "be_val (take 4 bs)" let ?b = "take ?n (drop 4 bs)"
  have l: "4 \<le> length bs" "?n \<le> length (drop 4 bs)" and
    d: "drive (ReadClient (\<lambda>c. checked (zlib_decompress ex (st_zrle c) ?b 0) (\<lambda>(z, data, tail).
         WriteClient (c\<lparr>st_zrle := z\<rparr>)
           (checked (zrle_tiles (cpixel_bytes pf, rb_bypp t, cpixel_offset pf)
                (tiles 64 (rb_width t) (rb_height t)) data t)
              (\<lambda>(target', rem). if rem \<noteq> [] then Throw (DecodeError (ZrleUnconsumed (length rem)))
                               else Return target'))))) (drop ?n (drop 4 bs)) c = Finished t' rest c'"
    using assms by (auto simp: zrle_pixels_def split: if_splits)
  from d obtain z data tail where "zlib_decompress ex (st_zrle c) ?b 0 = Inr (z, data, tail)"
    "c' = c\<lparr>st_zrle := z\<rparr>" "rest = drop ?n (drop 4 bs)"
    "zrle_tiles (cpixel_bytes pf, rb_bypp t, cpixel_offset pf) (tiles 64 (rb_width t) (rb_height t)) data t
      = Inr (t', [])"
    by (auto split: sum.splits if_splits)
  moreover have "bs = ?l @ ?b @ drop ?n (drop 4 bs)" by (simp only: append_take_drop_id)
  ultimately show ?thesis using l by (intro exI [of _ ?l] exI [of _ ?b]) auto
qed

interpretation zrle: pixel_decoder "zrle_pixels ex" for ex
proof (unfold_locales, goal_cases)
  case (1 t1 t2 pf bs c t1' rest c' store)
  let ?ts = "tiles 64 (rb_width t1) (rb_height t1)"
  have dims: "rb_bypp t2 = rb_bypp t1" "rb_width t2 = rb_width t1" "rb_height t2 = rb_height t1"
    using 1(1) by (simp_all add: in_step_def rb_dims_def)
  from zrle_finished [OF 1(2)] obtain len block z data tail where
    bs: "bs = len @ block @ rest" "length len = 4" "length block = be_val len"
    and z: "zlib_decompress ex (st_zrle c) block 0 = Inr (z, data, tail)"
    and c': "c' = c\<lparr>st_zrle := z\<rparr>"
    and t: "zrle_tiles (cpixel_bytes pf, rb_bypp t1, cpixel_offset pf) ?ts data t1 = Inr (t1', [])"
    by blast
  from zrle_tiles_in_step [OF 1(1) t] obtain t2' pss where
    t2: "zrle_tiles (cpixel_bytes pf, rb_bypp t1, cpixel_offset pf) ?ts data t2 = Inr (t2', [])"
    and p: "tiles_paints ?ts pss" "paints_to t1 (concat pss) t1'" "paints_to t2 (concat pss) t2'"
    by blast
  have "drive (zrle_pixels ex t2 pf) bs (c\<lparr>st_rect_backing := store\<rparr>)
      = Finished t2' rest (c'\<lparr>st_rect_backing := store\<rparr>)"
    using bs z t2 by (simp add: zrle_pixels_def dims c')
  moreover have "covering (rb_width t1) (rb_height t1) (concat pss)"
    using p(1) by (rule tiles_paints_covering [rotated]) simp
  ultimately show ?case using p(2,3) c' by auto
qed

text \<open>
  a ZRLE rectangle consumes its chunk exactly. A finished run read the four length bytes and
  that many bytes of the stream, handed them to the connection's one decompressor, left the
  decompressor advanced and nothing else of the client changed, painted the 64x64 tiles once each in
  order, and left no byte of what the chunk decompressed to.
\<close>

theorem zrle_chunk_consumed:
  assumes "drive (zrle_pixels ex t pf) bs c = Finished t' rest c'"
  shows "\<exists>block z data tail pss. bs = be_bytes 4 (length block) @ block @ rest \<and>
    zlib_decompress ex (st_zrle c) block 0 = Inr (z, data, tail) \<and> c' = c\<lparr>st_zrle := z\<rparr> \<and>
    zrle_tiles (cpixel_bytes pf, rb_bypp t, cpixel_offset pf)
      (tiles 64 (rb_width t) (rb_height t)) data t = Inr (t', []) \<and>
    paints_to t (concat pss) t' \<and> tiles_paints (tiles 64 (rb_width t) (rb_height t)) pss"
proof -
  from zrle_finished [OF assms] obtain len block z data tail where
    bs: "bs = len @ block @ rest" "length len = 4" "length block = be_val len"
    and r: "zlib_decompress ex (st_zrle c) block 0 = Inr (z, data, tail)" "c' = c\<lparr>st_zrle := z\<rparr>"
      "zrle_tiles (cpixel_bytes pf, rb_bypp t, cpixel_offset pf) (tiles 64 (rb_width t) (rb_height t)) data t
        = Inr (t', [])"
    by blast
  have "bs = be_bytes 4 (length block) @ block @ rest"
    using bs by (simp add: be_bytes_be_val)
  moreover obtain pss where "paints_to t (concat pss) t'" "tiles_paints (tiles 64 (rb_width t) (rb_height t)) pss"
    using zrle_tiles_paint [OF r(3)] by blast
  ultimately show ?thesis using r by blast
qed

lemma zrle_chunk_consumed_witness:
  "\<exists>t t' block z data tail pss. rect_buffer_init 1 1 3 (Some [9, 9, 9]) = Inr t \<and>
     drive (zrle_pixels stored_externals t TPIXEL_FORMAT) [0, 0, 0, 4, 1, 5, 6, 7, 77]
       (rfb_init stored_externals) = Finished t' [77] (rfb_init stored_externals) \<and>
     [0, 0, 0, 4, 1, 5, 6, 7, 77] = be_bytes 4 (length block) @ block @ [77] \<and>
     zlib_decompress stored_externals (st_zrle (rfb_init stored_externals)) block 0 = Inr (z, data, tail) \<and>
     paints_to t (concat pss) t'"
proof -
  let ?bs = "[0, 0, 0, 4, 1, 5, 6, 7, 77] :: bytes" let ?c = "rfb_init stored_externals"
  define t where "t = \<lparr>rb_width = 1, rb_height = 1, rb_bypp = 3, rb_backing = [9, 9, 9 :: byte],
    rb_nbytes = 3, rb_whole = None, rb_covered = False\<rparr>"
  have b: "rect_buffer_init 1 1 3 (Some [9, 9, 9]) = Inr t"
    by (simp add: rect_buffer_init_def t_def)
  have "\<exists>t'. drive (zrle_pixels stored_externals t TPIXEL_FORMAT) ?bs ?c = Finished t' [77] ?c"
    by (simp add: t_def zrle_pixels_def tiles_def py_range_def zrle_tile_def zrle_tile_body_def be_val_def
        stored_externals_def rfb_init_def TPIXEL_FORMAT_def cpixel_bytes_def bypp_def palette_entries_def
        expand_cpixels_def pslice_def fill_def check_bounds_def is_whole_def materialize_def clear_def Let_def)
  then obtain t' where d: "drive (zrle_pixels stored_externals t TPIXEL_FORMAT) ?bs ?c = Finished t' [77] ?c"
    by blast
  from zrle_chunk_consumed [OF d] b d show ?thesis by blast
qed

end
