(* ===== verification/Tight.thy ===== *)
theory Tight
  imports Decoding "HOL-Library.Monad_Syntax"
begin

text \<open>
  \<open>vncdotool/decoders/tight.py\<close>: the compression control byte, Fill, JPEG, and Basic compression with
  the copy and palette filters over four zlib streams.  The JPEG reader, zlib and Pillow's band merge
  are \<open>externals\<close>.  Shown: compact lengths are read back as written and are bounded; the two
  unpaletting paths are per-pixel palette lookup; the decompression loop returns, with exactly the
  bytes asked for, for any zlib that keeps its \<open>max_length\<close> promise; and every finished rectangle has
  the length the pump checks.
\<close>

section \<open>The decoder\<close>

definition STREAMS :: nat where "STREAMS = 4"
definition MIN_TO_COMPRESS :: nat where "MIN_TO_COMPRESS = 12"
definition MAX_WIDTH :: nat where "MAX_WIDTH = 2048"

text \<open>\<open>for stream_id in range(STREAMS): if comp_ctl & (1 << stream_id)\<close>.\<close>

definition reset_streams :: "byte \<Rightarrow> 'z option list \<Rightarrow> 'z option list" where
  "reset_streams comp_ctl streams =
     fold (\<lambda>i ss. if comp_ctl AND push_bit i 1 \<noteq> 0 then ss[i := None] else ss) [0..<STREAMS] streams"

definition tight_output_format :: "pixel_format \<Rightarrow> pixel_format" where
  "tight_output_format pf = (if tpixel_bytes pf = 3 then TPIXEL_FORMAT else pf)"

definition compact_length :: "('c, nat) gen" where
  "compact_length =
     Yield 1 (\<lambda>b1. let byte = unat (b1 ! 0); len1 = byte AND 0x7F
       in if byte AND 0x80 = 0 then Return len1
          else Yield 1 (\<lambda>b2. let byte2 = unat (b2 ! 0); len2 = len1 OR push_bit 7 (byte2 AND 0x7F)
            in if byte2 AND 0x80 = 0 then Return len2
               else Yield 1 (\<lambda>b3. Return (len2 OR push_bit 14 (unat (b3 ! 0))))))"

definition decode_jpeg :: "'z externals \<Rightarrow> bytes \<Rightarrow> nat \<Rightarrow> nat \<Rightarrow> exn + bytes" where
  "decode_jpeg ex block w h =
     (case read_jpeg ex block of
        None \<Rightarrow> Inl (DecodeError TightJpegBad)
      | Some (rw, rh, rgb) \<Rightarrow>
          if (rw, rh) \<noteq> (w, h) then Inl (DecodeError (TightJpegSize rw rh w h)) else Inr rgb)"

text \<open>
  \<open>_decompress\<close>'s \<open>while True\<close>.  Each pass asks for what is still missing and goes round again while
  zlib kept input back; nothing in the source bounds the passes, so the loop is a partial function.
\<close>

partial_function (option) decompress_loop ::
  "'z externals \<Rightarrow> nat \<Rightarrow> nat \<Rightarrow> 'z \<Rightarrow> bytes \<Rightarrow> bytes \<Rightarrow> (exn + 'z \<times> bytes) option" where
  "decompress_loop ex stream_id wanted z tail out =
     (if length out < wanted
      then case zlib_decompress ex z tail (wanted - length out) of
             Inl e \<Rightarrow> Some (Inl e)
           | Inr r \<Rightarrow>
               if snd (snd r) = [] then Some (Inr (fst r, out @ fst (snd r)))
               else decompress_loop ex stream_id wanted (fst r) (snd (snd r)) (out @ fst (snd r))
      else case zlib_decompress ex z tail 1 of
             Inl e \<Rightarrow> Some (Inl e)
           | Inr r \<Rightarrow>
               if fst (snd r) \<noteq> [] then Some (Inl (DecodeError (TightExcess stream_id wanted)))
               else Some (Inr (fst r, out)))"

definition decompress :: "'z externals \<Rightarrow> nat \<Rightarrow> 'z \<Rightarrow> bytes \<Rightarrow> nat \<Rightarrow> exn + 'z \<times> bytes" where
  "decompress ex stream_id z block wanted =
     (case decompress_loop ex stream_id wanted z block [] of
        None \<Rightarrow> Inl NeverReturns
      | Some (Inl e) \<Rightarrow> Inl e
      | Some (Inr (z', out)) \<Rightarrow>
          if length out \<noteq> wanted
          then Inl (DecodeError (TightShort stream_id (length out) wanted))
          else Inr (z', out))"

section \<open>Palettes\<close>

definition mono_table :: "bytes \<Rightarrow> bytes \<Rightarrow> bytes list" where
  "mono_table zero one =
     map (\<lambda>b. concat (map (\<lambda>k. if b AND drop_bit k 0x80 \<noteq> 0 then one else zero) [0..<8]))
       (map word_of_nat [0..<256] :: byte list)"

definition palette_tables :: "bytes list \<Rightarrow> bytes list \<times> bytes" where
  "palette_tables palette =
     (let colours = length palette
      in (map (\<lambda>offset. map (\<lambda>entry. entry ! offset) palette @ replicate (256 - colours) 0)
            [0..<length (palette ! 0)],
          map word_of_nat [0..<colours]))"

definition unpalette ::
  "'z externals \<Rightarrow> bytes \<Rightarrow> bytes list \<Rightarrow> nat \<Rightarrow> nat \<Rightarrow> nat \<Rightarrow> exn + bytes" where
  "unpalette ex data palette w h row_size =
     (if data = [] then Inr []
      else if length palette = 2
      then (let table = mono_table (palette ! 0) (palette ! 1);
                pixels = concat (map (\<lambda>b. table ! unat b) data);
                stride_len = w * length (palette ! 0);
                padded = row_size * 8 * length (palette ! 0)
            in if padded = stride_len then Inr pixels
               else Inr (concat (map (\<lambda>row. pslice (row * padded) (row * padded + stride_len) pixels) [0..<h])))
      else
        (let (channels, defined) = palette_tables palette
         in if filter (\<lambda>b. b \<notin> set defined) data \<noteq> []
            then Inl (DecodeError (TightPaletteIndex (length palette)))
            else if length channels = 1 then Inr (map (\<lambda>b. channels ! 0 ! unat b) data)
            else if length channels \<notin> {2, 3, 4} then Inl KeyError
            else Inr (merge_bands ex w h (map (\<lambda>c. map (\<lambda>b. c ! unat b) data) channels))))"

section \<open>Basic compression\<close>

text \<open>The data of a Basic rectangle: absent, raw when short, else through a zlib stream.\<close>

definition tight_data :: "'z externals \<Rightarrow> nat \<Rightarrow> nat \<Rightarrow> (('z, 'm) client, bytes) gen" where
  "tight_data ex stream_id data_size =
     (if data_size = 0 then Return []
      else if data_size < MIN_TO_COMPRESS then Yield (int data_size) Return
      else yield_from compact_length (\<lambda>len. Yield (int len) (\<lambda>block.
        ReadClient (\<lambda>c.
          let z = (case st_tight c ! stream_id of None \<Rightarrow> zlib_new ex 15 | Some z \<Rightarrow> z)
          in WriteClient (c\<lparr>st_tight := (st_tight c)[stream_id := Some z]\<rparr>)
               (checked (decompress ex stream_id z block data_size) (\<lambda>(z', data).
                  WriteClient (c\<lparr>st_tight := (st_tight c)[stream_id := Some z']\<rparr>) (Return data)))))))"

text \<open>The palette filter once its entries have been read.\<close>

definition tight_palette ::
  "'z externals \<Rightarrow> nat \<Rightarrow> nat \<Rightarrow> nat \<Rightarrow> pixel_format \<Rightarrow> nat \<Rightarrow> bytes \<Rightarrow>
     (('z, 'm) client, bytes \<times> pixel_format) gen" where
  "tight_palette ex stream_id w h pf palette_size raw =
     (let tbytes = tpixel_bytes pf;
          palette = map (\<lambda>i. pslice (i * tbytes) ((i + 1) * tbytes) raw) [0..<palette_size];
          row_size = (if palette_size = 2 then (w + 7) div 8 else w)
      in yield_from (tight_data ex stream_id (h * row_size)) (\<lambda>data.
           checked (unpalette ex data palette w h row_size)
             (\<lambda>px. Return (px, tight_output_format pf))))"

definition tight_filtered ::
  "'z externals \<Rightarrow> nat \<Rightarrow> nat \<Rightarrow> nat \<Rightarrow> pixel_format \<Rightarrow> nat \<Rightarrow> (('z, 'm) client, bytes \<times> pixel_format) gen" where
  "tight_filtered ex stream_id w h pf filter_id =
     (let tbytes = tpixel_bytes pf
      in if filter_id = 0
         then yield_from (tight_data ex stream_id (h * (w * tbytes)))
                (\<lambda>data. Return (data, tight_output_format pf))
         else if filter_id = 1
         then Yield 1 (\<lambda>b. let palette_size = unat (b ! 0) + 1
                in Yield (int (palette_size * tbytes)) (tight_palette ex stream_id w h pf palette_size))
         else if filter_id = 2 then Throw (DecodeError TightGradient)
         else Throw (DecodeError (TightFilter filter_id)))"

definition tight_basic ::
  "'z externals \<Rightarrow> nat \<Rightarrow> nat \<Rightarrow> nat \<Rightarrow> pixel_format \<Rightarrow> (('z, 'm) client, bytes \<times> pixel_format) gen" where
  "tight_basic ex comp_ctl w h pf =
     (let stream_id = comp_ctl AND 0x03
      in if comp_ctl AND 0x04 \<noteq> 0
         then Yield 1 (\<lambda>b. tight_filtered ex stream_id w h pf (unat (b ! 0)))
         else tight_filtered ex stream_id w h pf 0)"

definition tight_rect ::
  "'z externals \<Rightarrow> nat \<Rightarrow> nat \<Rightarrow> pixel_format \<Rightarrow> (('z, 'm) client, bytes \<times> pixel_format) gen" where
  "tight_rect ex w h pf =
     Yield 1 (\<lambda>b.
       ReadClient (\<lambda>c. WriteClient (c\<lparr>st_tight := reset_streams (b ! 0) (st_tight c)\<rparr>)
         (let comp_ctl = unat (drop_bit 4 (b ! 0))
          in if comp_ctl = 0x08
             then Yield (int (tpixel_bytes pf)) (\<lambda>pixel.
                    Return (repeat_bytes (w * h) pixel, tight_output_format pf))
             else if w > MAX_WIDTH then Throw (DecodeError (TightTooWide w))
             else if comp_ctl = 0x09
             then (if \<not> st_jpeg_offered c then Throw (DecodeError TightJpegNotOffered)
                   else yield_from compact_length (\<lambda>len. Yield (int len) (\<lambda>block.
                     checked (decode_jpeg ex block w h) (\<lambda>rgb. Return (rgb, TPIXEL_FORMAT)))))
             else if comp_ctl AND 0x08 \<noteq> 0
             then (if comp_ctl \<in> {0x0A, 0x0E} then Throw (DecodeError TightBasicWithoutZlib)
                   else Throw (DecodeError (TightControl comp_ctl)))
             else tight_basic ex comp_ctl w h pf)))"

definition tight_encodings_offered :: "int list \<Rightarrow> ('z, 'm) client \<Rightarrow> ('z, 'm) client" where
  "tight_encodings_offered encodings c =
     c\<lparr>st_jpeg_offered := list_ex (\<lambda>e. e \<in> set jpeg_quality_encodings) encodings\<rparr>"

section \<open>Compact lengths\<close>

lemma or_push_bit_add:
  fixes a b :: nat
  assumes "a < 2 ^ k"
  shows "a OR push_bit k b = a + 2 ^ k * b"
proof -
  have "a AND push_bit k b = 0"
  proof (rule bit_eqI)
    fix n
    have "take_bit k a = a" using assms by (simp add: take_bit_nat_eq_self)
    then have "bit a n \<Longrightarrow> n < k" using bit_take_bit_iff [of k a n] by simp
    then show "bit (a AND push_bit k b) n = bit (0 :: nat) n"
      by (auto simp: bit_and_iff bit_push_bit_iff)
  qed
  then show ?thesis
    by (simp add: disjunctive_add_eq_or [symmetric] push_bit_eq_mult mult.commute)
qed

lemma low_seven_bits: "n AND 0x7F = n mod (128 :: nat)"
  using take_bit_eq_mask [of 7 n] by (simp add: take_bit_eq_mod mask_eq_exp_minus_1)

lemma eighth_bit: "n AND 0x80 = 0 \<longleftrightarrow> even (n div (128 :: nat))"
  using and_exp_eq_0_iff_not_bit [of n 7] by (simp add: bit_iff_odd)

lemma compact_length_value:
  "drive compact_length (b1 # bs) c =
     (if even (unat b1 div 128) then Finished (unat b1 mod 128) bs c
      else case bs of [] \<Rightarrow> Starved c
        | b2 # bs2 \<Rightarrow>
            if even (unat b2 div 128) then Finished (unat b1 mod 128 + 128 * (unat b2 mod 128)) bs2 c
            else case bs2 of [] \<Rightarrow> Starved c
              | b3 # bs3 \<Rightarrow>
                  Finished (unat b1 mod 128 + 128 * (unat b2 mod 128) + 16384 * unat b3) bs3 c)"
proof -
  have 7: "x mod 128 OR push_bit 7 y = x mod 128 + 128 * y" for x y :: nat
    using or_push_bit_add [of "x mod 128" 7 y] by simp
  have 14: "(x mod 128 + 128 * (y mod 128)) OR push_bit 14 z = x mod 128 + 128 * (y mod 128) + 16384 * z"
    for x y z :: nat
  proof -
    have "x mod 128 < 128" "y mod 128 < 128" by simp_all
    then have "x mod 128 + 128 * (y mod 128) < 2 ^ 14" by simp
    from or_push_bit_add [OF this] show ?thesis by simp
  qed
  show ?thesis
    by (auto simp: compact_length_def low_seven_bits eighth_bit 7 14 Let_def split: list.splits)
qed

text \<open>\<open>specs/tight-wire.md\<close>: seven bits a byte, little end first, eight in the third.\<close>

definition compact_bytes :: "nat \<Rightarrow> bytes" where
  "compact_bytes n =
     (if n < 128 then [word_of_nat n]
      else if n < 16384 then [word_of_nat (n mod 128 + 128), word_of_nat (n div 128)]
      else [word_of_nat (n mod 128 + 128), word_of_nat (n div 128 mod 128 + 128), word_of_nat (n div 16384)])"

lemma odd_with_bit: "x < 128 \<Longrightarrow> odd ((x + 128) div (128 :: nat)) \<and> (x + 128) mod 128 = x \<and> even (x div 128)"
proof -
  assume x: "x < 128"
  have "(x + 128) div 128 = 1" "x div 128 = 0" using x by (auto intro: div_nat_eqI)
  then show ?thesis using x by (simp only:) simp
qed

text \<open>
  Tight's compact lengths are read back as written. Every length below 2^22, in its one, two or
  three bytes, is what the decoder returns, and no byte more is consumed; and no sequence of bytes
  makes it return 2^22 or more, so a rectangle never asks for more than 4 MiB at once.
\<close>

theorem compact_length_roundtrip:
  assumes "n < 4194304"
  shows "drive compact_length (compact_bytes n @ rest) c = Finished n rest c \<and>
    (\<forall>bs a rest' c'. drive compact_length bs c = Finished a rest' c' \<longrightarrow> a < 4194304 \<and> c' = c)"
proof
  consider "n < 128" | "128 \<le> n" "n < 16384" | "16384 \<le> n" by linarith
  then show "drive compact_length (compact_bytes n @ rest) c = Finished n rest c"
  proof cases
    case 1
    then show ?thesis using odd_with_bit [of n] by (simp add: compact_bytes_def compact_length_value)
  next
    case 2
    have "n div 128 < 128" using 2 by auto
    moreover have "n mod 128 + 128 * (n div 128) = n" by simp
    ultimately show ?thesis
      using 2 odd_with_bit [of "n mod 128"] odd_with_bit [of "n div 128"]
      by (simp add: compact_bytes_def compact_length_value del: of_nat_add)
  next
    case 3
    have d: "n div 16384 < 256" using assms by auto
    have "n = n mod 128 + 128 * (n div 128)" "n div 128 = n div 128 mod 128 + 128 * (n div 128 div 128)"
      by simp_all
    moreover have "n div 128 div 128 = n div 16384" by (simp add: div_mult2_eq [symmetric])
    ultimately have "n mod 128 + 128 * (n div 128 mod 128) + 16384 * (n div 16384) = n" by linarith
    then show ?thesis
      using 3 d odd_with_bit [of "n mod 128"] odd_with_bit [of "n div 128 mod 128"]
      by (simp add: compact_bytes_def compact_length_value del: of_nat_add)
  qed
  show "\<forall>bs a rest' c'. drive compact_length bs c = Finished a rest' c' \<longrightarrow> a < 4194304 \<and> c' = c"
  proof (intro allI impI)
    fix bs a rest' c' assume d: "drive compact_length bs c = Finished a rest' c'"
    obtain b1 bs1 where bs: "bs = b1 # bs1"
      using d by (cases bs) (auto simp: compact_length_def)
    have "unat x mod 128 + 128 * (unat y mod 128) + 16384 * unat z < 4194304" for x y z :: byte
    proof -
      have "unat z < 256" using unsigned_less [of z] by simp
      moreover have "unat x mod 128 < 128" "unat y mod 128 < 128" by simp_all
      ultimately show ?thesis by linarith
    qed
    moreover have "unat x mod 128 + 128 * (unat y mod 128) < 4194304" "unat x mod 128 < 4194304" for x y :: byte
      using calculation [of x y 0] by simp_all
    ultimately show "a < 4194304 \<and> c' = c"
      using d unfolding bs compact_length_value by (auto split: if_splits list.splits)
  qed
qed

lemma compact_length_roundtrip_witness:
  "drive compact_length (compact_bytes 20000 @ [9]) () = Finished 20000 [9] ()"
  using compact_length_roundtrip [of 20000 "[9]" "()"] by simp

section \<open>Unpaletting is lookup\<close>

text \<open>Pillow's documented behaviour: merging single-band images interleaves their bytes pixel by pixel.\<close>

definition merges_bands :: "'z externals \<Rightarrow> bool" where
  "merges_bands ex \<longleftrightarrow> (\<forall>w h bands. (\<forall>band \<in> set bands. length band = w * h) \<longrightarrow>
     merge_bands ex w h bands = concat (map (\<lambda>i. map (\<lambda>band. band ! i) bands) [0..<w * h]))"

lemma stored_merges: "merges_bands stored_externals"
  by (simp add: merges_bands_def stored_externals_def)

definition mono_index :: "byte \<Rightarrow> nat \<Rightarrow> nat" where
  "mono_index b k = unat b div 2 ^ (7 - k) mod 2"

lemma mono_table_nth:
  "mono_table zero one ! unat b = concat (map (\<lambda>k. [zero, one] ! mono_index b k) [0..<8])"
proof -
  have "unat b < 256" using unsigned_less [of b] by simp
  then have all: "(map word_of_nat [0..<256] :: byte list) ! unat b = b" and
    lt: "unat b < length (map word_of_nat [0..<256] :: byte list)" by simp_all
  have "drop_bit k (0x80 :: byte) = 2 ^ (7 - k)" if "k < 8" for k
  proof -
    have "k \<in> {0, 1, 2, 3, 4, 5, 6, 7}" using that by auto
    then show ?thesis by auto
  qed
  then have "b AND drop_bit k 0x80 \<noteq> 0 \<longleftrightarrow> bit b (7 - k)" if "k < 8" for k
    using that by (simp add: and_exp_eq_0_iff_not_bit)
  moreover have "bit b j \<longleftrightarrow> odd (unat b div 2 ^ j)" for j
  proof -
    have "bit (unat b) j \<longleftrightarrow> bit b j" by (simp add: bit_unsigned_iff)
    then show ?thesis by (simp add: bit_iff_odd)
  qed
  ultimately have "(if b AND drop_bit k 0x80 \<noteq> 0 then one else zero) = [zero, one] ! mono_index b k"
    if "k < 8" for k
    using that by (simp add: mono_index_def mod2_eq_if)
  then have "map (\<lambda>k. if b AND drop_bit k 0x80 \<noteq> 0 then one else zero) [0..<8]
      = map (\<lambda>k. [zero, one] ! mono_index b k) [0..<8]"
    by (intro map_cong) auto
  then show ?thesis
    unfolding mono_table_def using lt all by (simp del: map_map map_eq_conv upt_Suc)
qed

lemma mono_indices:
  assumes "w \<le> length row * 8"
  shows "take w (concat (map (\<lambda>b. map (mono_index b) [0..<8]) row)) = map (packed_index 1 row) [0..<w]"
proof (rule nth_equalityI)
  have len: "length (concat (map (\<lambda>b. map (mono_index b) [0..<8]) row)) = length row * 8"
    by (intro length_concat_uniform) simp
  then show "length (take w (concat (map (\<lambda>b. map (mono_index b) [0..<8]) row)))
      = length (map (packed_index 1 row) [0..<w])" using assms by simp
  fix x assume "x < length (take w (concat (map (\<lambda>b. map (mono_index b) [0..<8]) row)))"
  then have x: "x < w" "x < length row * 8" using len by simp_all
  have "concat (map (\<lambda>b. map (mono_index b) [0..<8]) row) ! x
      = map (mono_index (row ! (x div 8))) [0..<8] ! (x mod 8)"
    using x(2) by (intro nth_concat_uniform) simp_all
  also have "\<dots> = mono_index (row ! (x div 8)) (x mod 8)" by simp
  finally show "take w (concat (map (\<lambda>b. map (mono_index b) [0..<8]) row)) ! x
      = map (packed_index 1 row) [0..<w] ! x"
    using x by (simp add: packed_index_def mono_index_def Let_def)
qed

lemma unpalette_mono:
  assumes p: "length p0 = n" "length p1 = n" and w: "w \<le> row_size * 8" and d: "length data = h * row_size"
    and ne: "data \<noteq> []"
  shows "unpalette ex data [p0, p1] w h row_size = Inr (concat (map (\<lambda>y. concat (map
    (\<lambda>x. [p0, p1] ! packed_index 1 (drop (y * row_size) data) x) [0..<w])) [0..<h]))"
proof -
  let ?t = "mono_table p0 p1" let ?g = "\<lambda>i. [p0, p1] ! i"
  let ?px = "concat (map (\<lambda>b. ?t ! unat b) data)" let ?padded = "row_size * 8 * n"
  have len2: "length (?g (mono_index b k)) = n" for b k
  proof -
    have "mono_index b k = 0 \<or> mono_index b k = 1" by (auto simp: mono_index_def)
    then show ?thesis using p by auto
  qed
  have f8: "length (?t ! unat b) = 8 * n" for b :: byte
    unfolding mono_table_nth
    using length_concat_uniform [of "[0..<8]" "\<lambda>k. ?g (mono_index b k)" n] len2 by simp
  have fc: "concat (map (\<lambda>b. ?t ! unat b) row) = concat (map ?g (concat (map (\<lambda>b. map (mono_index b) [0..<8]) row)))"
    for row
    by (induction row) (simp_all add: mono_table_nth comp_def del: upt_Suc)
  have row: "pslice (y * ?padded) (y * ?padded + w * n) ?px
      = concat (map (\<lambda>x. ?g (packed_index 1 (drop (y * row_size) data) x)) [0..<w])" if y: "y < h" for y
  proof -
    let ?row = "drop (y * row_size) data"
    have "(y + 1) * row_size \<le> h * row_size" using y by (intro mult_le_mono1) simp
    then have l: "w \<le> length ?row * 8" using w d by simp
    have "drop (y * ?padded) ?px = concat (map (\<lambda>b. ?t ! unat b) ?row)"
      using drop_concat_uniform [of data "\<lambda>b. ?t ! unat b" "8 * n" "y * row_size"] f8 by (simp add: ac_simps)
    then have "pslice (y * ?padded) (y * ?padded + w * n) ?px
        = take (w * n) (concat (map ?g (concat (map (\<lambda>b. map (mono_index b) [0..<8]) ?row))))"
      unfolding pslice_def fc by simp
    also have "\<dots> = concat (map ?g (take w (concat (map (\<lambda>b. map (mono_index b) [0..<8]) ?row))))"
      by (rule take_concat_uniform) (use len2 in auto)
    finally show ?thesis unfolding mono_indices [OF l] by (simp add: comp_def)
  qed
  have "length ?px = h * ?padded" using d f8 by (simp add: length_concat_uniform)
  then have whole: "?px = concat (map (\<lambda>y. pslice (y * ?padded) (y * ?padded + ?padded) ?px) [0..<h])"
    by (rule concat_pslices [symmetric])
  have un: "unpalette ex data [p0, p1] w h row_size =
      Inr (concat (map (\<lambda>y. pslice (y * ?padded) (y * ?padded + w * n) ?px) [0..<h]))"
    using ne p whole by (auto simp: unpalette_def Let_def simp del: map_eq_conv)
  have "map (\<lambda>y. pslice (y * ?padded) (y * ?padded + w * n) ?px) [0..<h]
      = map (\<lambda>y. concat (map (\<lambda>x. ?g (packed_index 1 (drop (y * row_size) data) x)) [0..<w])) [0..<h]"
    using row by (intro map_cong) auto
  then show ?thesis unfolding un by (simp only:)
qed

lemma filter_not_in_Nil: "filter (\<lambda>b. b \<notin> S) xs = [] \<longleftrightarrow> list_all (\<lambda>b. b \<in> S) xs"
  by (auto simp: filter_empty_conv list_all_iff)

lemma byte_in_range:
  assumes "k \<le> 256"
  shows "(b :: byte) \<in> set (map word_of_nat [0..<k]) \<longleftrightarrow> unat b < k"
proof
  assume "b \<in> set (map word_of_nat [0..<k])"
  then obtain i where "b = word_of_nat i" "i < k" by auto
  then show "unat b < k" using assms by simp
next
  assume "unat b < k"
  then show "b \<in> set (map word_of_nat [0..<k])" by (auto intro!: image_eqI [of _ _ "unat b"])
qed

lemma unpalette_indexed:
  assumes merge: "merges_bands ex" and pal: "length palette \<noteq> 2" "palette \<noteq> []" "length palette \<le> 256"
    and n: "\<And>p. p \<in> set palette \<Longrightarrow> length p = n" "n \<in> {1, 2, 3, 4}"
    and d: "length data = w * h" "data \<noteq> []"
  shows "unpalette ex data palette w h row_size =
    (if list_all (\<lambda>b. unat b < length palette) data
     then Inr (concat (map (\<lambda>b. palette ! unat b) data))
     else Inl (DecodeError (TightPaletteIndex (length palette))))"
proof (cases "list_all (\<lambda>b. unat b < length palette) data")
  case False
  then have "\<not> list_all (\<lambda>b. b \<in> set (map word_of_nat [0..<length palette])) data"
    using byte_in_range [OF pal(3)] by (simp add: list_all_iff del: set_map)
  then have "filter (\<lambda>b. b \<notin> set (map word_of_nat [0..<length palette])) data \<noteq> []"
    using filter_not_in_Nil by blast
  then show ?thesis
    using False pal d by (simp add: unpalette_def palette_tables_def Let_def del: set_map)
next
  case True
  let ?ch = "map (\<lambda>offset. map (\<lambda>entry. entry ! offset) palette @ replicate (256 - length palette) 0) [0..<n]"
  have n0: "length (palette ! 0) = n" using n(1) pal(2) by simp
  have ok: "unat b < length palette" if "b \<in> set data" for b using True that by (simp add: list_all_iff)
  have "list_all (\<lambda>b. b \<in> set (map word_of_nat [0..<length palette])) data"
    using byte_in_range [OF pal(3)] True by (simp add: list_all_iff del: set_map)
  then have f: "filter (\<lambda>b. b \<notin> set (map word_of_nat [0..<length palette])) data = []"
    using filter_not_in_Nil by blast
  have ch: "?ch ! off ! unat b = palette ! unat b ! off" if "b \<in> set data" "off < n" for b off
    using that ok [OF that(1)] by (simp add: nth_append)
  have un: "unpalette ex data palette w h row_size =
      (if n = 1 then Inr (map (\<lambda>b. ?ch ! 0 ! unat b) data)
       else Inr (merge_bands ex w h (map (\<lambda>c. map (\<lambda>b. c ! unat b) data) ?ch)))"
    using pal d n(2) f by (simp add: unpalette_def palette_tables_def Let_def n0 del: set_map upt_Suc) auto
  show ?thesis
  proof (cases "n = 1")
    case True
    have "map (\<lambda>b. ?ch ! 0 ! unat b) data = map (\<lambda>b. palette ! unat b ! 0) data"
      using ch [of _ 0] True by (intro map_cong) auto
    also have "\<dots> = concat (map (\<lambda>b. palette ! unat b) data)"
    proof -
      have "[palette ! unat b ! 0] = palette ! unat b" if "b \<in> set data" for b
      proof -
        have "length (palette ! unat b) = 1" using n(1) ok [OF that] True by simp
        then show ?thesis by (cases "palette ! unat b") auto
      qed
      then have "concat (map (\<lambda>b. [palette ! unat b ! 0]) data) = concat (map (\<lambda>b. palette ! unat b) data)"
        by (intro arg_cong [of _ _ concat] map_cong) auto
      then show ?thesis by (simp add: concat_map_singleton)
    qed
    finally show ?thesis using un True \<open>list_all (\<lambda>b. unat b < length palette) data\<close> by simp
  next
    case False
    let ?bands = "map (\<lambda>c. map (\<lambda>b. c ! unat b) data) ?ch"
    have "merge_bands ex w h ?bands = concat (map (\<lambda>i. map (\<lambda>band. band ! i) ?bands) [0..<w * h])"
      using merge d(1) unfolding merges_bands_def by (elim allE) (erule mp, auto)
    also have "map (\<lambda>i. map (\<lambda>band. band ! i) ?bands) [0..<w * h] = map (\<lambda>i. palette ! unat (data ! i)) [0..<w * h]"
    proof (rule map_cong [OF refl])
      fix i assume "i \<in> set [0..<w * h]"
      then have i: "i < length data" using d(1) by simp
      then have b: "data ! i \<in> set data" by simp
      show "map (\<lambda>band. band ! i) ?bands = palette ! unat (data ! i)"
      proof (rule nth_equalityI)
        show "length (map (\<lambda>band. band ! i) ?bands) = length (palette ! unat (data ! i))"
          using n(1) ok [OF b] by simp
        fix off assume "off < length (map (\<lambda>band. band ! i) ?bands)"
        then show "map (\<lambda>band. band ! i) ?bands ! off = palette ! unat (data ! i) ! off"
          using ch [OF b] i ok [OF b] by (simp add: nth_append)
      qed
    qed
    also have "map (\<lambda>i. palette ! unat (data ! i)) [0..<w * h] = map (\<lambda>b. palette ! unat b) data"
      using d(1) by (intro nth_equalityI) auto
    finally show ?thesis
      using un False \<open>list_all (\<lambda>b. unat b < length palette) data\<close> by simp
  qed
qed

text \<open>
  Tight's table-driven unpaletting is palette lookup. Given a palette of at most 256 entries of one
  to four bytes and the data its filter asks for, the result is, pixel by pixel and row by row, the
  palette entry at the pixel's index: one bit per pixel, rows padded to whole bytes, when there are
  two colours, a byte per pixel otherwise, where one index past the palette makes the whole
  rectangle an error.
\<close>

theorem unpalette_is_lookup:
  assumes "merges_bands ex" and "palette \<noteq> []" "length palette \<le> 256"
    and "list_all (\<lambda>p. length p = n) palette" "n \<in> {1, 2, 3, 4}"
    and "row_size = (if length palette = 2 then (w + 7) div 8 else w)" "length data = h * row_size"
  shows "unpalette ex data palette w h row_size =
    (if length palette = 2
     then Inr (concat (map (\<lambda>y. concat (map
       (\<lambda>x. palette ! packed_index 1 (drop (y * row_size) data) x) [0..<w])) [0..<h]))
     else if list_all (\<lambda>b. unat b < length palette) data
     then Inr (concat (map (\<lambda>b. palette ! unat b) data))
     else Inl (DecodeError (TightPaletteIndex (length palette))))"
proof (cases "data = []")
  case True
  have "h = 0 \<or> w = 0" using True assms(6,7) by (auto split: if_splits)
  then show ?thesis using True by (auto simp: unpalette_def)
next
  case False
  show ?thesis
  proof (cases "length palette = 2")
    case True
    then obtain p0 p1 where p: "palette = [p0, p1]" by (auto simp: length_Suc_conv numeral_2_eq_2)
    have "w \<le> row_size * 8" using assms(6) True by simp
    from unpalette_mono [OF _ _ this assms(7) False, of p0 n p1 ex] show ?thesis
      using assms(4) True by (simp add: p)
  next
    case pal: False
    have "length data = w * h" using assms(6,7) pal by (simp add: mult.commute)
    from unpalette_indexed [OF assms(1) pal assms(2,3) _ assms(5) this False] show ?thesis
      using assms(4) pal by (simp add: list_all_iff)
  qed
qed

lemma unpalette_is_lookup_witness:
  "unpalette stored_externals [0x80, 0] [[5], [6]] 2 2 1 = Inr [6, 5, 5, 5]"
proof -
  have r: "1 = (if length [[5], [6 :: byte]] = 2 then (2 + 7) div 8 else (2 :: nat))" by simp
  from unpalette_is_lookup [OF stored_merges _ _ _ _ r, of 1 "[0x80, 0]" 2]
  show ?thesis by (simp add: packed_index_def Let_def upt_rec)
qed

section \<open>The decompression loop\<close>

text \<open>
  Zlib's documented promise about a positive \<open>max_length\<close>: no more comes out, and input is kept back
  only when that limit was reached.
\<close>

definition keeps_max_length :: "'z externals \<Rightarrow> bool" where
  "keeps_max_length ex \<longleftrightarrow> (\<forall>z data m z' out tail. 0 < m \<longrightarrow>
     zlib_decompress ex z data m = Inr (z', out, tail) \<longrightarrow>
       length out \<le> m \<and> (tail \<noteq> [] \<longrightarrow> length out = m))"

lemma stored_keeps_max_length: "keeps_max_length stored_externals"
  by (auto simp: keeps_max_length_def stored_externals_def)

text \<open>
  C39: the loop of \<open>_decompress\<close> always returns, and in at most two calls to zlib. For any zlib that
  keeps its \<open>max_length\<close> promise it is this straight-line program: one call for the bytes the
  rectangle declares, and, when input was kept back, one more that must produce nothing.
\<close>

theorem decompress_two_calls:
  assumes "keeps_max_length ex" and "0 < wanted"
  shows "decompress ex stream_id z block wanted =
    (case zlib_decompress ex z block wanted of
       Inl e \<Rightarrow> Inl e
     | Inr (z1, out, tail) \<Rightarrow>
         if tail = []
         then (if length out \<noteq> wanted then Inl (DecodeError (TightShort stream_id (length out) wanted))
               else Inr (z1, out))
         else (case zlib_decompress ex z1 tail 1 of
                 Inl e \<Rightarrow> Inl e
               | Inr (z2, more_out, tail2) \<Rightarrow>
                   if more_out \<noteq> [] then Inl (DecodeError (TightExcess stream_id wanted))
                   else Inr (z2, out)))"
proof (cases "zlib_decompress ex z block wanted")
  case (Inl e)
  then show ?thesis using assms(2) by (simp add: decompress_def decompress_loop.simps)
next
  case (Inr r)
  obtain z1 out tail where r: "r = (z1, out, tail)" by (cases r)
  have "length out = wanted" if "tail \<noteq> []"
    using assms Inr r that by (auto simp: keeps_max_length_def)
  moreover have "decompress_loop ex stream_id wanted z block [] =
      (if tail = [] then Some (Inr (z1, out)) else decompress_loop ex stream_id wanted z1 tail out)"
    using assms(2) Inr r by (subst decompress_loop.simps) simp
  moreover have "decompress_loop ex stream_id wanted z1 tail out =
      (case zlib_decompress ex z1 tail 1 of
         Inl e \<Rightarrow> Some (Inl e)
       | Inr r \<Rightarrow> if fst (snd r) \<noteq> [] then Some (Inl (DecodeError (TightExcess stream_id wanted)))
                 else Some (Inr (fst r, out)))" if "length out = wanted"
    using that by (subst decompress_loop.simps) simp
  ultimately show ?thesis
    using Inr r by (auto simp: decompress_def split: sum.splits prod.splits)
qed

lemma decompress_two_calls_witness:
  "decompress stored_externals 0 () [1, 2, 3] 3 = Inr ((), [1, 2, 3]) \<and>
   decompress stored_externals 0 () [1, 2, 3] 2 = Inl (DecodeError (TightExcess 0 2))"
proof -
  have p: "(0 :: nat) < 3" "(0 :: nat) < 2" by simp_all
  show ?thesis
    unfolding decompress_two_calls [OF stored_keeps_max_length p(1)]
      decompress_two_calls [OF stored_keeps_max_length p(2)]
    by (simp add: stored_externals_def)
qed

section \<open>Every finished rectangle has the right length\<close>

text \<open>Pillow: an RGB image of a size has three bytes for each of its pixels.\<close>

definition jpegs_are_rgb :: "'z externals \<Rightarrow> bool" where
  "jpegs_are_rgb ex \<longleftrightarrow> (\<forall>block w h rgb. read_jpeg ex block = Some (w, h, rgb) \<longrightarrow> length rgb = w * h * 3)"

lemma decompress_length: "decompress ex sid z block wanted = Inr (z', out) \<Longrightarrow> length out = wanted"
  by (auto simp: decompress_def split: option.splits sum.splits if_splits)

lemma drive_compact_client: "drive compact_length bs c = Finished len rest c' \<Longrightarrow> c' = c"
  by (auto simp: compact_length_def Let_def split: if_splits)

lemma tight_data_length:
  "drive (tight_data ex sid n) bs c = Finished data rest c' \<Longrightarrow> length data = n"
  by (auto simp: tight_data_def drive_yield_from Let_def drive_Yield_nat
      dest!: decompress_length split: if_splits outcome.splits sum.splits)

lemma unpalette_length:
  assumes merge: "merges_bands ex" and pal: "palette \<noteq> []" "length palette \<le> 256"
    "\<And>p. p \<in> set palette \<Longrightarrow> length p = n"
    and d: "length data = h * (if length palette = 2 then (w + 7) div 8 else w)"
    and ok: "unpalette ex data palette w h (if length palette = 2 then (w + 7) div 8 else w) = Inr px"
  shows "length px = w * h * n"
proof (cases "data = []")
  case True
  have "h = 0 \<or> w = 0" using True d by (auto split: if_splits)
  then show ?thesis using ok True by (auto simp: unpalette_def)
next
  case False
  show ?thesis
  proof (cases "length palette = 2")
    case True
    then obtain p0 p1 where p: "palette = [p0, p1]" by (auto simp: length_Suc_conv numeral_2_eq_2)
    have e: "length ([p0, p1] ! packed_index 1 row x) = n" for row x
    proof -
      have "packed_index 1 row x = 0 \<or> packed_index 1 row x = 1" by (auto simp: packed_index_def Let_def)
      then show ?thesis using pal(3) p by auto
    qed
    have "px = concat (map (\<lambda>y. concat (map
        (\<lambda>x. [p0, p1] ! packed_index 1 (drop (y * ((w + 7) div 8)) data) x) [0..<w])) [0..<h])"
      using unpalette_mono [of p0 n p1 w "(w + 7) div 8" data h ex] ok pal(3) d False True
      by (simp add: p)
    moreover have "length (concat (map (\<lambda>x. [p0, p1] ! packed_index 1 row x) [0..<w])) = w * n" for row
      using length_concat_uniform [of "[0..<w]" "\<lambda>x. [p0, p1] ! packed_index 1 row x" n] e by simp
    ultimately show ?thesis
      using length_concat_uniform [of "[0..<h]" "\<lambda>y. concat (map
        (\<lambda>x. [p0, p1] ! packed_index 1 (drop (y * ((w + 7) div 8)) data) x) [0..<w])" "w * n"]
      by (simp add: ac_simps)
  next
    case p2: False
    then have len: "length data = w * h" using d by (simp add: mult.commute)
    have n0: "length (palette ! 0) = n" using pal by simp
    have "n \<in> {1, 2, 3, 4}"
      using ok p2 False n0
      by (auto simp: unpalette_def palette_tables_def Let_def split: if_splits)
    from unpalette_indexed [OF merge p2 pal(1,2) _ this len False, of "(if length palette = 2 then (w + 7) div 8 else w)"]
    have all: "list_all (\<lambda>b. unat b < length palette) data" and
      px: "px = concat (map (\<lambda>b. palette ! unat b) data)"
      using ok pal(3) by (auto split: if_splits)
    have "length (palette ! unat b) = n" if "b \<in> set data" for b
      using all that pal(3) by (simp add: list_all_iff)
    then show ?thesis unfolding px using length_concat_uniform [of data "\<lambda>b. palette ! unat b" n] len by simp
  qed
qed

lemma tight_output_bypp: "bypp (tight_output_format pf) = tpixel_bytes pf"
  by (auto simp: tight_output_format_def tpixel_bytes_def TPIXEL_FORMAT_def bypp_def)

lemma tight_palette_length:
  assumes merge: "merges_bands ex" and k: "0 < k" "k \<le> 256" and raw: "length raw = k * tpixel_bytes pf"
    and d: "drive (tight_palette ex sid w h pf k raw) bs c = Finished (px, fmt) rest c'"
  shows "fmt = tight_output_format pf \<and> length px = w * h * tpixel_bytes pf"
proof -
  let ?t = "tpixel_bytes pf"
  let ?pal = "map (\<lambda>i. pslice (i * ?t) ((i + 1) * ?t) raw) [0..<k]"
  let ?row = "if length ?pal = 2 then (w + 7) div 8 else w"
  have pal: "?pal \<noteq> []" "length ?pal \<le> 256" "length ?pal = k" using k by simp_all
  have "length p = ?t" if p: "p \<in> set ?pal" for p
  proof -
    obtain i where i: "i < k" "p = pslice (i * ?t) ((i + 1) * ?t) raw" using p by auto
    have "(i + 1) * ?t \<le> k * ?t" using i(1) by (intro mult_le_mono1) simp
    then show ?thesis using raw by (simp add: i(2) algebra_simps)
  qed
  note u = unpalette_length [OF merge pal(1,2) this]
  have "drive (yield_from (tight_data ex sid (h * ?row)) (\<lambda>data.
      checked (unpalette ex data ?pal w h ?row) (\<lambda>px. Return (px, tight_output_format pf)))) bs c
    = Finished (px, fmt) rest c'"
    using d by (simp only: tight_palette_def Let_def pal(3))
  then obtain data where "length data = h * ?row" "unpalette ex data ?pal w h ?row = Inr px"
    "fmt = tight_output_format pf"
    unfolding drive_yield_from
    by (auto dest: tight_data_length simp del: length_map split: outcome.splits sum.splits)
  with u show ?thesis by blast
qed

lemma tight_filtered_length:
  assumes merge: "merges_bands ex"
    and d: "drive (tight_filtered ex sid w h pf f) bs c = Finished (px, fmt) rest c'"
  shows "fmt = tight_output_format pf \<and> length px = w * h * tpixel_bytes pf"
proof -
  consider "f = 0" | "f = 1" | "f \<noteq> 0" "f \<noteq> 1" by blast
  then show ?thesis
  proof cases
    case 1
    then show ?thesis
      using d by (auto simp: tight_filtered_def drive_yield_from dest!: tight_data_length
          split: outcome.splits)
  next
    case 2
    then obtain b bs1 where bs: "bs = b # bs1" using d by (cases bs) (auto simp: tight_filtered_def Let_def)
    let ?k = "unat b + 1" let ?m = "?k * tpixel_bytes pf"
    have l: "?m \<le> length bs1" and
      d': "drive (tight_palette ex sid w h pf ?k (take ?m bs1)) (drop ?m bs1) c
        = Finished (px, fmt) rest c'"
      using d 2 by (auto simp: bs tight_filtered_def Let_def drive_Yield_nat simp del: of_nat_mult mult_Suc
          split: if_splits)
    have "unat b < 256" using unsigned_less [of b] by simp
    then have k: "0 < ?k" "?k \<le> 256" by simp_all
    have "length (take ?m bs1) = ?m" using l by simp
    from tight_palette_length [OF merge k this d'] show ?thesis .
  next
    case 3
    then show ?thesis using d by (auto simp: tight_filtered_def split: if_splits)
  qed
qed

lemma tight_rect_paste:
  assumes "merges_bands ex" and "jpegs_are_rgb ex"
    and d: "drive (whole_rect_decode (tight_rect ex) (x, y, w, h) pf) bs c = Finished out rest c'"
  shows "\<exists>px fmt. out = Outcome True (Some (px, fmt)) \<and> length px = w * h * bypp fmt"
proof -
  obtain px fmt where out: "out = Outcome True (Some (px, fmt))" and
    d1: "drive (tight_rect ex w h pf) bs c = Finished (px, fmt) rest c'"
    using d by (auto simp: whole_rect_decode_def drive_yield_from split: sum.splits outcome.splits)
  obtain b bs1 where bs: "bs = b # bs1" using d1 by (cases bs) (auto simp: tight_rect_def)
  let ?cc = "unat (drop_bit 4 b)"
  let ?c = "c\<lparr>st_tight := reset_streams b (st_tight c)\<rparr>"
  consider (fill) "?cc = 0x08" | (jpeg) "?cc = 0x09" | (basic) "?cc \<noteq> 0x08" "?cc \<noteq> 0x09" by blast
  then have "length px = w * h * bypp fmt"
  proof cases
    case fill
    then show ?thesis
      using d1 by (auto simp: bs tight_rect_def Let_def tight_output_bypp split: if_splits)
  next
    case jpeg
    then obtain block where "decode_jpeg ex block w h = Inr px" "fmt = TPIXEL_FORMAT"
      using d1 by (auto simp: bs tight_rect_def Let_def drive_yield_from split: if_splits outcome.splits sum.splits)
    then show ?thesis
      using assms(2) by (auto simp: decode_jpeg_def jpegs_are_rgb_def TPIXEL_FORMAT_def bypp_def
          split: option.splits if_splits)
  next
    case basic
    have "drive (tight_basic ex ?cc w h pf) bs1 ?c = Finished (px, fmt) rest c'"
      using d1 basic by (auto simp: bs tight_rect_def Let_def split: if_splits)
    then obtain f bs' where "drive (tight_filtered ex (?cc AND 3) w h pf f) bs' ?c = Finished (px, fmt) rest c'"
      by (auto simp: tight_basic_def Let_def split: if_splits)
    from tight_filtered_length [OF assms(1) this] show ?thesis by (simp add: tight_output_bypp)
  qed
  with out show ?thesis by blast
qed

text \<open>
  No lossy image is pasted unless it was asked for. While no JPEG quality level has been offered,
  a rectangle whose control byte says JPEG fails before any of its data is asked for; offering a
  level is the only thing that changes that.
\<close>

theorem jpeg_only_when_offered:
  "drive (tight_rect ex w h pf) (b # bs)
     (tight_encodings_offered encodings (c :: ('z, 'm) client)) = Finished (px, fmt) rest c' \<and>
   unat (drop_bit 4 b) = 0x09 \<Longrightarrow>
   (\<exists>e \<in> set encodings. e \<in> set jpeg_quality_encodings) \<and> w \<le> MAX_WIDTH"
  by (auto simp: tight_rect_def tight_encodings_offered_def Let_def list_ex_iff split: if_splits)

lemma jpeg_only_when_offered_witness:
  "(\<exists>e \<in> set [-32]. e \<in> set jpeg_quality_encodings) \<and> (1 :: nat) \<le> MAX_WIDTH"
proof -
  let ?ex = "stored_externals\<lparr>read_jpeg := (\<lambda>data. Some (1, 1, [1, 2, 3]))\<rparr>"
  have "\<exists>px fmt rest c'. drive (tight_rect ?ex 1 1 TPIXEL_FORMAT) (0x90 # [1, 9])
     (tight_encodings_offered [-32] (rfb_init ?ex)) = Finished (px, fmt) rest c' \<and>
     unat (drop_bit 4 (0x90 :: byte)) = 0x09"
    by (simp add: tight_rect_def tight_encodings_offered_def jpeg_quality_encodings_def MAX_WIDTH_def
        compact_length_def decode_jpeg_def Let_def rfb_init_def)
  then show ?thesis using jpeg_only_when_offered by blast
qed

end
