(* ===== verification/Decoders.thy ===== *)
theory Decoders
  imports SimpleDecoders Hextile Zrle Tight
begin

text \<open>
  \<open>vncdotool/decoders/__init__.py\<close>: which decoder reads which encoding, and the names the command
  line accepts.  The theorems about all of them at once are here: none asks for a negative number
  of bytes, every paste has the length the pump checks, and the reused store is never seen.
\<close>

section \<open>The registry\<close>

definition decoder_for ::
  "'z externals \<Rightarrow> ('z, 'm) client hooks \<Rightarrow> int \<Rightarrow>
     (rect \<Rightarrow> pixel_format \<Rightarrow> (('z, 'm) client, rect_outcome) gen) option" where
  "decoder_for ex hk encoding =
     (if encoding = RAW then Some raw_decode
      else if encoding = COPY_RECTANGLE then Some (client_decode (copyrect_decode_for_client hk))
      else if encoding = RRE then Some (pixel_decode ex (rre_pixels rre_coords))
      else if encoding = CORRE then Some (pixel_decode ex (rre_pixels corre_coords))
      else if encoding = HEXTILE then Some (pixel_decode ex hextile_pixels)
      else if encoding = ZRLE then Some (pixel_decode ex (zrle_pixels ex))
      else if encoding = TIGHT then Some (whole_rect_decode (tight_rect ex))
      else if encoding = PSEUDO_CURSOR then Some (client_decode (cursor_decode_for_client hk))
      else if encoding = PSEUDO_DESKTOP_SIZE then Some (control_decode (desktop_size_control hk))
      else if encoding = PSEUDO_POINTER_POS then Some (control_decode (pointer_pos_control hk))
      else if encoding = PSEUDO_QEMU_EXTENDED_KEY_EVENT then Some (control_decode qemu_key_control)
      else None)"

definition encoding_names :: "(string \<times> int) list" where
  "encoding_names =
     [(''raw'', RAW), (''copyrect'', COPY_RECTANGLE), (''rre'', RRE), (''corre'', CORRE),
      (''hextile'', HEXTILE), (''zrle'', ZRLE), (''tight'', TIGHT)]"

definition default_encodings :: "int list" where
  "default_encodings = map (\<lambda>name. the (map_of encoding_names name)) [''tight'', ''hextile'', ''raw'']"

lemma decoder_for_cases:
  assumes "decoder_for ex hk encoding = Some dec"
  obtains "dec = raw_decode"
  | "dec = client_decode (copyrect_decode_for_client hk)"
  | "dec = pixel_decode ex (rre_pixels rre_coords)"
  | "dec = pixel_decode ex (rre_pixels corre_coords)"
  | "dec = pixel_decode ex hextile_pixels"
  | "dec = pixel_decode ex (zrle_pixels ex)"
  | "dec = whole_rect_decode (tight_rect ex)"
  | "dec = client_decode (cursor_decode_for_client hk)"
  | "dec = control_decode (desktop_size_control hk)"
  | "dec = control_decode (pointer_pos_control hk)"
  | "dec = control_decode qemu_key_control"
  using assms by (auto simp: decoder_for_def split: if_splits)

section \<open>No decoder asks for a negative number of bytes\<close>

abbreviation nonneg :: "('c, 'a) gen \<Rightarrow> bool" where
  "nonneg \<equiv> requests_all (\<lambda>n. 0 \<le> n)"

lemma nonneg_pixel_decode:
  "(\<And>t. nonneg (dp t pf)) \<Longrightarrow> nonneg (pixel_decode ex dp r pf)"
  by (cases r) (auto simp: pixel_decode_def split_def intro!: request_intros)

lemma nonneg_whole_rect:
  "(\<And>w h. nonneg (dr w h pf)) \<Longrightarrow> nonneg (whole_rect_decode dr r pf)"
  by (cases r) (auto simp: whole_rect_decode_def split_def intro!: request_intros)

lemma nonneg_rre: "nonneg (rre_pixels cs t pf)"
  unfolding rre_pixels_def Let_def by (intro request_intros) auto

lemma nonneg_hextile_tile: "nonneg (hextile_tile n t bg fg u)"
proof -
  have fg: "nonneg (hextile_foreground n t sub b f p block v)" for sub b f p block v
    unfolding hextile_foreground_def Let_def split_def by (intro request_intros) auto
  have "nonneg (hextile_body n t sub bg fg block u)" for sub block
    unfolding hextile_body_def Let_def split_def by (intro request_intros fg)
  then show ?thesis
    unfolding hextile_tile_def Let_def split_def by (intro request_intros) auto
qed

lemma nonneg_hextile: "nonneg (hextile_pixels t pf)"
proof -
  have "nonneg (hextile_tiles n ts bg fg u)" for n ts bg fg u
    by (induction n ts bg fg u rule: hextile_tiles.induct)
      (auto intro!: requests_yield_from nonneg_hextile_tile)
  then show ?thesis by (simp add: hextile_pixels_def)
qed

lemma nonneg_zrle: "nonneg (zrle_pixels ex t pf)"
  unfolding zrle_pixels_def split_def by (intro request_intros) auto

lemma nonneg_compact: "nonneg compact_length"
  unfolding compact_length_def Let_def by (intro request_intros) auto

lemma nonneg_tight: "nonneg (tight_rect ex w h pf)"
proof -
  have data: "nonneg (tight_data ex sid n)" for sid n
    unfolding tight_data_def Let_def split_def by (intro request_intros nonneg_compact) auto
  have pal: "nonneg (tight_palette ex sid w h pf k raw)" for sid k raw
    unfolding tight_palette_def Let_def by (intro request_intros data)
  have "nonneg (tight_filtered ex sid w h pf f)" for sid f
    unfolding tight_filtered_def Let_def by (intro request_intros data pal) auto
  then have "nonneg (tight_basic ex cc w h pf)" for cc
    unfolding tight_basic_def Let_def by (intro request_intros) auto
  then show ?thesis
    unfolding tight_rect_def Let_def by (intro request_intros nonneg_compact) auto
qed

lemma decoder_nonneg:
  assumes "decoder_for ex hk encoding = Some dec"
  shows "nonneg (dec r pf)"
proof -
  obtain x y w h where r: "r = (x, y, w, h)" by (cases r)
  show ?thesis
    by (rule decoder_for_cases [OF assms])
      (auto simp: r raw_decode_def client_decode_def copyrect_decode_for_client_def
        cursor_decode_for_client_def control_decode_def Let_def
        intro!: request_intros nonneg_pixel_decode nonneg_whole_rect nonneg_rre nonneg_hextile
          nonneg_zrle nonneg_tight)
qed

section \<open>What every decoder hands over\<close>

lemma decoder_paste:
  assumes "merges_bands ex" and "jpegs_are_rgb ex"
    and dec: "decoder_for ex hk encoding = Some dec"
  shows "(\<forall>bs rest c' changed px fmt.
      drive (dec (x, y, w, h) (st_pixfmt c)) bs c = Finished (Outcome changed (Some (px, fmt))) rest c' \<longrightarrow>
        changed \<and> length px = w * h * bypp fmt) \<and>
    (\<forall>bs n c'. drive (dec (x, y, w, h) (st_pixfmt c)) bs c \<noteq> BadRequest n c')"
proof (intro conjI allI impI)
  show "drive (dec (x, y, w, h) (st_pixfmt c)) bs c \<noteq> BadRequest n c'" for bs n c'
    by (rule requests_never_bad) (rule decoder_nonneg [OF dec])
  fix bs rest c' changed px fmt
  assume d: "drive (dec (x, y, w, h) (st_pixfmt c)) bs c = Finished (Outcome changed (Some (px, fmt))) rest c'"
  have "changed \<and> length px = w * h * bypp fmt"
  proof (rule decoder_for_cases [OF dec])
    assume "dec = raw_decode"
    then show ?thesis using d by (auto simp: raw_decode_def drive_Yield_nat simp del: of_nat_mult split: sum.splits if_splits)
  next
    assume "dec = pixel_decode ex (rre_pixels rre_coords)"
    then show ?thesis using d rre.decode_paste by fastforce
  next
    assume "dec = pixel_decode ex (rre_pixels corre_coords)"
    then show ?thesis using d corre.decode_paste by fastforce
  next
    assume "dec = pixel_decode ex hextile_pixels"
    then show ?thesis using d hextile.decode_paste by fastforce
  next
    assume "dec = pixel_decode ex (zrle_pixels ex)"
    then show ?thesis using d zrle.decode_paste by fastforce
  next
    assume "dec = whole_rect_decode (tight_rect ex)"
    then show ?thesis using d tight_rect_paste [OF assms(1,2)] by fastforce
  qed (use d in \<open>auto simp: client_decode_def control_decode_def drive_yield_from split: outcome.splits sum.splits\<close>)
  then show "changed" "length px = w * h * bypp fmt" by simp_all
qed

section \<open>Properties of every decoder\<close>

text \<open>
  the pump's check on what a decoder produced never fails. For every registered encoding, every
  rectangle and every stream, a finished decoder that hands over pixels hands over exactly
  \<open>width * height\<close> of them in the format it names, and no decoder ever asks for a negative number
  of bytes.
\<close>

theorem paste_length_always_right:
  assumes "merges_bands ex" and "jpegs_are_rgb ex"
    and dec: "decoder_for ex hk encoding = Some dec"
  shows "(\<forall>bs rest c' changed px fmt.
      drive (dec (x, y, w, h) (st_pixfmt c)) bs c = Finished (Outcome changed (Some (px, fmt))) rest c' \<longrightarrow>
        changed \<and> length px = w * h * bypp fmt) \<and>
    (\<forall>bs n c'. drive (dec (x, y, w, h) (st_pixfmt c)) bs c \<noteq> BadRequest n c')"
  using decoder_paste [OF assms] by blast

lemma paste_length_always_right_witness:
  "\<exists>dec. decoder_for stored_externals (base_hooks Inr) RAW = Some dec \<and>
     drive (dec (0, 0, 1, 1) (st_pixfmt (rfb_init stored_externals))) [1, 2, 3, 4, 77]
       (rfb_init stored_externals)
     = Finished (Outcome True (Some ([1, 2, 3, 4], default_pixel_format))) [77]
         (rfb_init stored_externals) \<and>
     length [1, 2, 3, 4 :: byte] = 1 * 1 * bypp default_pixel_format"
proof -
  have dec: "decoder_for stored_externals (base_hooks Inr) RAW = Some raw_decode"
    by (simp add: decoder_for_def)
  have d: "drive (raw_decode (0, 0, 1, 1) (st_pixfmt (rfb_init stored_externals))) [1, 2, 3, 4, 77]
      (rfb_init stored_externals)
    = Finished (Outcome True (Some ([1, 2, 3, 4], default_pixel_format))) [77] (rfb_init stored_externals)"
    by (simp add: raw_decode_def requireFits_def fit_limits_def rfb_init_def MAX_DESKTOP_SIZE_def
        default_pixel_format_def bypp_def)
  have j: "jpegs_are_rgb stored_externals" by (simp add: jpegs_are_rgb_def stored_externals_def)
  from paste_length_always_right [OF stored_merges j dec] d
  have "length [1, 2, 3, 4 :: byte] = 1 * 1 * bypp default_pixel_format" by blast
  with dec d show ?thesis by blast
qed

text \<open>
  C34: the store that rectangles share is never seen. For each encoding that decodes into it, a
  finished rectangle gives the same outcome and leaves the same bytes of the stream whatever earlier
  rectangles left there.
\<close>

theorem reused_store_never_seen:
  assumes "encoding \<in> {RRE, CORRE, HEXTILE, ZRLE}"
    and "decoder_for ex hk encoding = Some dec"
    and "drive (dec (x, y, w, h) pf) bs c = Finished out rest c'"
    and "can_allocate ex (w * h * bypp (st_pixfmt c))"
  shows "\<exists>c''. drive (dec (x, y, w, h) pf) bs (c\<lparr>st_rect_backing := store\<rparr>) = Finished out rest c''"
proof -
  consider "dec = pixel_decode ex (rre_pixels rre_coords)" | "dec = pixel_decode ex (rre_pixels corre_coords)"
    | "dec = pixel_decode ex hextile_pixels" | "dec = pixel_decode ex (zrle_pixels ex)"
    using assms(1,2) by (auto simp: decoder_for_def)
  then show ?thesis
  proof cases
    case 1
    with rre.decode_ignores_store assms(3,4) show ?thesis by blast
  next
    case 2
    with corre.decode_ignores_store assms(3,4) show ?thesis by blast
  next
    case 3
    with hextile.decode_ignores_store assms(3,4) show ?thesis by blast
  next
    case 4
    with zrle.decode_ignores_store assms(3,4) show ?thesis by blast
  qed
qed

lemma reused_store_never_seen_witness:
  "\<exists>dec out c''. decoder_for stored_externals (base_hooks Inr) HEXTILE = Some dec \<and>
     drive (dec (0, 0, 1, 1) TPIXEL_FORMAT) [2, 5, 6, 7, 8, 77]
       ((rfb_init stored_externals)\<lparr>st_rect_backing := [9, 9, 9, 9, 9]\<rparr>) = Finished out [77] c''"
proof -
  let ?c = "rfb_init stored_externals"
  have dec: "decoder_for stored_externals (base_hooks Inr) HEXTILE = Some (pixel_decode stored_externals hextile_pixels)"
    by (simp add: decoder_for_def)
  have "\<exists>out c'. drive (pixel_decode stored_externals hextile_pixels (0, 0, 1, 1) TPIXEL_FORMAT)
      [2, 5, 6, 7, 8, 77] ?c = Finished out [77] c'"
    by (simp add: pixel_decode_def rectBuffer_def requireFits_def fit_limits_def rfb_init_def
        MAX_DESKTOP_SIZE_def default_pixel_format_def bypp_def rect_buffer_init_def stored_externals_def
        hextile_pixels_def tiles_def py_range_def hextile_tile_def hextile_body_def hextile_foreground_def
        has_bit_def Let_def fill_def check_bounds_def is_whole_def materialize_def clear_def)
  then obtain out c' where d: "drive (pixel_decode stored_externals hextile_pixels (0, 0, 1, 1) TPIXEL_FORMAT)
      [2, 5, 6, 7, 8, 77] ?c = Finished out [77] c'" by blast
  have m: "can_allocate stored_externals (1 * 1 * bypp (st_pixfmt ?c))" by (simp add: stored_externals_def)
  have h: "HEXTILE \<in> {RRE, CORRE, HEXTILE, ZRLE}" by simp
  from reused_store_never_seen [OF h dec d m] dec show ?thesis by blast
qed

end
