(* ===== verification/ClientMessages.thy ===== *)
theory ClientMessages
  imports Decoders
begin

text \<open>
  What the client says (\<open>rfb.py\<close>, the section \<open>client -> server messages\<close>): one operation per
  message, written as the \<open>struct.pack\<close> call of the source with its range checks, and the message
  grammar of RFC 6143 section 7.5 as an independent specification each of them is shown to meet.
\<close>

section \<open>\<open>struct.pack\<close>\<close>

text \<open>
  Unsigned big-endian fields, each with its width; a pad byte \<open>x\<close> is a field of value 0.  A value
  that does not fit raises \<open>struct.error\<close>.
\<close>

fun pack :: "(nat \<times> int) list \<Rightarrow> exn + bytes" where
  "pack [] = Inr []"
| "pack ((n, v) # fs) =
     (if 0 \<le> v \<and> v < 256 ^ n
      then (case pack fs of Inl e \<Rightarrow> Inl e | Inr bs \<Rightarrow> Inr (be_bytes n (nat v) @ bs))
      else Inl StructError)"

definition fits :: "(nat \<times> int) list \<Rightarrow> bool" where
  "fits fs \<longleftrightarrow> list_all (\<lambda>(n, v). 0 \<le> v \<and> v < 256 ^ n) fs"

lemma pack_eq:
  "pack fs = (if fits fs then Inr (concat (map (\<lambda>(n, v). be_bytes n (nat v)) fs))
                  else Inl StructError)"
  by (induction fs rule: pack.induct) (auto simp: fits_def)

lemma pack_length: "pack fs = Inr bs \<Longrightarrow> length bs = sum_list (map fst fs)"
  by (induction fs arbitrary: bs rule: pack.induct) (auto split: sum.splits if_splits)

text \<open>\<open>pack("!i", v)\<close>.\<close>

definition pack_i :: "int \<Rightarrow> exn + bytes" where
  "pack_i v = (if - 2147483648 \<le> v \<and> v < 2147483648 then Inr (be_bytes 4 (nat (v mod 4294967296)))
               else Inl StructError)"

definition write_packed :: "exn + bytes \<Rightarrow> ('z, 'm) client \<Rightarrow> exn + ('z, 'm) client" where
  "write_packed r c = (case r of Inl e \<Rightarrow> Inl e | Inr bs \<Rightarrow> Inr (transport_write bs c))"

section \<open>The operations\<close>

definition setPixelFormat :: "pixel_format \<Rightarrow> ('z, 'm) client \<Rightarrow> exn + ('z, 'm) client" where
  "setPixelFormat pf c =
     (if packable pf
      then Inr ((transport_write ([0, 0, 0, 0] @ to_bytes pf) c)\<lparr>st_pixfmt := pf\<rparr>)
      else Inl StructError)"

text \<open>Every decoder is told; all but Tight's keep the base class's method, which does nothing.\<close>

definition encodingsOffered :: "int list \<Rightarrow> ('z, 'm) client \<Rightarrow> ('z, 'm) client" where
  "encodingsOffered encodings c = tight_encodings_offered encodings c"

fun write_encodings :: "int list \<Rightarrow> ('z, 'm) client \<Rightarrow> exn + ('z, 'm) client" where
  "write_encodings [] c = Inr c"
| "write_encodings (e # es) c =
     (case write_packed (pack_i e) c of Inl x \<Rightarrow> Inl x | Inr c' \<Rightarrow> write_encodings es c')"

definition setEncodings :: "int list \<Rightarrow> ('z, 'm) client \<Rightarrow> exn + ('z, 'm) client" where
  "setEncodings encodings c =
     (case write_packed (pack [(1, 2), (1, 0), (2, int (length encodings))]) c of
        Inl e \<Rightarrow> Inl e
      | Inr c1 \<Rightarrow>
          (case write_encodings encodings c1 of
             Inl e \<Rightarrow> Inl e
           | Inr c2 \<Rightarrow> Inr (encodingsOffered encodings c2)))"

definition framebufferUpdateRequest ::
  "int \<Rightarrow> int \<Rightarrow> int option \<Rightarrow> int option \<Rightarrow> bool \<Rightarrow> ('z, 'm) client \<Rightarrow> exn + ('z, 'm) client" where
  "framebufferUpdateRequest x y width height incremental c =
     (let w = (case width of None \<Rightarrow> int (st_width c) - x | Some w \<Rightarrow> w);
          h = (case height of None \<Rightarrow> int (st_height c) - y | Some h \<Rightarrow> h)
      in write_packed (pack [(1, 3), (1, of_bool incremental), (2, x), (2, y), (2, w), (2, h)]) c)"

definition keyEvent :: "int \<Rightarrow> bool \<Rightarrow> ('z, 'm) client \<Rightarrow> exn + ('z, 'm) client" where
  "keyEvent key down c = write_packed (pack [(1, 4), (1, of_bool down), (1, 0), (1, 0), (4, key)]) c"

definition pointerEvent :: "int \<Rightarrow> int \<Rightarrow> int \<Rightarrow> ('z, 'm) client \<Rightarrow> exn + ('z, 'm) client" where
  "pointerEvent x y buttonmask c = write_packed (pack [(1, 5), (1, buttonmask), (2, x), (2, y)]) c"

text \<open>\<open>message.encode("iso-8859-1")\<close>.\<close>

definition encode_latin1 :: "unicode \<Rightarrow> exn + bytes" where
  "encode_latin1 s = (if list_all (\<lambda>p. p < 256) s then Inr (map word_of_nat s) else Inl UnicodeError)"

definition clientCutText :: "unicode \<Rightarrow> ('z, 'm) client \<Rightarrow> exn + ('z, 'm) client" where
  "clientCutText message c =
     (case encode_latin1 message of
        Inl e \<Rightarrow> Inl e
      | Inr d \<Rightarrow>
          (case pack [(1, 6), (1, 0), (1, 0), (1, 0), (4, int (length d))] of
             Inl e \<Rightarrow> Inl e
           | Inr header \<Rightarrow> Inr (transport_write (header @ d) c)))"

definition clientFence :: "int \<Rightarrow> bytes \<Rightarrow> ('z, 'm) client \<Rightarrow> exn + ('z, 'm) client" where
  "clientFence flags payload c =
     (case pack [(1, 248), (1, 0), (1, 0), (1, 0), (4, flags), (1, int (length payload))] of
        Inl e \<Rightarrow> Inl e
      | Inr header \<Rightarrow> Inr (transport_write (header @ payload) c))"

section \<open>The grammar of RFC 6143 section 7.5, and of the fence extension\<close>

text \<open>
  A specification independent of the operations: the messages as data, which of them the protocol
  can carry, and their layout, byte by byte.
\<close>

datatype client_message =
    SetPixelFormat pixel_format
  | SetEncodings "int list"
  | UpdateRequest bool nat nat nat nat
  | KeyEvent bool nat
  | PointerEvent nat nat nat
  | CutText bytes
  | Fence nat bytes

fun well_formed :: "client_message \<Rightarrow> bool" where
  "well_formed (SetPixelFormat pf) \<longleftrightarrow> packable pf"
| "well_formed (SetEncodings es) \<longleftrightarrow>
     length es < 65536 \<and> list_all (\<lambda>e. - 2147483648 \<le> e \<and> e < 2147483648) es"
| "well_formed (UpdateRequest inc x y w h) \<longleftrightarrow> x < 65536 \<and> y < 65536 \<and> w < 65536 \<and> h < 65536"
| "well_formed (KeyEvent down key) \<longleftrightarrow> key < 4294967296"
| "well_formed (PointerEvent buttons x y) \<longleftrightarrow> buttons < 256 \<and> x < 65536 \<and> y < 65536"
| "well_formed (CutText t) \<longleftrightarrow> length t < 4294967296"
| "well_formed (Fence flags payload) \<longleftrightarrow> flags < 4294967296 \<and> length payload < 256"

abbreviation signed_bytes :: "int \<Rightarrow> bytes" where
  "signed_bytes e \<equiv> be_bytes 4 (nat (e mod 4294967296))"

fun message_bytes :: "client_message \<Rightarrow> bytes" where
  "message_bytes (SetPixelFormat pf) = [0, 0, 0, 0] @ to_bytes pf"
| "message_bytes (SetEncodings es) =
     [2, 0] @ be_bytes 2 (length es) @ concat (map signed_bytes es)"
| "message_bytes (UpdateRequest inc x y w h) =
     [3, of_bool inc] @ be_bytes 2 x @ be_bytes 2 y @ be_bytes 2 w @ be_bytes 2 h"
| "message_bytes (KeyEvent down key) = [4, of_bool down, 0, 0] @ be_bytes 4 key"
| "message_bytes (PointerEvent buttons x y) = [5, word_of_nat buttons] @ be_bytes 2 x @ be_bytes 2 y"
| "message_bytes (CutText t) = [6, 0, 0, 0] @ be_bytes 4 (length t) @ t"
| "message_bytes (Fence flags payload) =
     [248, 0, 0, 0] @ be_bytes 4 flags @ [word_of_nat (length payload)] @ payload"

section \<open>Each operation writes its message\<close>

lemma be_bytes_numeral:
  "be_bytes (numeral k) v = be_bytes (pred_numeral k) (v div 256) @ [word_of_nat v]"
  by (subst numeral_eq_Suc) (rule be_bytes.simps(2))

lemma be_bytes_1 [simp]: "be_bytes (Suc 0) v = [word_of_nat v]"
  by simp

lemma write_encodings_ok:
  "list_all (\<lambda>e. - 2147483648 \<le> e \<and> e < 2147483648) es \<Longrightarrow>
     write_encodings es c = Inr (c\<lparr>st_written := st_written c @ map signed_bytes es\<rparr>)"
  by (induction es arbitrary: c) (auto simp: write_packed_def pack_i_def transport_write_def)

text \<open>The client that performs a message, as the code's operations do it.\<close>

fun perform :: "client_message \<Rightarrow> ('z, 'm) client \<Rightarrow> exn + ('z, 'm) client" where
  "perform (SetPixelFormat pf) c = setPixelFormat pf c"
| "perform (SetEncodings es) c = setEncodings es c"
| "perform (UpdateRequest inc x y w h) c =
     framebufferUpdateRequest (int x) (int y) (Some (int w)) (Some (int h)) inc c"
| "perform (KeyEvent down key) c = keyEvent (int key) down c"
| "perform (PointerEvent buttons x y) c = pointerEvent (int x) (int y) (int buttons) c"
| "perform (CutText t) c = clientCutText (map unat t) c"
| "perform (Fence flags payload) c = clientFence (int flags) payload c"

lemma encode_latin1_bytes [simp]: "encode_latin1 (map unat (t :: bytes)) = Inr t"
proof -
  have "unat b < 256" for b :: byte using unsigned_less [of b] by simp
  then show ?thesis by (simp add: encode_latin1_def list_all_iff comp_def)
qed

lemma perform_SetEncodings:
  assumes "well_formed (SetEncodings es)"
  shows "\<exists>c'. setEncodings es c = Inr c' \<and> sent c' = sent c @ message_bytes (SetEncodings es)"
  using assms
  by (auto simp: setEncodings_def write_packed_def write_encodings_ok encodingsOffered_def
      tight_encodings_offered_def sent_def transport_write_def)

lemma byte_bool: "word_of_nat (nat (of_bool b)) = (of_bool b :: byte)"
  by simp

lemma perform_writes:
  assumes "well_formed m"
  shows "\<exists>c'. perform m c = Inr c' \<and> sent c' = sent c @ message_bytes m"
proof (cases m)
  case (SetPixelFormat pf)
  then show ?thesis
    using assms by (simp add: setPixelFormat_def sent_def transport_write_def)
next
  case (SetEncodings es)
  then show ?thesis using perform_SetEncodings assms by auto
next
  case (UpdateRequest inc x y w h)
  then show ?thesis
    using assms by (simp add: framebufferUpdateRequest_def write_packed_def byte_bool)
next
  case (KeyEvent down key)
  then show ?thesis using assms by (simp add: keyEvent_def write_packed_def byte_bool)
next
  case (PointerEvent buttons x y)
  then show ?thesis using assms by (simp add: pointerEvent_def write_packed_def)
next
  case (CutText t)
  then show ?thesis using assms by (simp add: clientCutText_def)
next
  case (Fence flags payload)
  then show ?thesis using assms by (simp add: clientFence_def)
qed

lemma write_encodings_bad:
  "\<not> list_all (\<lambda>e. - 2147483648 \<le> e \<and> e < 2147483648) es \<Longrightarrow> write_encodings es c = Inl StructError"
  by (induction es arbitrary: c) (auto simp: write_packed_def pack_i_def)

lemma perform_refuses:
  assumes "\<not> well_formed m"
  shows "perform m c = Inl StructError"
proof (cases m)
  case (SetEncodings es)
  then show ?thesis
    using assms by (auto simp: setEncodings_def write_packed_def write_encodings_bad)
next
  case (SetPixelFormat pf)
  then show ?thesis using assms by (simp add: setPixelFormat_def)
next
  case (UpdateRequest inc x y w h)
  then show ?thesis using assms by (auto simp: framebufferUpdateRequest_def write_packed_def)
next
  case (KeyEvent down key)
  then show ?thesis using assms by (simp add: keyEvent_def write_packed_def)
next
  case (PointerEvent buttons x y)
  then show ?thesis using assms by (auto simp: pointerEvent_def write_packed_def)
next
  case (CutText t)
  then show ?thesis using assms by (simp add: clientCutText_def)
next
  case (Fence flags payload)
  then show ?thesis using assms by (auto simp: clientFence_def)
qed

text \<open>
  C27: what the client writes is the message of the protocol. Every operation, called with fields the
  protocol can carry, succeeds and appends exactly the bytes that RFC 6143 lays out for it; a field
  the protocol cannot carry is refused with an error.
\<close>

theorem operations_write_rfc_messages:
  "case perform m c of
     Inr c' \<Rightarrow> well_formed m \<and> sent c' = sent c @ message_bytes m
   | Inl e \<Rightarrow> \<not> well_formed m \<and> e = StructError"
  using perform_writes [of m c] perform_refuses [of m c] by (cases "well_formed m") auto

end
