(* ===== verification/Keys.thy ===== *)
theory Keys
  imports ClientMessages
begin

text \<open>
  \<open>vncdotool/keys.py\<close>: the keysyms, the names a script may use for them, and the reverse table with which
  \<open>loggingproxy.py\<close> names the keys it records. Key names are Python strings, lists of code points.
\<close>

definition uni :: "string \<Rightarrow> unicode" where
  "uni s = map of_char s"

text \<open>\<open>"%d"\<close>.\<close>

definition dec_text :: "nat \<Rightarrow> unicode" where
  "dec_text n = uni (show_base 10 n)"

definition key_members :: "(string \<times> nat) list" where
  "key_members =
    [(''BackSpace'', 0xFF08), (''Tab'', 0xFF09), (''Return'', 0xFF0D), (''Escape'', 0xFF1B),
     (''Insert'', 0xFF63), (''Delete'', 0xFFFF), (''Home'', 0xFF50), (''End'', 0xFF57),
     (''PageUp'', 0xFF55), (''PageDown'', 0xFF56), (''Left'', 0xFF51), (''Up'', 0xFF52),
     (''Right'', 0xFF53), (''Down'', 0xFF54), (''F1'', 0xFFBE), (''F2'', 0xFFBF), (''F3'', 0xFFC0),
     (''F4'', 0xFFC1), (''F5'', 0xFFC2), (''F6'', 0xFFC3), (''F7'', 0xFFC4), (''F8'', 0xFFC5),
     (''F9'', 0xFFC6), (''F10'', 0xFFC7), (''F11'', 0xFFC8), (''F12'', 0xFFC9), (''F13'', 0xFFCA),
     (''F14'', 0xFFCB), (''F15'', 0xFFCC), (''F16'', 0xFFCD), (''F17'', 0xFFCE), (''F18'', 0xFFCF),
     (''F19'', 0xFFD0), (''F20'', 0xFFD1), (''ShiftLeft'', 0xFFE1), (''ShiftRight'', 0xFFE2),
     (''ControlLeft'', 0xFFE3), (''ControlRight'', 0xFFE4), (''MetaLeft'', 0xFFE7),
     (''MetaRight'', 0xFFE8), (''AltLeft'', 0xFFE9), (''AltRight'', 0xFFEA), (''Scroll_Lock'', 0xFF14),
     (''Sys_Req'', 0xFF15), (''Num_Lock'', 0xFF7F), (''Caps_Lock'', 0xFFE5), (''Pause'', 0xFF13),
     (''Super_L'', 0xFFEB), (''Super_R'', 0xFFEC), (''Hyper_L'', 0xFFED), (''Hyper_R'', 0xFFEE),
     (''KP_0'', 0xFFB0), (''KP_1'', 0xFFB1), (''KP_2'', 0xFFB2), (''KP_3'', 0xFFB3), (''KP_4'', 0xFFB4),
     (''KP_5'', 0xFFB5), (''KP_6'', 0xFFB6), (''KP_7'', 0xFFB7), (''KP_8'', 0xFFB8), (''KP_9'', 0xFFB9),
     (''KP_Enter'', 0xFF8D), (''ForwardSlash'', 0x002F), (''BackSlash'', 0x005C), (''SpaceBar'', 0x0020)]"

definition key_of :: "string \<Rightarrow> nat" where
  "key_of name = the (map_of key_members name)"

definition KEYMAP :: "(string \<times> nat) list" where
  "KEYMAP =
    [(''bsp'', key_of ''BackSpace''), (''tab'', key_of ''Tab''), (''return'', key_of ''Return''),
     (''enter'', key_of ''Return''), (''esc'', key_of ''Escape''), (''ins'', key_of ''Insert''),
     (''delete'', key_of ''Delete''), (''del'', key_of ''Delete''), (''home'', key_of ''Home''),
     (''end'', key_of ''End''), (''pgup'', key_of ''PageUp''), (''pgdn'', key_of ''PageDown''),
     (''left'', key_of ''Left''), (''up'', key_of ''Up''), (''right'', key_of ''Right''),
     (''down'', key_of ''Down''), (''slash'', key_of ''BackSlash''), (''bslash'', key_of ''BackSlash''),
     (''fslash'', key_of ''ForwardSlash''), (''spacebar'', key_of ''SpaceBar''),
     (''space'', key_of ''SpaceBar''), (''sb'', key_of ''SpaceBar''), (''f1'', key_of ''F1''),
     (''f2'', key_of ''F2''), (''f3'', key_of ''F3''), (''f4'', key_of ''F4''), (''f5'', key_of ''F5''),
     (''f6'', key_of ''F6''), (''f7'', key_of ''F7''), (''f8'', key_of ''F8''), (''f9'', key_of ''F9''),
     (''f10'', key_of ''F10''), (''f11'', key_of ''F11''), (''f12'', key_of ''F12''),
     (''f13'', key_of ''F13''), (''f14'', key_of ''F14''), (''f15'', key_of ''F15''),
     (''f16'', key_of ''F16''), (''f17'', key_of ''F17''), (''f18'', key_of ''F18''),
     (''f19'', key_of ''F19''), (''f20'', key_of ''F20''), (''lshift'', key_of ''ShiftLeft''),
     (''shift'', key_of ''ShiftLeft''), (''rshift'', key_of ''ShiftRight''),
     (''lctrl'', key_of ''ControlLeft''), (''ctrl'', key_of ''ControlLeft''),
     (''rctrl'', key_of ''ControlRight''), (''lmeta'', key_of ''MetaLeft''),
     (''meta'', key_of ''MetaLeft''), (''rmeta'', key_of ''MetaRight''), (''lalt'', key_of ''AltLeft''),
     (''alt'', key_of ''AltLeft''), (''ralt'', key_of ''AltRight''), (''scrlk'', key_of ''Scroll_Lock''),
     (''sysrq'', key_of ''Sys_Req''), (''numlk'', key_of ''Num_Lock''), (''caplk'', key_of ''Caps_Lock''),
     (''pause'', key_of ''Pause''), (''lsuper'', key_of ''Super_L''), (''super'', key_of ''Super_L''),
     (''rsuper'', key_of ''Super_R''), (''lhyper'', key_of ''Hyper_L''), (''hyper'', key_of ''Hyper_L''),
     (''rhyper'', key_of ''Hyper_R''), (''kp0'', key_of ''KP_0''), (''kp1'', key_of ''KP_1''),
     (''kp2'', key_of ''KP_2''), (''kp3'', key_of ''KP_3''), (''kp4'', key_of ''KP_4''),
     (''kp5'', key_of ''KP_5''), (''kp6'', key_of ''KP_6''), (''kp7'', key_of ''KP_7''),
     (''kp8'', key_of ''KP_8''), (''kp9'', key_of ''KP_9''), (''kpenter'', key_of ''KP_Enter''),
     (''minus'', 45)]"

text \<open>\<open>KEYMAP.get(k)\<close>.\<close>

definition keymap_get :: "unicode \<Rightarrow> nat option" where
  "keymap_get k = map_of (map (\<lambda>(name, v). (uni name, v)) KEYMAP) k"

text \<open>\<open>{v: n for (n, v) in KEYMAP.items()}\<close>: of several names for a key the last one stays.\<close>

definition REVERSE_MAP :: "nat \<Rightarrow> unicode option" where
  "REVERSE_MAP v = map_of (rev (map (\<lambda>(name, v). (v, uni name)) KEYMAP)) v"

section \<open>Facts about the tables\<close>

lemma uni_eq [simp]: "uni s = uni t \<longleftrightarrow> s = t"
  by (auto simp: uni_def inj_def intro: map_injective [where f = of_char])

lemma key_of_member:
  assumes "name \<in> set (map fst key_members)"
  shows "key_of name \<in> snd ` set key_members"
proof -
  obtain v where "map_of key_members name = Some v"
    using assms by (metis map_of_eq_None_iff option.exhaust set_map)
  then show ?thesis
    by (auto simp: key_of_def image_iff dest!: map_of_SomeD intro: bexI [of _ "(name, v)"])
qed

lemma keymap_values: "list_all (\<lambda>(name, v). v = 45 \<or> v \<in> snd ` set key_members) KEYMAP"
  by (simp only: KEYMAP_def list.pred_inject prod.case) (intro conjI TrueI; (rule disjI2, rule key_of_member, simp add: key_members_def)?; simp)

lemma keymap_value:
  assumes "(name, v) \<in> set KEYMAP" "v \<noteq> 45"
  obtains n where "(n, v) \<in> set key_members"
proof -
  have "v \<in> snd ` set key_members" using keymap_values assms by (auto simp: list_all_iff)
  then show thesis using that by force
qed

end
