(* ===== verification/Messages.thy ===== *)
theory Messages
  imports ClientMessages
begin

text \<open>
  \<open>vncdotool/messages/\<close>: the server-to-client messages other than FramebufferUpdate, each a generator
  run by the pump once the message-type byte has been read (\<open>colourmap.py\<close>, \<open>simple.py\<close>,
  \<open>clipboard.py\<close>, \<open>fence.py\<close>), and the registry of \<open>messages/__init__.py\<close>.
\<close>

section \<open>The handlers\<close>

definition server_cut_text :: "('z, 'm) client hooks \<Rightarrow> (('z, 'm) client, unit) gen" where
  "server_cut_text hk =
     Yield 7 (\<lambda>block.
       let n = u32_at 3 block
       in checked (requirePayload n) (\<lambda>_.
            Yield (int n) (\<lambda>t. call_client (copy_text hk t) (Return ()))))"

definition set_colour_map_entries :: "('z, 'm) client hooks \<Rightarrow> (('z, 'm) client, unit) gen" where
  "set_colour_map_entries hk =
     Yield 5 (\<lambda>header.
       let first_color = u16_at 1 header; number_of_colors = u16_at 3 header;
           payload_len = 6 * number_of_colors
       in checked (requirePayload payload_len) (\<lambda>_.
            Yield (int payload_len) (\<lambda>block.
              let colors = map (\<lambda>p. (u16_at p block, u16_at (p + 2) block, u16_at (p + 4) block))
                             (py_range 0 (length block) 6)
              in call_client (set_color_map hk first_color colors) (Return ()))))"

definition bell_message :: "('z, 'm) client hooks \<Rightarrow> (('z, 'm) client, unit) gen" where
  "bell_message hk = call_client (bell hk) (Return ())"

text \<open>\<open>FenceFlags.REQUEST\<close> is bit 31; the three flags this client understands are bits 0 to 2.\<close>

definition fence_reply :: "nat \<Rightarrow> bytes \<Rightarrow> (('z, 'm) client, unit) gen" where
  "fence_reply flags payload =
     (if flags AND 2147483648 \<noteq> 0
      then call_client (clientFence (int (flags AND (1 OR 2 OR 4))) payload) (Return ())
      else Return ())"

definition server_fence :: "(('z, 'm) client, unit) gen" where
  "server_fence =
     Yield 8 (\<lambda>header.
       let flags = u32_at 3 header; n = unat (header ! 7)
       in if n \<noteq> 0 then Yield (int n) (\<lambda>payload. fence_reply flags payload)
          else fence_reply flags [])"

definition message_handler ::
  "('z, 'm) client hooks \<Rightarrow> nat \<Rightarrow> (('z, 'm) client, unit) gen option" where
  "message_handler hk msgid =
     (if msgid = 1 then Some (set_colour_map_entries hk)
      else if msgid = 2 then Some (bell_message hk)
      else if msgid = 3 then Some (server_cut_text hk)
      else if msgid = 248 then Some server_fence
      else None)"

section \<open>No handler is asked for more than the payload bound\<close>

abbreviation payload_bounded :: "('c, 'a) gen \<Rightarrow> bool" where
  "payload_bounded \<equiv> requests_all (\<lambda>n. 0 \<le> n \<and> n \<le> int MAX_MESSAGE_PAYLOAD)"

lemma requirePayload_Inr [simp]: "requirePayload n = Inr u \<longleftrightarrow> n \<le> MAX_MESSAGE_PAYLOAD"
  by (simp add: requirePayload_def)

lemma bounded_fence_reply: "payload_bounded (fence_reply flags p)"
  unfolding fence_reply_def by (intro request_intros)

lemma message_bounded:
  assumes "message_handler hk msgid = Some g"
  shows "payload_bounded g"
proof -
  have small: "(5 :: int) \<le> int MAX_MESSAGE_PAYLOAD" "(7 :: int) \<le> int MAX_MESSAGE_PAYLOAD"
      "(8 :: int) \<le> int MAX_MESSAGE_PAYLOAD" "unat b \<le> MAX_MESSAGE_PAYLOAD"
      "uint b \<le> int MAX_MESSAGE_PAYLOAD" for b :: byte
    using unsigned_less [where 'a = nat, of b] unsigned_less [where 'a = int, of b] by (simp_all add: MAX_MESSAGE_PAYLOAD_def)
  have "payload_bounded (set_colour_map_entries hk)"
    unfolding set_colour_map_entries_def Let_def
    by (intro request_intros) (use small in \<open>auto simp flip: of_nat_mult\<close>)
  moreover have "payload_bounded (bell_message hk)"
    unfolding bell_message_def by (intro request_intros)
  moreover have "payload_bounded (server_cut_text hk)"
    unfolding server_cut_text_def Let_def by (intro request_intros) (use small in auto)
  moreover have "payload_bounded server_fence"
    unfolding server_fence_def Let_def
    by (intro request_intros bounded_fence_reply) (use small in auto)
  ultimately show ?thesis
    using assms by (auto simp: message_handler_def split: if_splits)
qed

section \<open>A fence is answered once\<close>

lemma fence_mask:
  "(flags :: nat) AND (1 OR 2 OR 4) = flags mod 8"
  using take_bit_eq_mask [of 3 flags] by (simp add: take_bit_eq_mod mask_eq_exp_minus_1)

text \<open>
  C33: a fence is answered with what the client understands. Whatever the server's fence is, a finished
  handler has read its whole payload and nothing more; if the request bit is set, the one thing it
  writes is the fence message with the same payload and the flags cut to the three known ones, and if
  it is not set it writes nothing.
\<close>

theorem fence_answered:
  assumes "well_formed (Fence flags payload)"
  shows "drive server_fence
     ([0, 0, 0] @ be_bytes 4 flags @ [word_of_nat (length payload)] @ payload @ rest) c =
   Finished () rest
     (if bit flags 31 then transport_write (message_bytes (Fence (flags mod 8) payload)) c else c)"
proof -
  define header where "header = [0, 0, 0] @ be_bytes 4 flags @ [word_of_nat (length payload)]"
  have ok: "flags < 4294967296" "length payload < 256" using assms by simp_all
  have "flags mod 8 < 8" by simp
  then have masked: "flags mod 8 < 4294967296" by linarith
  have req: "flags AND 2147483648 = 0 \<longleftrightarrow> \<not> bit flags 31"
    using and_exp_eq_0_iff_not_bit [of flags 31] by simp
  have header: "u32_at 3 header = flags" "unat (header ! 7) = length payload" "length header = 8"
    using ok by (simp_all add: header_def pslice_def nth_append be_val_be_bytes)
  have reply: "drive (fence_reply flags payload) rest c = Finished () rest
     (if bit flags 31 then transport_write (message_bytes (Fence (flags mod 8) payload)) c else c)"
    using ok masked unfolding fence_reply_def req fence_mask by (simp add: clientFence_def)
  have "drive server_fence (header @ payload @ rest) c = drive (fence_reply flags payload) rest c"
    unfolding server_fence_def using header by (simp add: Let_def)
  then show ?thesis using reply by (simp add: header_def)
qed

lemma fence_answered_witness:
  "drive server_fence ([0, 0, 0] @ [0x80, 0, 0, 0x0F] @ [1] @ [42] @ [7]) (rfb_init stored_externals)
   = Finished () [7] (transport_write [248, 0, 0, 0, 0, 0, 0, 7, 1, 42] (rfb_init stored_externals))"
proof -
  have w: "well_formed (Fence 0x8000000F [42])" by simp
  have b: "bit (0x8000000F :: nat) 31" by (simp add: bit_iff_odd)
  have "be_bytes 4 0x8000000F = [0x80, 0, 0, 0x0F]" "be_bytes 4 7 = [0, 0, 0, 7]"
    by (simp_all add: be_bytes_numeral)
  then show ?thesis
    using fence_answered [OF w, of "[7]" "rfb_init stored_externals"] b by simp
qed

end
