(* ===== verification/VeNCrypt.thy ===== *)
theory VeNCrypt
  imports Messages
begin

text \<open>
  \<open>vncdotool/vencrypt.py\<close>: which VeNCrypt subtype the client speaks, given what the server offers, the
  TLS policy and the credentials at hand.  Building the TLS contexts is left to the TLS library.
\<close>

section \<open>The subtypes\<close>

abbreviation (input) PLAIN :: int where "PLAIN \<equiv> 256"
abbreviation (input) TLS_NONE :: int where "TLS_NONE \<equiv> 257"
abbreviation (input) TLS_VNC :: int where "TLS_VNC \<equiv> 258"
abbreviation (input) TLS_PLAIN :: int where "TLS_PLAIN \<equiv> 259"
abbreviation (input) X509_NONE :: int where "X509_NONE \<equiv> 260"
abbreviation (input) X509_VNC :: int where "X509_VNC \<equiv> 261"
abbreviation (input) X509_PLAIN :: int where "X509_PLAIN \<equiv> 262"

definition ANONYMOUS_SUBTYPES :: "int set" where
  "ANONYMOUS_SUBTYPES = {TLS_NONE, TLS_VNC, TLS_PLAIN}"

definition X509_SUBTYPES :: "int set" where
  "X509_SUBTYPES = {X509_NONE, X509_VNC, X509_PLAIN}"

definition VNC_AUTH_SUBTYPES :: "int set" where
  "VNC_AUTH_SUBTYPES = {TLS_VNC, X509_VNC}"

definition PLAIN_AUTH_SUBTYPES :: "int set" where
  "PLAIN_AUTH_SUBTYPES = {TLS_PLAIN, X509_PLAIN}"

definition PREFERENCE :: "int list" where
  "PREFERENCE = [X509_VNC, X509_PLAIN, X509_NONE, TLS_VNC, TLS_PLAIN, TLS_NONE]"

record tls_policy =
  tp_hostname :: "unicode option"
  tp_ca_certs :: "unicode option"
  tp_allow_unverified :: bool

record credentials =
  cr_username :: "unicode option"
  cr_password :: "unicode option"

section \<open>The choice\<close>

text \<open>\<open>not policy.hostname\<close> holds for None and for the empty string.\<close>

definition no_hostname :: "tls_policy \<Rightarrow> bool" where
  "no_hostname policy \<longleftrightarrow> tp_hostname policy = None \<or> tp_hostname policy = Some []"

definition INSECURE_FLAG :: string where
  "INSECURE_FLAG = ''--tls-insecure-skip-verify''"

definition unusable :: "int \<Rightarrow> tls_policy \<Rightarrow> credentials \<Rightarrow> string option" where
  "unusable subtype policy credentials =
     (if subtype = PLAIN
      then Some ''sends the password in the clear over an unencrypted socket''
      else if subtype \<notin> set PREFERENCE then Some ''not implemented''
      else if subtype \<in> ANONYMOUS_SUBTYPES \<and> \<not> tp_allow_unverified policy
      then Some (''anonymous TLS carries no certificate to verify, so it needs '' @ INSECURE_FLAG)
      else if subtype \<in> X509_SUBTYPES \<and> \<not> tp_allow_unverified policy \<and> no_hostname policy
      then Some (''no hostname to check the certificate against, so it needs '' @ INSECURE_FLAG)
      else if subtype \<in> VNC_AUTH_SUBTYPES \<and> cr_password credentials = None
      then Some ''no password given''
      else if subtype \<in> PLAIN_AUTH_SUBTYPES \<and>
        (cr_username credentials = None \<or> cr_password credentials = None)
      then Some ''no username and password given''
      else None)"

fun first_usable :: "int list \<Rightarrow> int set \<Rightarrow> tls_policy \<Rightarrow> credentials \<Rightarrow> int option" where
  "first_usable [] available policy credentials = None"
| "first_usable (subtype # others) available policy credentials =
     (if subtype \<in> available \<and> unusable subtype policy credentials = None then Some subtype
      else first_usable others available policy credentials)"

definition choose_subtype :: "int list \<Rightarrow> tls_policy \<Rightarrow> credentials \<Rightarrow> int option" where
  "choose_subtype offered policy credentials = first_usable PREFERENCE (set offered) policy credentials"

text \<open>Subtypes below 256 are ordinary security types and are named as such.\<close>

definition subtype_name :: "int \<Rightarrow> string" where
  "subtype_name subtype = (if subtype < PLAIN then auth_str subtype else vencrypt_str subtype)"

definition refusal :: "int list \<Rightarrow> tls_policy \<Rightarrow> credentials \<Rightarrow> string" where
  "refusal offered policy credentials =
     ''no usable VeNCrypt subtype, of the '' @ show_int (int (length offered)) @ '' offered:'' @
     concat (map (\<lambda>subtype. char_of (10 :: nat) # ''  '' @ subtype_name subtype @ '': '' @
       (case unusable subtype policy credentials of None \<Rightarrow> ''None'' | Some why \<Rightarrow> why)) offered)"

section \<open>Laws\<close>

lemma first_usable_Some:
  "first_usable ss av p cr = Some s \<Longrightarrow>
     \<exists>before after. ss = before @ s # after \<and> s \<in> av \<and> unusable s p cr = None \<and>
       (\<forall>t \<in> set before. t \<in> av \<longrightarrow> unusable t p cr \<noteq> None)"
proof (induction ss av p cr rule: first_usable.induct)
  case (1 av p cr)
  then show ?case by simp
next
  case (2 t others av p cr)
  show ?case
  proof (cases "t \<in> av \<and> unusable t p cr = None")
    case True
    with 2(2) have "t # others = [] @ s # others" "s \<in> av" "unusable s p cr = None" by auto
    then show ?thesis by (metis empty_iff empty_set)
  next
    case False
    with 2 obtain before after where "others = before @ s # after" "s \<in> av" "unusable s p cr = None"
      "\<forall>u \<in> set before. u \<in> av \<longrightarrow> unusable u p cr \<noteq> None"
      by auto
    then have "t # others = (t # before) @ s # after" by simp
    moreover have "\<forall>u \<in> set (t # before). u \<in> av \<longrightarrow> unusable u p cr \<noteq> None"
      using False \<open>\<forall>u \<in> set before. u \<in> av \<longrightarrow> unusable u p cr \<noteq> None\<close> by simp
    ultimately show ?thesis
      using \<open>s \<in> av\<close> \<open>unusable s p cr = None\<close> by blast
  qed
qed

lemma first_usable_None:
  "first_usable ss av p cr = None \<longleftrightarrow> (\<forall>s \<in> set ss. s \<in> av \<longrightarrow> unusable s p cr \<noteq> None)"
  by (induction ss av p cr rule: first_usable.induct) auto

lemma usable_in_preference: "unusable s p cr = None \<Longrightarrow> s \<in> set PREFERENCE"
  by (auto simp: unusable_def split: if_splits)

lemma usable_protected:
  assumes "unusable s p cr = None"
  shows "s \<noteq> PLAIN \<and> (tp_allow_unverified p \<or> s \<in> X509_SUBTYPES \<and> \<not> no_hostname p) \<and>
    (s \<in> VNC_AUTH_SUBTYPES \<longrightarrow> cr_password cr \<noteq> None) \<and>
    (s \<in> PLAIN_AUTH_SUBTYPES \<longrightarrow> cr_username cr \<noteq> None \<and> cr_password cr \<noteq> None)"
  using assms usable_in_preference [OF assms]
  by (auto simp: unusable_def PREFERENCE_def X509_SUBTYPES_def ANONYMOUS_SUBTYPES_def split: if_splits)

text \<open>
  C23: the choice is the most protected subtype the client may speak. A chosen subtype was offered and
  is usable, and every subtype the preference puts before it was either not offered or is refused for
  a stated reason; so the bare Plain subtype is never chosen, and unless unverified TLS is allowed the
  choice is an X509 one with a host name to check the certificate against. When nothing is chosen,
  every offered subtype of the preference has a reason against it.
\<close>

theorem choose_most_protected:
  "case choose_subtype offered policy credentials of
     None \<Rightarrow> filter (\<lambda>s. unusable s policy credentials = None) offered = []
   | Some s \<Rightarrow> s \<in> set offered \<and> s \<noteq> PLAIN \<and>
       (tp_allow_unverified policy \<or> s \<in> X509_SUBTYPES \<and> \<not> no_hostname policy) \<and>
       (\<exists>before after. PREFERENCE = before @ s # after \<and>
          filter (\<lambda>t. t \<in> set offered \<and> unusable t policy credentials = None) before = [])"
proof (cases "choose_subtype offered policy credentials")
  case None
  then have "\<forall>s \<in> set PREFERENCE. s \<in> set offered \<longrightarrow> unusable s policy credentials \<noteq> None"
    by (simp add: choose_subtype_def first_usable_None)
  then have "unusable s policy credentials \<noteq> None" if "s \<in> set offered" for s
    using that usable_in_preference by blast
  then show ?thesis using None by (auto simp: filter_empty_conv)
next
  case (Some s)
  then obtain before after where s: "PREFERENCE = before @ s # after" "s \<in> set offered"
      "unusable s policy credentials = None"
      "\<forall>t \<in> set before. t \<in> set offered \<longrightarrow> unusable t policy credentials \<noteq> None"
    unfolding choose_subtype_def by (blast dest: first_usable_Some)
  have "filter (\<lambda>t. t \<in> set offered \<and> unusable t policy credentials = None) before = []"
    using s(4) by (auto simp: filter_empty_conv)
  then show ?thesis using Some s usable_protected [OF s(3)] by auto
qed

end
