(* ===== verification/Security.thy ===== *)
theory Security
  imports VeNCrypt "HOL-Library.Product_Lexorder"
begin

text \<open>
  \<open>vncdotool/security/\<close> and the password helpers of \<open>rfb.py\<close>: the four security types as generators
  (\<open>none.py\<close>, \<open>vncauth.py\<close>, \<open>ard.py\<close>, \<open>vencrypt.py\<close>), SecurityResult (\<open>base.py\<close>), and the registry.
  Tuples are ordered as in Python, lexicographically.

  The VeNCrypt handler looks once at the pump's receive buffer, and sets the pump's flag that a TLS
  handshake is under way.  Its generator is split at that point: the first part ends with
  \<open>PeekPacket k\<close>, and the pump goes on with \<open>k\<close> applied to whether the buffer holds anything, which
  either raises or gives the rest of the generator, with the flag set.
\<close>

section \<open>Text\<close>

definition ascii_bytes :: "string \<Rightarrow> bytes" where
  "ascii_bytes s = map of_char s"

text \<open>\<open>s.encode("utf-8")\<close>: a lone surrogate cannot be encoded.\<close>

definition utf8_char :: "nat \<Rightarrow> bytes option" where
  "utf8_char p =
     (if p < 0x80 then Some [word_of_nat p]
      else if p < 0x800 then Some [word_of_nat (0xC0 + p div 64), word_of_nat (0x80 + p mod 64)]
      else if 0xD800 \<le> p \<and> p < 0xE000 then None
      else if p < 0x10000
      then Some [word_of_nat (0xE0 + p div 4096), word_of_nat (0x80 + p div 64 mod 64),
                 word_of_nat (0x80 + p mod 64)]
      else if p < 0x110000
      then Some [word_of_nat (0xF0 + p div 262144), word_of_nat (0x80 + p div 4096 mod 64),
                 word_of_nat (0x80 + p div 64 mod 64), word_of_nat (0x80 + p mod 64)]
      else None)"

fun encode_utf8 :: "unicode \<Rightarrow> exn + bytes" where
  "encode_utf8 [] = Inr []"
| "encode_utf8 (p # ps) =
     (case utf8_char p of
        None \<Rightarrow> Inl UnicodeError
      | Some b \<Rightarrow> (case encode_utf8 ps of Inl e \<Rightarrow> Inl e | Inr bs \<Rightarrow> Inr (b @ bs)))"

text \<open>\<open>s.encode("ASCII")\<close>.\<close>

definition encode_ascii :: "unicode \<Rightarrow> exn + bytes" where
  "encode_ascii s = (if list_all (\<lambda>p. p < 128) s then Inr (map word_of_nat s) else Inl UnicodeError)"

section \<open>VNC Authentication\<close>

definition reverse_byte :: "byte \<Rightarrow> byte" where
  "reverse_byte k =
     word_of_nat (sum_list (map (\<lambda>i. if bit k i then drop_bit i 128 else (0 :: nat)) [0..<8]))"

definition reverse_bits :: "bytes \<Rightarrow> bytes" where
  "reverse_bits data = map reverse_byte data"

text \<open>\<open>f"{password:\0<8.8}"\<close>: cut to eight characters, then padded with NULs on the right.\<close>

definition vnc_des :: "unicode \<Rightarrow> exn + bytes" where
  "vnc_des password =
     (let pw = take 8 password; padded = pw @ replicate (8 - length pw) 0
      in case encode_ascii padded of Inl e \<Rightarrow> Inl e | Inr key \<Rightarrow> Inr (reverse_bits key))"

definition sendPassword ::
  "'z externals \<Rightarrow> unicode \<Rightarrow> ('z, 'm) client \<Rightarrow> exn + ('z, 'm) client" where
  "sendPassword ex password c =
     (case vnc_des password of
        Inl e \<Rightarrow> Inl e
      | Inr key \<Rightarrow> Inr (transport_write (des_ecb ex key (st_challenge c)) c))"

text \<open>\<open>RFBClient.vncRequestPassword\<close>.\<close>

definition base_request_password ::
  "'z externals \<Rightarrow> ('z, 'm) client \<Rightarrow> exn + ('z, 'm) client" where
  "base_request_password ex c =
     (case fac_password c of
        None \<Rightarrow> Inr (lose_connection c)
      | Some password \<Rightarrow> sendPassword ex password c)"

section \<open>SecurityResult\<close>

definition lose :: "(('z, 'm) client, 'a) gen \<Rightarrow> (('z, 'm) client, 'a) gen" where
  "lose g = call_client (\<lambda>c. Inr (lose_connection c)) g"

definition security_result :: "('z, 'm) client hooks \<Rightarrow> (('z, 'm) client, bool) gen" where
  "security_result hk =
     Yield 4 (\<lambda>block.
       let result = be_val block;
           failed = (\<lambda>reason. ReadClient (\<lambda>c.
             if st_version c < (3, 8)
             then call_client (vncAuthFailed hk (ascii_bytes reason)) (lose (Return False))
             else Yield 4 (\<lambda>block2.
                    let waitfor = be_val block2
                    in checked (requirePayload waitfor) (\<lambda>_.
                         Yield (int waitfor) (\<lambda>text_bytes.
                           call_client (vncAuthFailed hk text_bytes) (lose (Return False)))))))
       in if result = 0 then Return True
          else if result = 1 then failed ''authentication failed''
          else if result = 2 then failed ''too many tries to log in''
          else lose (Return False))"

section \<open>The handlers\<close>

datatype 'c security_outcome =
    Proceed bool
  | PeekPacket "bool \<Rightarrow> exn + ('c, bool) gen"

definition proceed :: "('c, bool) gen \<Rightarrow> ('c, 'c security_outcome) gen" where
  "proceed g = yield_from g (\<lambda>b. Return (Proceed b))"

definition none_handler :: "('z, 'm) client hooks \<Rightarrow> (('z, 'm) client, bool) gen" where
  "none_handler hk =
     ReadClient (\<lambda>c. if st_version c < (3, 8) then Return True else security_result hk)"

text \<open>\<open>client._challenge = yield 16\<close>, then the password.\<close>

definition challenged ::
  "('z, 'm) client hooks \<Rightarrow> (('z, 'm) client, 'a) gen \<Rightarrow> (('z, 'm) client, 'a) gen" where
  "challenged hk g =
     Yield 16 (\<lambda>block. call_client (\<lambda>c. Inr (c\<lparr>st_challenge := block\<rparr>))
       (call_client (vncRequestPassword hk) g))"

definition vncauth_handler :: "('z, 'm) client hooks \<Rightarrow> (('z, 'm) client, bool) gen" where
  "vncauth_handler hk = challenged hk (security_result hk)"

subsection \<open>Apple's Diffie-Hellman type\<close>

definition CREDENTIAL_LEN :: nat where
  "CREDENTIAL_LEN = 64"

definition ardRequestCredentials ::
  "'z externals \<Rightarrow> ('z, 'm) client \<Rightarrow> exn + ('z, 'm) client" where
  "ardRequestCredentials ex c =
     (let c1 = (if fac_username c = None then c\<lparr>fac_username := Some (prompt_username ex)\<rparr> else c);
          c2 = (if fac_password c1 = None then c1\<lparr>fac_password := Some (prompt_password ex)\<rparr> else c1)
      in Inr c2)"

definition credential :: "'z externals \<Rightarrow> unicode \<Rightarrow> exn + bytes" where
  "credential ex v =
     (case encode_utf8 v of
        Inl e \<Rightarrow> Inl e
      | Inr bs \<Rightarrow>
          (let encoded = bs @ [0]
           in if length encoded > CREDENTIAL_LEN
              then Inl (SecurityError (CredentialTooLong (length encoded - 1)))
              else Inr (encoded @ urandom ex (CREDENTIAL_LEN - length encoded))))"

text \<open>
  \<open>_encrypt\<close>: the two credentials, then the key exchange and the cipher, which are the
  cryptography library's.
\<close>

definition ard_encrypt ::
  "'z externals \<Rightarrow> nat \<Rightarrow> nat \<Rightarrow> bytes \<Rightarrow> bytes \<Rightarrow> ('z, 'm) client \<Rightarrow> exn + bytes" where
  "ard_encrypt ex generator key_len modulus server_key c =
     (case (fac_username c, fac_password c) of
        (Some u, Some p) \<Rightarrow>
          (case credential ex u of Inl e \<Rightarrow> Inl e | Inr cu \<Rightarrow>
             (case credential ex p of Inl e \<Rightarrow> Inl e | Inr cp \<Rightarrow>
                ard_response ex (cu @ cp) generator (be_val modulus) (be_val server_key) key_len))
      | _ \<Rightarrow> Inl TypeError)"

definition ard_handler ::
  "'z externals \<Rightarrow> ('z, 'm) client hooks \<Rightarrow> (('z, 'm) client, bool) gen" where
  "ard_handler ex hk =
     Yield 4 (\<lambda>header.
       let generator = u16_at 0 header; key_len = u16_at 2 header
       in Yield (int key_len) (\<lambda>modulus. Yield (int key_len) (\<lambda>server_key.
            call_client (ardRequestCredentials ex)
              (call_client (\<lambda>c. case ard_encrypt ex generator key_len modulus server_key c of
                                  Inl e \<Rightarrow> Inl e | Inr bs \<Rightarrow> Inr (transport_write bs c))
                (security_result hk)))))"

subsection \<open>VeNCrypt\<close>

definition policy_of :: "('z, 'm) client \<Rightarrow> tls_policy" where
  "policy_of c = \<lparr>tp_hostname = fac_tls_hostname c, tp_ca_certs = fac_tls_ca_certs c,
     tp_allow_unverified = fac_tls_allow_unverified c\<rparr>"

definition credentials_of :: "('z, 'm) client \<Rightarrow> credentials" where
  "credentials_of c = \<lparr>cr_username = fac_username c, cr_password = fac_password c\<rparr>"

text \<open>
  \<open>client_options\<close>: which kind of TLS context is built.  Whether the library can build it (the
  certificate file is read there) is \<open>tls_options\<close> of the externals.
\<close>

datatype tls_setup = AnonymousTLS | UnverifiedTLS | VerifiedTLS unicode "unicode option"

definition client_options :: "'z externals \<Rightarrow> int \<Rightarrow> tls_policy \<Rightarrow> exn + tls_setup" where
  "client_options ex subtype policy =
     (let built = (\<lambda>setup. if tls_options ex subtype (tp_hostname policy) (tp_ca_certs policy)
                               (tp_allow_unverified policy)
                          then Inr setup else Inl ValueError)
      in if subtype \<in> ANONYMOUS_SUBTYPES then built AnonymousTLS
         else if tp_allow_unverified policy then built UnverifiedTLS
         else (case tp_hostname policy of
                 None \<Rightarrow> Inl ValueError
               | Some hostname \<Rightarrow> built (VerifiedTLS hostname (tp_ca_certs policy))))"

definition send_plain :: "('z, 'm) client \<Rightarrow> exn + ('z, 'm) client" where
  "send_plain c =
     (case encode_utf8 (case fac_username c of None \<Rightarrow> [] | Some u \<Rightarrow> u) of
        Inl e \<Rightarrow> Inl e
      | Inr username \<Rightarrow>
          (case encode_utf8 (case fac_password c of None \<Rightarrow> [] | Some p \<Rightarrow> p) of
             Inl e \<Rightarrow> Inl e
           | Inr password \<Rightarrow>
               (case write_packed (pack [(4, int (length username)), (4, int (length password))]) c of
                  Inl e \<Rightarrow> Inl e
                | Inr c' \<Rightarrow> Inr (transport_write (username @ password) c'))))"

definition start_tls :: "('z, 'm) client \<Rightarrow> ('z, 'm) client" where
  "start_tls c = c\<lparr>st_tls_started := True\<rparr>"

text \<open>The handler from \<open>if client._packet\<close> on: what it raises, or the generator that follows.\<close>

definition vencrypt_tunnel ::
  "'z externals \<Rightarrow> ('z, 'm) client hooks \<Rightarrow> int \<Rightarrow> tls_policy \<Rightarrow> bool \<Rightarrow>
     exn + (('z, 'm) client, bool) gen" where
  "vencrypt_tunnel ex hk chosen policy packet_waiting =
     (if packet_waiting then Inl (SecurityError ServerSpokeBeforeTLS)
      else (case client_options ex chosen policy of
              Inl e \<Rightarrow> Inl (SecurityError CannotStartTLS)
            | Inr setup \<Rightarrow>
                Inr (call_client (\<lambda>c. Inr (start_tls c))
                  (if chosen \<in> VNC_AUTH_SUBTYPES then challenged hk (security_result hk)
                   else if chosen \<in> PLAIN_AUTH_SUBTYPES
                   then call_client send_plain (security_result hk)
                   else security_result hk))))"

definition MAX_VERSION :: "nat \<times> nat" where
  "MAX_VERSION = (0, 2)"

definition vencrypt_handler ::
  "'z externals \<Rightarrow> ('z, 'm) client hooks \<Rightarrow>
     (('z, 'm) client, ('z, 'm) client security_outcome) gen" where
  "vencrypt_handler ex hk =
     Yield 2 (\<lambda>version_bytes.
       let version = (unat (version_bytes ! 0), unat (version_bytes ! 1))
       in if version < (0, 2)
          then Throw (SecurityError (VencryptVersion (fst version) (snd version)))
          else
            (let agreed = min version MAX_VERSION
             in call_client (\<lambda>c. Inr (transport_write
                  [word_of_nat (fst agreed), word_of_nat (snd agreed)] c))
                (Yield 1 (\<lambda>ack.
                   if unat (ack ! 0) \<noteq> 0
                   then Throw (SecurityError (VencryptRefused (fst agreed) (snd agreed)))
                   else Yield 1 (\<lambda>count_byte.
                     let count = unat (count_byte ! 0)
                     in if count = 0 then Throw (SecurityError VencryptNoSubtypes)
                        else Yield (int (4 * count)) (\<lambda>block.
                          let subtypes = map (\<lambda>i. int (u32_at (4 * i) block)) [0..<count]
                          in ReadClient (\<lambda>c.
                            let policy = policy_of c; credentials = credentials_of c
                            in case choose_subtype subtypes policy credentials of
                                 None \<Rightarrow> Throw (SecurityError (VencryptNoUsableSubtype subtypes))
                               | Some chosen \<Rightarrow>
                                   WriteClient (transport_write (be_bytes 4 (nat chosen))
                                       (c\<lparr>st_vencrypt_subtype := chosen\<rparr>))
                                     (Yield 1 (\<lambda>ack2.
                                       if unat (ack2 ! 0) \<noteq> 1
                                       then Throw (SecurityError (VencryptSubtypeRefused chosen))
                                       else Return (PeekPacket
                                         (vencrypt_tunnel ex hk chosen policy)))))))))))"

section \<open>The registry\<close>

definition security_handler ::
  "'z externals \<Rightarrow> ('z, 'm) client hooks \<Rightarrow> nat \<Rightarrow>
     (('z, 'm) client, ('z, 'm) client security_outcome) gen option" where
  "security_handler ex hk sec_type =
     (if sec_type = 1 then Some (proceed (none_handler hk))
      else if sec_type = 2 then Some (proceed (vncauth_handler hk))
      else if sec_type = 19 then Some (vencrypt_handler ex hk)
      else if sec_type = 30 then Some (proceed (ard_handler ex hk))
      else None)"

definition SUPPORTED_AUTHS :: "nat set" where
  "SUPPORTED_AUTHS = {1, 2, 19, 30}"

lemma security_handler_supported: "security_handler ex hk t \<noteq> None \<longleftrightarrow> t \<in> SUPPORTED_AUTHS"
  by (simp add: security_handler_def SUPPORTED_AUTHS_def)

section \<open>The VNC key\<close>

lemma upt_8: "[0..<8] = [0, 1, 2, 3, 4, 5, 6, 7 :: nat]"
  by (simp add: upt_rec)

lemma reverse_byte_horner:
  "reverse_byte b = horner_sum of_bool 2 (map (\<lambda>i. bit b (7 - i)) [0..<8])"
proof -
  have "(if P then drop_bit i (128 :: nat) else 0) = of_bool P * (128 div 2 ^ i)" for P i
    by (simp add: drop_bit_eq_div)
  then show ?thesis by (simp add: reverse_byte_def upt_8 distrib_left mult.commute)
qed

lemma reverse_byte_bit: "k < 8 \<Longrightarrow> bit (reverse_byte b) k = bit b (7 - k)"
  by (simp add: reverse_byte_horner bit_horner_sum_bit_word_iff)

lemma vnc_des_eq:
  "vnc_des password =
     (if list_all (\<lambda>p. p < 128) (take 8 password)
      then Inr (map (\<lambda>i. reverse_byte (if i < length password then word_of_nat (password ! i) else 0)) [0..<8])
      else Inl UnicodeError)"
proof -
  let ?padded = "take 8 password @ replicate (8 - length (take 8 password)) 0"
  have all: "list_all (\<lambda>p. p < 128) ?padded \<longleftrightarrow> list_all (\<lambda>p. p < 128) (take 8 password)"
    by (auto simp: list_all_iff)
  have "map (\<lambda>p. reverse_byte (word_of_nat p)) ?padded =
      map (\<lambda>i. reverse_byte (if i < length password then word_of_nat (password ! i) else 0)) [0..<8]"
    by (rule nth_equalityI) (auto simp: nth_append)
  then show ?thesis
    unfolding vnc_des_def Let_def encode_ascii_def all by (simp add: reverse_bits_def comp_def)
qed

text \<open>
  C26: the DES key of VNC Authentication. A password of ASCII characters always gives a key of eight
  bytes, each the bit-reversal of a character of the password cut and padded to eight; so only the
  first eight characters count, and a password with a character beyond ASCII among them is refused.
\<close>

theorem vnc_key:
  "case vnc_des password of
     Inr key \<Rightarrow> length key = 8 \<and> list_all (\<lambda>p. p < 128) (take 8 password) \<and>
       list_all (\<lambda>i. list_all (\<lambda>k. bit (key ! i) k =
          (i < length password \<and> bit (password ! i) (7 - k))) [0..<8]) [0..<8]
   | Inl e \<Rightarrow> e = UnicodeError \<and> list_ex (\<lambda>p. 128 \<le> p) (take 8 password)"
proof (cases "list_all (\<lambda>p. p < 128) (take 8 password)")
  case True
  have "bit (word_of_nat p :: byte) (7 - k) = bit p (7 - k)" for p k
  proof -
    have "7 - k < (8 :: nat)" by linarith
    then show ?thesis by (simp add: bit_of_nat_iff)
  qed
  then show ?thesis
    unfolding vnc_des_eq using True by (simp add: list_all_iff reverse_byte_bit)
next
  case False
  then show ?thesis
    by (auto simp: vnc_des_eq list_all_iff list_ex_iff not_less)
qed

section \<open>The ARD credentials\<close>

text \<open>
  the credentials of Apple's security type. Each is sent in a field of 64 bytes that starts with its
  UTF-8 bytes and a NUL, whatever the random padding; one that does not fit is refused rather than
  cut.
\<close>

theorem ard_credential_field:
  assumes "\<And>n. length (urandom ex n) = n"
  shows "case credential ex v of
     Inr field \<Rightarrow> length field = 64 \<and>
       (\<exists>bs. encode_utf8 v = Inr bs \<and> take (length bs + 1) field = bs @ [0])
   | Inl e \<Rightarrow> e = UnicodeError \<or>
       (\<exists>bs. encode_utf8 v = Inr bs \<and> length bs > 63 \<and> e = SecurityError (CredentialTooLong (length bs)))"
proof (cases "encode_utf8 v")
  case (Inl e)
  then have "e = UnicodeError"
    by (induction v arbitrary: e rule: encode_utf8.induct) (auto split: option.splits sum.splits)
  with Inl show ?thesis by (simp add: credential_def)
next
  case (Inr bs)
  then show ?thesis using assms by (auto simp: credential_def CREDENTIAL_LEN_def Let_def)
qed

lemma ard_credential_field_witness:
  "credential stored_externals [233] = Inr ([0xC3, 0xA9, 0] @ replicate 61 0) \<and>
     length ([0xC3, 0xA9, 0 :: byte] @ replicate 61 0) = 64"
proof -
  have u: "length (urandom stored_externals n) = n" for n by (simp add: stored_externals_def)
  have "credential stored_externals [233] = Inr ([0xC3, 0xA9, 0] @ replicate 61 0)"
    by (simp add: credential_def utf8_char_def CREDENTIAL_LEN_def stored_externals_def)
  with ard_credential_field [of stored_externals, OF u, of "[233]"] show ?thesis by simp
qed

section \<open>VeNCrypt before the tunnel\<close>

lemma client_options_verified:
  assumes "choose_subtype offered p cr = Some s" "\<not> tp_allow_unverified p"
  shows "\<exists>h. h \<noteq> [] \<and> tp_hostname p = Some h \<and>
    client_options ex s p \<in> {Inl ValueError, Inr (VerifiedTLS h (tp_ca_certs p))}"
proof -
  have "unusable s p cr = None"
    using first_usable_Some [OF assms(1) [unfolded choose_subtype_def]] by blast
  from usable_protected [OF this] assms(2)
  have "s \<in> X509_SUBTYPES" "\<not> no_hostname p" by auto
  then show ?thesis
    using assms(2)
    by (cases "tp_hostname p")
      (auto simp: client_options_def no_hostname_def X509_SUBTYPES_def ANONYMOUS_SUBTYPES_def)
qed



end
