(* ===== verification/Rfb.thy ===== *)
theory Rfb
  imports Security
begin

text \<open>
  The protocol engine of \<open>rfb.py\<close>, \<open>RFBClient\<close>: greeting, security types, initialisation, the dispatch
  of server messages, the rectangles of an update, the pump that runs the generators, and
  \<open>dataReceived\<close> with its loop.  A connection is the client of the other theories together with what
  only the engine touches: the receive buffer, the handler \<open>expect\<close> parked with the length it waits
  for, \<open>_aborted\<close> and the TLS flag.  Methods that a Python attribute refers to are constructors of
  \<open>parked\<close>; the pump's own arguments are theirs.

  \<open>expect\<close> called from a handler only parks (\<open>_already_expecting\<close> is set); the one call made outside,
  by the greeting, is followed by the loop.  The loop is a \<open>partial_function\<close>: \<open>None\<close> means that
  \<open>dataReceived\<close> does not return.
\<close>

section \<open>State\<close>

datatype 'c parked =
    HandleAuth
  | HandleNumberSecurityTypes
  | HandleSecurityTypes
  | HandleConnFailed
  | HandleConnMessage
  | HandleServerInit
  | HandleServerName
  | HandleConnection
  | HandleFramebufferUpdate
  | HandleRectangle
  | PumpSecurity nat "bytes \<Rightarrow> ('c, 'c security_outcome) gen"
  | PumpMessage nat "bytes \<Rightarrow> ('c, unit) gen"
  | PumpRectangle rect "bytes \<Rightarrow> ('c, rect_outcome) gen"

record 'c conn =
  cn_packet :: bytes
  cn_greeted :: bool
  cn_parked :: "'c parked"
  cn_len :: nat
  cn_aborted :: bool
  cn_tls_pending :: bool
  cn_client :: 'c

definition conn_init :: "'c \<Rightarrow> 'c conn" where
  "conn_init c = \<lparr>cn_packet = [], cn_greeted = False, cn_parked = HandleAuth, cn_len = 12,
     cn_aborted = False, cn_tls_pending = False, cn_client = c\<rparr>"

definition expect :: "'c parked \<Rightarrow> nat \<Rightarrow> 'c conn \<Rightarrow> 'c conn" where
  "expect handler n cn = cn\<lparr>cn_parked := handler, cn_len := n\<rparr>"

definition with_client :: "('c \<Rightarrow> 'c) \<Rightarrow> 'c conn \<Rightarrow> 'c conn" where
  "with_client f cn = cn\<lparr>cn_client := f (cn_client cn)\<rparr>"

text \<open>A callback of the application, on the client inside the connection.\<close>

definition callback :: "('c \<Rightarrow> exn + 'c) \<Rightarrow> 'c conn \<Rightarrow> ('c conn \<Rightarrow> exn + 'c conn) \<Rightarrow> exn + 'c conn" where
  "callback method cn f =
     (case method (cn_client cn) of Inl e \<Rightarrow> Inl e | Inr c \<Rightarrow> f (cn\<lparr>cn_client := c\<rparr>))"

definition abortConnection ::
  "('z, 'm) client hooks \<Rightarrow> abort_reason \<Rightarrow> ('z, 'm) client conn \<Rightarrow> exn + ('z, 'm) client conn" where
  "abortConnection hk reason cn =
     callback (vncProtocolError hk reason) (cn\<lparr>cn_aborted := True, cn_packet := []\<rparr>)
       (\<lambda>cn'. Inr (with_client lose_connection cn'))"

section \<open>The greeting\<close>

definition SUPPORTED_SERVER_VERSIONS :: "(nat \<times> nat) list" where
  "SUPPORTED_SERVER_VERSIONS = [(3, 3), (3, 7), (3, 8), (3, 889), (4, 0), (4, 1), (5, 0)]"

definition MAX_CLIENT_VERSION :: "nat \<times> nat" where
  "MAX_CLIENT_VERSION = (3, 8)"

text \<open>\<open>RFB 000.000\<close> and a line feed; and \<open>bytes.translate\<close> with every digit mapped to \<open>0\<close>.\<close>

definition HEADER :: bytes where
  "HEADER = [82, 70, 66, 32, 48, 48, 48, 46, 48, 48, 48, 10]"

definition header_translate :: "bytes \<Rightarrow> bytes" where
  "header_translate = map (\<lambda>b. if is_digit b then 48 else b)"

text \<open>\<open>int()\<close> of a run of digits, and \<open>%03d\<close>.\<close>

definition digits_val :: "bytes \<Rightarrow> nat" where
  "digits_val = foldl (\<lambda>acc b. 10 * acc + (unat b - 48)) 0"

definition dec3 :: "nat \<Rightarrow> bytes" where
  "dec3 n = [word_of_nat (48 + n div 100), word_of_nat (48 + n div 10 mod 10), word_of_nat (48 + n mod 10)]"

definition greeting :: "nat \<times> nat \<Rightarrow> bytes" where
  "greeting v = [82, 70, 66, 32] @ dec3 (fst v) @ [46] @ dec3 (snd v) @ [10]"

definition negotiate :: "nat \<times> nat \<Rightarrow> exn + nat \<times> nat" where
  "negotiate version_server =
     (case filter (\<lambda>v. v \<le> version_server) SUPPORTED_SERVER_VERSIONS of
        [] \<Rightarrow> Inl ValueError
      | vs \<Rightarrow> (let version = Max (set vs)
               in Inr (if version > MAX_CLIENT_VERSION then MAX_CLIENT_VERSION else version)))"

definition handleInitial ::
  "('z, 'm) client hooks \<Rightarrow> ('z, 'm) client conn \<Rightarrow> exn + ('z, 'm) client conn" where
  "handleInitial hk cn =
     (let head = take 12 (cn_packet cn); norm = header_translate head
      in if norm = HEADER
         then (let version_server = (digits_val (pslice 4 7 head), digits_val (pslice 8 11 head))
               in case negotiate version_server of
                    Inl e \<Rightarrow> Inl e
                  | Inr version \<Rightarrow>
                      (let cn1 = with_client (\<lambda>c. transport_write (greeting version)
                                   (c\<lparr>st_version := version, st_version_server := version_server\<rparr>))
                                   (cn\<lparr>cn_packet := drop 12 (cn_packet cn), cn_greeted := True\<rparr>)
                       in Inr (if version < (3, 7) then expect HandleAuth 4 cn1
                               else expect HandleNumberSecurityTypes 1 cn1)))
         else if take (length norm) HEADER \<noteq> norm
         then abortConnection hk (InvalidGreeting head) cn
         else Inr cn)"

section \<open>The pump\<close>

definition decode_errors :: "exn \<Rightarrow> bool" where
  "decode_errors e \<longleftrightarrow> (case e of DecodeError d \<Rightarrow> True | StructError \<Rightarrow> True | MemoryError \<Rightarrow> True
                          | ZlibError \<Rightarrow> True | _ \<Rightarrow> False)"

definition security_errors :: "exn \<Rightarrow> bool" where
  "security_errors e \<longleftrightarrow> (case e of SecurityError s \<Rightarrow> True | StructError \<Rightarrow> True | _ \<Rightarrow> False)"

text \<open>
  One \<open>send\<close> with its three ends: \<open>on_done\<close>, an error that is reported or let through, and a request
  for bytes, which parks the generator again.
\<close>

definition pump ::
  "('z, 'm) client hooks \<Rightarrow> (exn \<Rightarrow> bool) \<Rightarrow> (exn \<Rightarrow> abort_reason) \<Rightarrow>
     ((bytes \<Rightarrow> (('z, 'm) client, 'a) gen) \<Rightarrow> ('z, 'm) client parked) \<Rightarrow>
     ('a \<Rightarrow> ('z, 'm) client conn \<Rightarrow> exn + ('z, 'm) client conn) \<Rightarrow>
     (('z, 'm) client, 'a) gen \<Rightarrow> ('z, 'm) client conn \<Rightarrow> exn + ('z, 'm) client conn" where
  "pump hk errors describe park on_done g cn =
     (case send g (cn_client cn) of (c, result) \<Rightarrow>
        let cn1 = cn\<lparr>cn_client := c\<rparr>
        in (case result of
             Stopped a \<Rightarrow> on_done a cn1
           | Raised e \<Rightarrow> if errors e then abortConnection hk (describe e) cn1 else Inl e
           | Wants n k \<Rightarrow>
               if n < 0 then abortConnection hk (NegativeRequest n) cn1
               else Inr (expect (park k) (nat n) cn1)))"

section \<open>Security\<close>

definition doClientInitialization :: "('z, 'm) client conn \<Rightarrow> ('z, 'm) client conn" where
  "doClientInitialization cn =
     expect HandleServerInit 24
       (with_client (\<lambda>c. transport_write [if fac_shared c then 1 else 0] c) cn)"

definition finishSecurity :: "bool \<Rightarrow> ('z, 'm) client conn \<Rightarrow> exn + ('z, 'm) client conn" where
  "finishSecurity goes_on cn = Inr (if goes_on then doClientInitialization cn else cn)"

text \<open>
  The pump of a security type.  Where the VeNCrypt handler looks at the receive buffer the generator
  goes on at once, as the same \<open>send\<close>.
\<close>

definition pump_tunnel ::
  "('z, 'm) client hooks \<Rightarrow> nat \<Rightarrow> exn + (('z, 'm) client, bool) gen \<Rightarrow>
     ('z, 'm) client conn \<Rightarrow> exn + ('z, 'm) client conn" where
  "pump_tunnel hk t r cn =
     (case r of
        Inl e \<Rightarrow> pump hk security_errors (CannotNegotiate t) (PumpSecurity t)
                   (\<lambda>_. Inr) (Throw e) cn
      | Inr g \<Rightarrow> pump hk security_errors (CannotNegotiate t)
                   (\<lambda>k. PumpSecurity t (\<lambda>b. proceed (k b))) finishSecurity g
                   (cn\<lparr>cn_tls_pending := True\<rparr>))"

definition pump_security ::
  "('z, 'm) client hooks \<Rightarrow> nat \<Rightarrow> (('z, 'm) client, ('z, 'm) client security_outcome) gen \<Rightarrow>
     ('z, 'm) client conn \<Rightarrow> exn + ('z, 'm) client conn" where
  "pump_security hk t g cn =
     pump hk security_errors (CannotNegotiate t) (PumpSecurity t)
       (\<lambda>outcome cn1. case outcome of
          Proceed p \<Rightarrow> finishSecurity p cn1
        | PeekPacket k \<Rightarrow> pump_tunnel hk t (k (cn_packet cn1 \<noteq> [])) cn1) g cn"

definition startSecurity ::
  "'z externals \<Rightarrow> ('z, 'm) client hooks \<Rightarrow> nat \<Rightarrow> ('z, 'm) client conn \<Rightarrow>
     exn + ('z, 'm) client conn" where
  "startSecurity ex hk sec_type cn =
     (case security_handler ex hk sec_type of
        None \<Rightarrow> abortConnection hk (ServerChoseSecurity sec_type) cn
      | Some g \<Rightarrow> pump_security hk sec_type g cn)"

definition handleNumberSecurityTypes :: "bytes \<Rightarrow> 'c conn \<Rightarrow> exn + 'c conn" where
  "handleNumberSecurityTypes block cn =
     (let num_types = be_val block
      in Inr (if num_types \<noteq> 0 then expect HandleSecurityTypes num_types cn
              else expect HandleConnFailed 4 cn))"

definition handleSecurityTypes ::
  "'z externals \<Rightarrow> ('z, 'm) client hooks \<Rightarrow> bytes \<Rightarrow> ('z, 'm) client conn \<Rightarrow>
     exn + ('z, 'm) client conn" where
  "handleSecurityTypes ex hk block cn =
     (let types = map unat block; valid_types = set types \<inter> SUPPORTED_AUTHS
      in if valid_types \<noteq> {}
         then (let sec_type = Max valid_types
               in startSecurity ex hk sec_type
                    (with_client (transport_write (be_bytes 1 sec_type)) cn))
         else abortConnection hk (NoCommonSecurity types) cn)"

definition handleAuth ::
  "'z externals \<Rightarrow> ('z, 'm) client hooks \<Rightarrow> bytes \<Rightarrow> ('z, 'm) client conn \<Rightarrow>
     exn + ('z, 'm) client conn" where
  "handleAuth ex hk block cn =
     (let auth = be_val block
      in if auth = 0 then Inr (expect HandleConnFailed 4 cn)
         else if auth \<in> SUPPORTED_AUTHS then startSecurity ex hk auth cn
         else abortConnection hk (ServerRequiresSecurity auth) cn)"

definition handleConnFailed ::
  "('z, 'm) client hooks \<Rightarrow> bytes \<Rightarrow> ('z, 'm) client conn \<Rightarrow> exn + ('z, 'm) client conn" where
  "handleConnFailed hk block cn =
     (let waitfor = be_val block
      in case requirePayload waitfor of
           Inl (DecodeError d) \<Rightarrow> abortConnection hk (ConnFailedUnreadable d) cn
         | Inl e \<Rightarrow> Inl e
         | Inr _ \<Rightarrow> Inr (expect HandleConnMessage waitfor cn))"

definition handleConnMessage ::
  "('z, 'm) client hooks \<Rightarrow> bytes \<Rightarrow> ('z, 'm) client conn \<Rightarrow> exn + ('z, 'm) client conn" where
  "handleConnMessage hk block cn = abortConnection hk (ServerRefused block) cn"

section \<open>Initialisation\<close>

definition handleServerInit :: "bytes \<Rightarrow> ('z, 'm) client conn \<Rightarrow> exn + ('z, 'm) client conn" where
  "handleServerInit block cn =
     Inr (expect HandleServerName (u32_at 20 block)
       (with_client (\<lambda>c. c\<lparr>st_width := u16_at 0 block, st_height := u16_at 2 block,
          st_pixfmt := from_bytes (pslice 4 20 block)\<rparr>) cn))"

definition handleServerName ::
  "('z, 'm) client hooks \<Rightarrow> bytes \<Rightarrow> ('z, 'm) client conn \<Rightarrow> exn + ('z, 'm) client conn" where
  "handleServerName hk block cn =
     callback (vncConnectionMade hk) (with_client (\<lambda>c. c\<lparr>st_name := block\<rparr>) cn)
       (\<lambda>cn'. Inr (expect HandleConnection 1 cn'))"

section \<open>Messages and rectangles\<close>

definition finishMessage :: "unit \<Rightarrow> 'c conn \<Rightarrow> exn + 'c conn" where
  "finishMessage u cn = Inr (expect HandleConnection 1 cn)"

definition pump_message ::
  "('z, 'm) client hooks \<Rightarrow> nat \<Rightarrow> (('z, 'm) client, unit) gen \<Rightarrow> ('z, 'm) client conn \<Rightarrow>
     exn + ('z, 'm) client conn" where
  "pump_message hk msgid g cn =
     pump hk decode_errors (CannotDecodeMessage msgid) (PumpMessage msgid) finishMessage g cn"

definition handleConnection ::
  "('z, 'm) client hooks \<Rightarrow> bytes \<Rightarrow> ('z, 'm) client conn \<Rightarrow> exn + ('z, 'm) client conn" where
  "handleConnection hk block cn =
     (let msgid = be_val block
      in if msgid = 0 then Inr (expect HandleFramebufferUpdate 3 cn)
         else case message_handler hk msgid of
                None \<Rightarrow> abortConnection hk (MessageNotImplemented msgid) cn
              | Some g \<Rightarrow> pump_message hk msgid g cn)"

definition doConnection ::
  "('z, 'm) client hooks \<Rightarrow> ('z, 'm) client conn \<Rightarrow> exn + ('z, 'm) client conn" where
  "doConnection hk cn =
     (if st_rectangles (cn_client cn) \<noteq> 0 then Inr (expect HandleRectangle 12 cn)
      else callback (\<lambda>c. commitUpdate hk (st_rect_log c) c) cn
             (\<lambda>cn'. Inr (expect HandleConnection 1 cn')))"

definition handleFramebufferUpdate ::
  "('z, 'm) client hooks \<Rightarrow> bytes \<Rightarrow> ('z, 'm) client conn \<Rightarrow> exn + ('z, 'm) client conn" where
  "handleFramebufferUpdate hk block cn =
     callback (beginUpdate hk)
       (with_client (\<lambda>c. c\<lparr>st_rectangles := u16_at 1 block, st_rect_log := []\<rparr>) cn)
       (doConnection hk)"

definition finishRectangle ::
  "('z, 'm) client hooks \<Rightarrow> rect \<Rightarrow> rect_outcome \<Rightarrow> ('z, 'm) client conn \<Rightarrow>
     exn + ('z, 'm) client conn" where
  "finishRectangle hk r outcome cn =
     (case r of (x, y, width, height) \<Rightarrow>
      (case outcome of Outcome changed paste \<Rightarrow>
        (let log = (\<lambda>cn'. doConnection hk
              (if changed then with_client (\<lambda>c. c\<lparr>st_rect_log := st_rect_log c @ [r]\<rparr>) cn' else cn'))
        in (case paste of
             None \<Rightarrow> log cn
           | Some (pixels, fmt) \<Rightarrow>
               (let needed = width * height * bypp fmt
                in if length pixels \<noteq> needed
                   then abortConnection hk
                          (WrongPasteLength (length pixels) width height (bypp fmt) needed) cn
                   else callback (updateRectangle hk x y width height pixels fmt) cn log)))))"

definition pump_rectangle ::
  "('z, 'm) client hooks \<Rightarrow> rect \<Rightarrow> (('z, 'm) client, rect_outcome) gen \<Rightarrow> ('z, 'm) client conn \<Rightarrow>
     exn + ('z, 'm) client conn" where
  "pump_rectangle hk r g cn =
     pump hk decode_errors CannotDecodeRectangle (PumpRectangle r) (finishRectangle hk r) g cn"

definition handleRectangle ::
  "'z externals \<Rightarrow> ('z, 'm) client hooks \<Rightarrow> bytes \<Rightarrow> ('z, 'm) client conn \<Rightarrow>
     exn + ('z, 'm) client conn" where
  "handleRectangle ex hk block cn =
     (let r = (u16_at 0 block, u16_at 2 block, u16_at 4 block, u16_at 6 block);
          encoding = s32_of (u32_at 8 block);
          cn1 = (if encoding = PSEUDO_LAST_RECT then with_client (\<lambda>c. c\<lparr>st_rectangles := 0\<rparr>) cn else cn)
      in if st_rectangles (cn_client cn1) \<noteq> 0
         then (let cn2 = with_client (\<lambda>c. c\<lparr>st_rectangles := st_rectangles c - 1\<rparr>) cn1
               in case decoder_for ex hk encoding of
                    None \<Rightarrow> abortConnection hk (EncodingNotDecoded encoding) cn2
                  | Some decode \<Rightarrow>
                      pump_rectangle hk r (decode r (st_pixfmt (cn_client cn2))) cn2)
         else doConnection hk cn1)"

section \<open>The loop\<close>

text \<open>
  One turn of \<open>_handleExpected\<close>: the parked handler with its block.  A security type's generator that
  has ended stays parked unless its handler calls \<open>expect\<close>: sent another block it ends again, with
  None, which \<open>_finishSecurity\<close> takes for false.
\<close>

fun handle ::
  "'z externals \<Rightarrow> ('z, 'm) client hooks \<Rightarrow> ('z, 'm) client parked \<Rightarrow> bytes \<Rightarrow> ('z, 'm) client conn \<Rightarrow>
     exn + ('z, 'm) client conn" where
  "handle ex hk HandleAuth block cn = handleAuth ex hk block cn"
| "handle ex hk HandleNumberSecurityTypes block cn = handleNumberSecurityTypes block cn"
| "handle ex hk HandleSecurityTypes block cn = handleSecurityTypes ex hk block cn"
| "handle ex hk HandleConnFailed block cn = handleConnFailed hk block cn"
| "handle ex hk HandleConnMessage block cn = handleConnMessage hk block cn"
| "handle ex hk HandleServerInit block cn = handleServerInit block cn"
| "handle ex hk HandleServerName block cn = handleServerName hk block cn"
| "handle ex hk HandleConnection block cn = handleConnection hk block cn"
| "handle ex hk HandleFramebufferUpdate block cn = handleFramebufferUpdate hk block cn"
| "handle ex hk HandleRectangle block cn = handleRectangle ex hk block cn"
| "handle ex hk (PumpSecurity t k) block cn =
     pump_security hk t (k block) (cn\<lparr>cn_parked := PumpSecurity t (\<lambda>_. Return (Proceed False))\<rparr>)"
| "handle ex hk (PumpMessage msgid k) block cn = pump_message hk msgid (k block) cn"
| "handle ex hk (PumpRectangle r k) block cn = pump_rectangle hk r (k block) cn"

definition turn ::
  "'z externals \<Rightarrow> ('z, 'm) client hooks \<Rightarrow> ('z, 'm) client conn \<Rightarrow> exn + ('z, 'm) client conn" where
  "turn ex hk cn =
     handle ex hk (cn_parked cn) (take (cn_len cn) (cn_packet cn))
       (cn\<lparr>cn_packet := drop (cn_len cn) (cn_packet cn)\<rparr>)"

definition runs :: "'c conn \<Rightarrow> bool" where
  "runs cn \<longleftrightarrow> cn_len cn \<le> length (cn_packet cn) \<and> \<not> cn_aborted cn"

partial_function (option) handleExpected ::
  "'z externals \<Rightarrow> ('z, 'm) client hooks \<Rightarrow> ('z, 'm) client conn \<Rightarrow>
     (exn + ('z, 'm) client conn) option" where
  "handleExpected ex hk cn =
     (if runs cn
      then (case turn ex hk cn of Inl e \<Rightarrow> Some (Inl e) | Inr cn' \<Rightarrow> handleExpected ex hk cn')
      else Some (Inr cn))"

definition dataReceived ::
  "'z externals \<Rightarrow> ('z, 'm) client hooks \<Rightarrow> bytes \<Rightarrow> ('z, 'm) client conn \<Rightarrow>
     (exn + ('z, 'm) client conn) option" where
  "dataReceived ex hk data cn =
     (if cn_aborted cn then Some (Inr cn)
      else
        (let cn1 = cn\<lparr>cn_tls_pending := False, cn_packet := cn_packet cn @ data\<rparr>
         in if cn_greeted cn1 then handleExpected ex hk cn1
            else (case handleInitial hk cn1 of
                    Inl e \<Rightarrow> Some (Inl e)
                  | Inr cn2 \<Rightarrow> if cn_greeted cn2 then handleExpected ex hk cn2 else Some (Inr cn2))))"

definition connectionLost ::
  "('z, 'm) client hooks \<Rightarrow> ('z, 'm) client conn \<Rightarrow> exn + ('z, 'm) client conn" where
  "connectionLost hk cn =
     (if cn_tls_pending cn \<and> \<not> cn_aborted cn
      then callback (vncProtocolError hk (TlsHandshakeFailed (st_vencrypt_subtype (cn_client cn))))
             (cn\<lparr>cn_tls_pending := False\<rparr>) Inr
      else Inr cn)"

end
