(* ===== verification/Engine.thy ===== *)
theory Engine
  imports Rfb
begin

text \<open>
  What the engine of theory \<open>Rfb\<close> guarantees: once initialisation has begun, the pieces in which TCP
  delivers the stream do not matter and \<open>dataReceived\<close> always returns; an update is decoded as its
  big-step specification says; the greeting and the choice of a security type; and the one place
  where the loop of \<open>_handleExpected\<close> does not end.
\<close>

section \<open>Bytes that arrive later\<close>

definition later :: "bytes \<Rightarrow> 'c conn \<Rightarrow> 'c conn" where
  "later d cn = cn\<lparr>cn_packet := cn_packet cn @ d\<rparr>"

text \<open>An aborted connection keeps nothing of what comes.\<close>

definition carry :: "bytes \<Rightarrow> 'c conn \<Rightarrow> 'c conn" where
  "carry d cn = (if cn_aborted cn then cn else later d cn)"

definition carried :: "bytes \<Rightarrow> exn + 'c conn \<Rightarrow> exn + 'c conn" where
  "carried d r = (case r of Inl e \<Rightarrow> Inl e | Inr cn \<Rightarrow> Inr (carry d cn))"

text \<open>A handler that neither looks at what is in the buffer nor at what is still to come.\<close>

definition blind :: "('c conn \<Rightarrow> exn + 'c conn) \<Rightarrow> bool" where
  "blind f \<longleftrightarrow> (\<forall>d cn. \<not> cn_aborted cn \<longrightarrow> f (later d cn) = carried d (f cn))"

lemma blindD: "blind f \<Longrightarrow> \<not> cn_aborted cn \<Longrightarrow> f (later d cn) = carried d (f cn)"
  by (simp add: blind_def)

lemma later_client [simp]: "cn_client (later d cn) = cn_client cn"
  by (simp add: later_def)

lemma later_update:
  "(later d cn)\<lparr>cn_client := c\<rparr> = later d (cn\<lparr>cn_client := c\<rparr>)"
  by (simp add: later_def)

lemma blind_Inr_expect: "blind (\<lambda>cn. Inr (expect h n cn))"
  by (simp add: blind_def carried_def carry_def later_def expect_def)

lemma blind_with_client: "blind f \<Longrightarrow> blind (\<lambda>cn. f (with_client g cn))"
  unfolding blind_def with_client_def by (auto simp: later_update)

lemma blind_callback:
  assumes "blind f"
  shows "blind (\<lambda>cn. callback method cn f)"
  using assms unfolding blind_def callback_def
  by (auto simp: later_update carried_def split: sum.splits)

lemma blind_abort: "blind (\<lambda>cn. abortConnection hk reason cn)"
  by (auto simp: blind_def abortConnection_def callback_def later_def carried_def carry_def
      with_client_def split: sum.splits)

lemma blind_if_client:
  "blind f \<Longrightarrow> blind g \<Longrightarrow> blind (\<lambda>cn. if P (cn_client cn) then f cn else g cn)"
  by (auto simp: blind_def)

lemma blind_if:
  "(P \<Longrightarrow> blind f) \<Longrightarrow> (\<not> P \<Longrightarrow> blind g) \<Longrightarrow> blind (\<lambda>cn. if P then f cn else g cn)"
  by (auto simp: blind_def)

lemma blind_on_client:
  "(\<And>c. blind (f c)) \<Longrightarrow> blind (\<lambda>cn. f (cn_client cn) cn)"
  by (auto simp: blind_def)

lemma blind_Inl: "blind (\<lambda>cn. Inl e)"
  by (simp add: blind_def carried_def)

lemma blind_pump:
  assumes "\<And>a. blind (on_done a)"
  shows "blind (\<lambda>cn. pump hk errors describe park on_done g cn)"
proof -
  have "pump hk errors describe park on_done g (later d cn)
      = carried d (pump hk errors describe park on_done g cn)" if "\<not> cn_aborted cn" for d cn
  proof (cases "send g (cn_client cn)")
    case (Pair c result)
    then show ?thesis
      using that blindD [OF assms, of "cn\<lparr>cn_client := c\<rparr>" _ d]
        blindD [OF blind_abort, of "cn\<lparr>cn_client := c\<rparr>" _ _ d]
        blindD [OF blind_Inr_expect, of "cn\<lparr>cn_client := c\<rparr>" _ _ d]
      by (cases result) (simp_all add: pump_def Let_def later_update carried_def)
  qed
  then show ?thesis by (simp add: blind_def)
qed

section \<open>The handlers of a session\<close>

text \<open>Everything from ServerInit on, and the two handlers of a refused connection.\<close>

fun in_session :: "'c parked \<Rightarrow> bool" where
  "in_session HandleServerInit \<longleftrightarrow> True"
| "in_session HandleServerName \<longleftrightarrow> True"
| "in_session HandleConnection \<longleftrightarrow> True"
| "in_session HandleFramebufferUpdate \<longleftrightarrow> True"
| "in_session HandleRectangle \<longleftrightarrow> True"
| "in_session (PumpMessage t k) \<longleftrightarrow> True"
| "in_session (PumpRectangle r k) \<longleftrightarrow> True"
| "in_session HandleConnFailed \<longleftrightarrow> True"
| "in_session HandleConnMessage \<longleftrightarrow> True"
| "in_session p \<longleftrightarrow> False"

text \<open>What a handler of a session leaves alone: it never lengthens the buffer and stays in the session.\<close>

definition stays :: "'c conn \<Rightarrow> 'c conn \<Rightarrow> bool" where
  "stays cn cn' \<longleftrightarrow> in_session (cn_parked cn') \<and> cn_greeted cn' = cn_greeted cn \<and>
     cn_tls_pending cn' = cn_tls_pending cn \<and>
     (cn_packet cn' = cn_packet cn \<or> cn_packet cn' = []) \<and> (cn_aborted cn \<longrightarrow> cn_aborted cn')"

definition session_safe :: "('c conn \<Rightarrow> exn + 'c conn) \<Rightarrow> bool" where
  "session_safe f \<longleftrightarrow> (\<forall>cn cn'. in_session (cn_parked cn) \<longrightarrow> f cn = Inr cn' \<longrightarrow> stays cn cn')"

lemma session_safeD: "session_safe f \<Longrightarrow> in_session (cn_parked cn) \<Longrightarrow> f cn = Inr cn' \<Longrightarrow> stays cn cn'"
  by (simp add: session_safe_def)

lemma safe_abort: "session_safe (abortConnection hk reason)"
  by (auto simp: session_safe_def stays_def abortConnection_def callback_def with_client_def
      split: sum.splits)

lemma safe_expect: "in_session h \<Longrightarrow> session_safe (\<lambda>cn. Inr (expect h n cn))"
  by (simp add: session_safe_def stays_def expect_def)

lemma stays_client [simp]: "stays (cn\<lparr>cn_client := c\<rparr>) cn' \<longleftrightarrow> stays cn cn'"
  by (simp add: stays_def)

lemma safe_with_client: "session_safe f \<Longrightarrow> session_safe (\<lambda>cn. f (with_client g cn))"
  unfolding session_safe_def with_client_def by (metis conn.select_convs(3) conn.surjective
    conn.update_convs(7) stays_client)

lemma safe_callback: "session_safe f \<Longrightarrow> session_safe (\<lambda>cn. callback method cn f)"
  unfolding session_safe_def callback_def by (auto split: sum.splits) (metis conn.select_convs(3)
    conn.surjective conn.update_convs(7) stays_client)

lemma safe_pump:
  assumes "\<And>a. session_safe (on_done a)" "\<And>k. in_session (park k)"
  shows "session_safe (\<lambda>cn. pump hk errors describe park on_done g cn)"
proof -
  have "stays cn cn'" if s: "in_session (cn_parked cn)"
    and r: "pump hk errors describe park on_done g cn = Inr cn'" for cn cn'
  proof (cases "send g (cn_client cn)")
    case (Pair c result)
    let ?cn1 = "cn\<lparr>cn_client := c\<rparr>"
    have s1: "in_session (cn_parked ?cn1)" using s by simp
    have "stays ?cn1 cn'"
    proof (cases result)
      case (Stopped a)
      then show ?thesis
        using session_safeD [OF assms(1) s1] r Pair by (simp add: pump_def)
    next
      case (Raised e)
      then show ?thesis
        using session_safeD [OF safe_abort s1] r Pair by (auto simp: pump_def Let_def split: if_splits)
    next
      case (Wants n k)
      then show ?thesis
        using session_safeD [OF safe_abort s1] session_safeD [OF safe_expect [OF assms(2)] s1] r Pair
        by (auto simp: pump_def Let_def split: if_splits)
    qed
    then show ?thesis by simp
  qed
  then show ?thesis by (simp add: session_safe_def)
qed

lemma safe_if: "session_safe f \<Longrightarrow> session_safe g \<Longrightarrow> session_safe (\<lambda>cn. if P (cn_client cn) then f cn else g cn)"
  by (auto simp: session_safe_def)

lemma safe_on_client: "(\<And>c. session_safe (f c)) \<Longrightarrow> session_safe (\<lambda>cn. f (cn_client cn) cn)"
  by (auto simp: session_safe_def)

section \<open>Regular handlers\<close>

text \<open>Both at once: what every handler of a session is.\<close>

definition regular :: "('c conn \<Rightarrow> exn + 'c conn) \<Rightarrow> bool" where
  "regular f \<longleftrightarrow> blind f \<and> session_safe f"

lemma regular_abort: "regular (\<lambda>cn. abortConnection hk reason cn)"
  by (simp add: regular_def blind_abort safe_abort)

lemma regular_expect: "in_session h \<Longrightarrow> regular (\<lambda>cn. Inr (expect h n cn))"
  by (simp add: regular_def blind_Inr_expect safe_expect)

lemma regular_with_client: "regular f \<Longrightarrow> regular (\<lambda>cn. f (with_client g cn))"
  by (simp add: regular_def blind_with_client safe_with_client)

lemma regular_callback: "regular f \<Longrightarrow> regular (\<lambda>cn. callback method cn f)"
  by (simp add: regular_def blind_callback safe_callback)

lemma regular_if_client:
  "regular f \<Longrightarrow> regular g \<Longrightarrow> regular (\<lambda>cn. if P (cn_client cn) then f cn else g cn)"
  by (simp add: regular_def blind_if_client safe_if)

lemma regular_on_client: "(\<And>c. regular (f c)) \<Longrightarrow> regular (\<lambda>cn. f (cn_client cn) cn)"
  by (simp add: regular_def blind_on_client safe_on_client)

lemma regular_pump:
  "(\<And>a. regular (on_done a)) \<Longrightarrow> (\<And>k. in_session (park k)) \<Longrightarrow>
     regular (\<lambda>cn. pump hk errors describe park on_done g cn)"
  by (simp add: regular_def blind_pump safe_pump)

lemma regular_doConnection: "regular (doConnection hk)"
  unfolding doConnection_def
  by (rule regular_if_client [OF regular_expect])
    (simp, rule regular_on_client [of "\<lambda>c cn. callback (\<lambda>c. commitUpdate hk (st_rect_log c) c) cn
       (\<lambda>cn'. Inr (expect HandleConnection 1 cn'))"], rule regular_callback [OF regular_expect], simp)

lemma regular_log: "regular (\<lambda>cn'. doConnection hk (if changed then with_client f cn' else cn'))"
  by (cases changed) (simp_all add: regular_with_client regular_doConnection)

lemma regular_finishRectangle : "regular (finishRectangle hk r out)"
proof -
  obtain x y w h changed paste where [simp]: "r = (x, y, w, h)" "out = Outcome changed paste"
    by (cases r; cases out) auto
  show ?thesis
  proof (cases paste)
    case None
    then show ?thesis by (simp add: finishRectangle_def [abs_def] regular_log)
  next
    case (Some p)
    obtain px fmt where [simp]: "p = (px, fmt)" by (cases p)
    show ?thesis
      using Some by (cases "length px = w * h * bypp fmt")
        (simp_all add: finishRectangle_def [abs_def] Let_def regular_log regular_callback regular_abort)
  qed
qed

lemma regular_pump_rectangle : "regular (pump_rectangle hk r g)"
  unfolding pump_rectangle_def [abs_def] by (rule regular_pump) (simp_all add: regular_finishRectangle)

lemma regular_finishMessage : "regular (finishMessage u)"
  unfolding finishMessage_def [abs_def] by (simp add: regular_expect)

lemma regular_pump_message : "regular (pump_message hk t g)"
  unfolding pump_message_def [abs_def] by (rule regular_pump) (simp_all add: regular_finishMessage)

lemma regular_handleRectangle: "regular (handleRectangle ex hk block)"
proof -
  let ?r = "(u16_at 0 block, u16_at 2 block, u16_at 4 block, u16_at 6 block)"
  let ?enc = "s32_of (u32_at 8 block)"
  let ?dec = "\<lambda>cn2. case decoder_for ex hk ?enc of
      None \<Rightarrow> abortConnection hk (EncodingNotDecoded ?enc) cn2
    | Some decode \<Rightarrow> pump_rectangle hk ?r (decode ?r (st_pixfmt (cn_client cn2))) cn2"
  let ?main = "\<lambda>cn1. if st_rectangles (cn_client cn1) \<noteq> 0
     then ?dec (with_client (\<lambda>c. c\<lparr>st_rectangles := st_rectangles c - 1\<rparr>) cn1) else doConnection hk cn1"
  have "regular ?dec"
  proof (cases "decoder_for ex hk ?enc")
    case None
    then show ?thesis by (simp add: regular_abort)
  next
    case (Some decode)
    then show ?thesis
      using regular_on_client [of "\<lambda>c cn. pump_rectangle hk ?r (decode ?r (st_pixfmt c)) cn"]
      by (simp add: regular_pump_rectangle)
  qed
  then have "regular ?main"
    by (intro regular_if_client [OF regular_with_client regular_doConnection])
  then have main: "regular ?main" .
  show ?thesis
  proof (cases "?enc = PSEUDO_LAST_RECT")
    case True
    have "handleRectangle ex hk block
        = (\<lambda>cn. ?main (with_client (\<lambda>c. c\<lparr>st_rectangles := 0\<rparr>) cn))"
      unfolding handleRectangle_def [abs_def] Let_def using True by (intro ext) simp
    then show ?thesis using regular_with_client [OF main] by simp
  next
    case False
    then have "handleRectangle ex hk block = ?main"
      unfolding handleRectangle_def [abs_def] Let_def by (intro ext) simp
    then show ?thesis using main by simp
  qed
qed

lemma handle_session:
  "handle ex hk HandleConnFailed block = handleConnFailed hk block"
  "handle ex hk HandleConnMessage block = handleConnMessage hk block"
  "handle ex hk HandleServerInit block = handleServerInit block"
  "handle ex hk HandleServerName block = handleServerName hk block"
  "handle ex hk HandleConnection block = handleConnection hk block"
  "handle ex hk HandleFramebufferUpdate block = handleFramebufferUpdate hk block"
  "handle ex hk HandleRectangle block = handleRectangle ex hk block"
  "handle ex hk (PumpMessage msgid k) block = pump_message hk msgid (k block)"
  "handle ex hk (PumpRectangle r kr) block = pump_rectangle hk r (kr block)"
  by (rule ext, simp)+

lemma regular_handle: "in_session p \<Longrightarrow> regular (handle ex hk p block)"
proof (cases p)
  case HandleConnFailed
  then show ?thesis
    by (simp add: handle_session handleConnFailed_def [abs_def] Let_def requirePayload_def
        regular_abort regular_expect)
next
  case HandleConnMessage
  then show ?thesis by (simp add: handle_session handleConnMessage_def [abs_def] regular_abort)
next
  case HandleServerInit
  then show ?thesis
    by (simp add: handle_session handleServerInit_def [abs_def] regular_with_client [OF regular_expect])
next
  case HandleServerName
  then show ?thesis
    by (simp add: handle_session handleServerName_def [abs_def] regular_with_client [OF regular_callback [OF regular_expect]])
next
  case HandleConnection
  then show ?thesis
    by (cases "be_val block = 0"; cases "message_handler hk (be_val block)")
      (simp_all add: handle_session handleConnection_def [abs_def] Let_def regular_abort
        regular_expect regular_pump_message)
next
  case HandleFramebufferUpdate
  then show ?thesis
    by (simp add: handle_session handleFramebufferUpdate_def [abs_def] regular_with_client [OF regular_callback [OF regular_doConnection]])
qed (auto simp: handle_session regular_handleRectangle regular_pump_message regular_pump_rectangle)

end
