(* ===== verification/Delivery.thy ===== *)
theory Delivery
  imports Engine
begin

text \<open>
  From ServerInit on: \<open>dataReceived\<close> returns whatever arrives, and what a stream does to the connection
  does not depend on the pieces TCP cuts it into.  The second is the law of the interface
  \<open>stream_machine\<close>, interpreted here on the engine.
\<close>

section \<open>The loop returns\<close>

definition returns ::
  "'z externals \<Rightarrow> ('z, 'm) client hooks \<Rightarrow> ('z, 'm) client conn \<Rightarrow> bool" where
  "returns ex hk cn \<longleftrightarrow> handleExpected ex hk cn \<noteq> None"

lemma with_client_sel [simp]:
  "cn_parked (with_client f cn) = cn_parked cn" "cn_packet (with_client f cn) = cn_packet cn"
  "cn_len (with_client f cn) = cn_len cn" "cn_aborted (with_client f cn) = cn_aborted cn"
  by (simp_all add: with_client_def)

lemma returns_stopped: "\<not> runs cn \<Longrightarrow> returns ex hk cn"
  unfolding returns_def by (subst handleExpected.simps) simp

lemma returns_turn:
  "(\<And>cn'. turn ex hk cn = Inr cn' \<Longrightarrow> returns ex hk cn') \<Longrightarrow> returns ex hk cn"
  unfolding returns_def by (subst handleExpected.simps) (auto split: sum.splits)

lemma aborted_stops: "cn_aborted cn \<Longrightarrow> \<not> runs cn"
  by (simp add: runs_def)

lemma returns_aborted: "cn_aborted cn \<Longrightarrow> returns ex hk cn"
  by (rule returns_stopped) (simp add: runs_def)

lemma abort_aborted: "abortConnection hk reason cn = Inr cn' \<Longrightarrow> cn_aborted cn'"
  by (auto simp: abortConnection_def callback_def with_client_def split: sum.splits)

text \<open>A turn takes its block off the buffer, and stays in the session.\<close>

lemma turn_stays:
  assumes "in_session (cn_parked cn)" "turn ex hk cn = Inr cn'"
  shows "stays (cn\<lparr>cn_packet := drop (cn_len cn) (cn_packet cn)\<rparr>) cn'"
proof -
  let ?cn1 = "cn\<lparr>cn_packet := drop (cn_len cn) (cn_packet cn)\<rparr>"
  have "session_safe (handle ex hk (cn_parked cn) (take (cn_len cn) (cn_packet cn)))"
    using regular_handle [OF assms(1)] by (simp add: regular_def)
  from session_safeD [OF this, of ?cn1 cn'] show ?thesis
    using assms by (simp add: turn_def)
qed

lemma turn_shortens:
  assumes "in_session (cn_parked cn)" "turn ex hk cn = Inr cn'" "runs cn"
  shows "length (cn_packet cn') + cn_len cn \<le> length (cn_packet cn) \<or> cn_packet cn' = []"
  using turn_stays [OF assms(1,2)] assms(3) by (auto simp: stays_def runs_def)

text \<open>
  The measure is the buffer, and within a buffer of one length the generator: a request of zero
  bytes goes on with a part of the generator it came from.
\<close>

lemma returns_positive:
  assumes IH: "\<And>cn'. in_session (cn_parked cn') \<Longrightarrow> length (cn_packet cn') < N \<Longrightarrow> returns ex hk cn'"
    and cn: "in_session (cn_parked cn)" "length (cn_packet cn) \<le> N" "0 < cn_len cn"
  shows "returns ex hk cn"
proof (cases "runs cn")
  case False
  then show ?thesis by (rule returns_stopped)
next
  case True
  show ?thesis
  proof (rule returns_turn)
    fix cn' assume t: "turn ex hk cn = Inr cn'"
    have "length (cn_packet cn') < N"
      using turn_shortens [OF cn(1) t True] True cn(2,3) by (auto simp: runs_def)
    with IH show "returns ex hk cn'"
      using turn_stays [OF cn(1) t] by (simp add: stays_def)
  qed
qed

lemma pump_returns:
  assumes small: "\<And>cn'. in_session (cn_parked cn') \<Longrightarrow> length (cn_packet cn') \<le> N \<Longrightarrow> 0 < cn_len cn' \<Longrightarrow>
      returns ex hk cn'"
    and on_done: "\<And>a cn cn'. in_session (cn_parked cn) \<Longrightarrow> length (cn_packet cn) \<le> N \<Longrightarrow>
      on_done a cn = Inr cn' \<Longrightarrow> returns ex hk cn'"
    and park: "\<And>k. in_session (park k)"
      "\<And>k block cn. handle ex hk (park k) block cn = pump hk errors describe park on_done (k block) cn"
  shows "in_session (cn_parked cn) \<Longrightarrow> length (cn_packet cn) \<le> N \<Longrightarrow>
     pump hk errors describe park on_done g cn = Inr cn' \<Longrightarrow> returns ex hk cn'"
proof (induction g arbitrary: cn cn')
  case (Return a)
  then show ?case using on_done [of "cn\<lparr>cn_client := cn_client cn\<rparr>"] by (simp add: pump_def)
next
  case (Throw e)
  then show ?case
    by (auto simp: pump_def split: if_splits dest: abort_aborted intro!: returns_aborted)
next
  case (Yield n k)
  show ?case
  proof (cases "n < 0")
    case True
    with Yield.prems show ?thesis
      by (auto simp: pump_def dest: abort_aborted intro!: returns_aborted)
  next
    case False
    with Yield.prems have cn': "cn' = expect (park k) (nat n) cn" by (simp add: pump_def)
    show ?thesis
    proof (cases "n = 0")
      case True
      show ?thesis
      proof (rule returns_turn)
        fix cn2 assume "turn ex hk cn' = Inr cn2"
        then have "pump hk errors describe park on_done (k []) cn' = Inr cn2"
          by (simp add: turn_def cn' True expect_def park)
        then show "returns ex hk cn2"
          by (rule Yield.IH [OF rangeI, rotated 2])
            (use Yield.prems(1,2) in \<open>simp_all add: cn' expect_def park\<close>)
      qed
    next
      case pos: False
      with False show ?thesis
        using Yield.prems(2) small by (simp add: cn' expect_def park)
    qed
  qed
next
  case (ReadClient k)
  show ?case
    using ReadClient.IH [OF rangeI ReadClient.prems(1,2), of "cn_client cn"] ReadClient.prems(3)
    by (simp add: pump_def)
next
  case (WriteClient c g)
  then show ?case
    using WriteClient.IH [of "cn\<lparr>cn_client := c\<rparr>"] by (simp add: pump_def)
qed

text \<open>Where the engine goes after a rectangle or a message it waits for at least one byte, or has aborted.\<close>

definition waits :: "'c conn \<Rightarrow> 'c conn \<Rightarrow> bool" where
  "waits cn cn' \<longleftrightarrow>
     cn_aborted cn' \<or> in_session (cn_parked cn') \<and> 0 < cn_len cn' \<and> cn_packet cn' = cn_packet cn"

lemma waits_client [simp]:
  "waits (cn\<lparr>cn_client := c\<rparr>) cn' \<longleftrightarrow> waits cn cn'" "waits (with_client f cn) cn' \<longleftrightarrow> waits cn cn'"
  by (simp_all add: waits_def with_client_def)

lemma waits_abort: "abortConnection hk reason cn1 = Inr cn' \<Longrightarrow> waits cn cn'"
  by (simp add: waits_def abort_aborted)

lemma waits_expect [simp]: "in_session h \<Longrightarrow> 0 < n \<Longrightarrow> waits cn (expect h n cn)"
  by (simp add: waits_def expect_def)

lemma doConnection_waits: "doConnection hk cn = Inr cn' \<Longrightarrow> waits cn cn'"
proof -
  assume r: "doConnection hk cn = Inr cn'"
  show ?thesis
  proof (cases "st_rectangles (cn_client cn) = 0")
    case True
    with r obtain c where "cn' = expect HandleConnection 1 (cn\<lparr>cn_client := c\<rparr>)"
      by (auto simp: doConnection_def callback_def split: sum.splits)
    then show ?thesis
      using waits_expect [of HandleConnection 1 "cn\<lparr>cn_client := c\<rparr>"] by simp
  next
    case False
    with r show ?thesis by (auto simp: doConnection_def)
  qed
qed

lemma finishRectangle_waits:
  assumes r: "finishRectangle hk r out cn = Inr cn'"
  shows "waits cn cn'"
proof -
  obtain x y w h changed paste where [simp]: "r = (x, y, w, h)" "out = Outcome changed paste"
    by (cases r; cases out) auto
  have log: "doConnection hk (if changed then with_client f cn1 else cn1) = Inr cn' \<Longrightarrow> waits cn1 cn'"
    for f cn1 by (drule doConnection_waits) (auto split: if_splits)
  show ?thesis
  proof (cases paste)
    case None
    then show ?thesis using r log by (simp add: finishRectangle_def)
  next
    case (Some p)
    obtain px fmt where [simp]: "p = (px, fmt)" by (cases p)
    show ?thesis
    proof (cases "length px = w * h * bypp fmt")
      case False
      then show ?thesis using r Some by (simp add: finishRectangle_def Let_def waits_abort)
    next
      case True
      then show ?thesis
        using r Some log by (fastforce simp: finishRectangle_def Let_def callback_def split: sum.splits)
    qed
  qed
qed

lemma finishMessage_waits: "finishMessage u cn = Inr cn' \<Longrightarrow> waits cn cn'"
  by (auto simp: finishMessage_def)

lemma session_returns_upto:
  assumes IH: "\<And>cn'. in_session (cn_parked cn') \<Longrightarrow> length (cn_packet cn') < N \<Longrightarrow> returns ex hk cn'"
    and cn: "in_session (cn_parked cn)" "length (cn_packet cn) \<le> N"
  shows "returns ex hk cn"
proof (cases "0 < cn_len cn")
  case True
  with returns_positive [OF IH] cn show ?thesis by blast
next
  case False
  then have len0: "cn_len cn = 0" by simp
  have small: "returns ex hk cn'"
    if "in_session (cn_parked cn')" "length (cn_packet cn') \<le> N" "0 < cn_len cn'" for cn'
    using returns_positive [OF IH] that by blast
  have waiting: "returns ex hk cn2" if "waits cn1 cn2" "length (cn_packet cn1) \<le> N" for cn1 cn2
    using that small unfolding waits_def by (metis aborted_stops returns_stopped)
  have rect: "returns ex hk cn2" if "in_session (cn_parked cn1)" "length (cn_packet cn1) \<le> N"
    "pump_rectangle hk r g cn1 = Inr cn2" for r g cn1 cn2
    using that(3) unfolding pump_rectangle_def
    by (rule pump_returns [where N = N and on_done = "finishRectangle hk r" and park = "PumpRectangle r",
          rotated -1])
      (use that(1,2) in \<open>auto simp: pump_rectangle_def intro: small waiting finishRectangle_waits\<close>)
  have message: "returns ex hk cn2" if "in_session (cn_parked cn1)" "length (cn_packet cn1) \<le> N"
    "pump_message hk t g cn1 = Inr cn2" for t g cn1 cn2
    using that(3) unfolding pump_message_def
    by (rule pump_returns [where N = N and on_done = finishMessage and park = "PumpMessage t",
          rotated -1])
      (use that(1,2) in \<open>auto simp: pump_message_def intro: small waiting finishMessage_waits\<close>)
  have turn0: "turn ex hk cn1 = handle ex hk (cn_parked cn1) [] cn1" if "cn_len cn1 = 0" for cn1
    using that by (simp add: turn_def)
  have name: "returns ex hk cn1" if "cn_parked cn1 = HandleServerName" "length (cn_packet cn1) \<le> N" for cn1
  proof (cases "cn_len cn1 = 0")
    case True
    note here = that(1)
    show ?thesis
    proof (rule returns_turn)
      fix cn2 assume "turn ex hk cn1 = Inr cn2"
      then obtain c where "cn2 = expect HandleConnection 1 (cn1\<lparr>cn_client := c\<rparr>)"
        by (auto simp: turn0 True here handleServerName_def callback_def with_client_def split: sum.splits)
      then show "returns ex hk cn2" using small that(2) by (simp add: expect_def)
    qed
  qed (use small that in simp)
  have failed: "returns ex hk cn1" if "cn_parked cn1 = HandleConnMessage" "length (cn_packet cn1) \<le> N" for cn1
  proof (cases "cn_len cn1 = 0")
    case True
    show ?thesis
      by (rule returns_turn)
        (auto simp: turn0 True that(1) handleConnMessage_def
          dest!: abort_aborted intro: returns_aborted)
  qed (use small that in simp)
  show ?thesis
  proof (rule returns_turn)
    fix cn2 assume "turn ex hk cn = Inr cn2"
    then have h: "handle ex hk (cn_parked cn) [] cn = Inr cn2" by (simp add: turn0 len0)
    have abort: "returns ex hk cn2" if "abortConnection hk reason cn1 = Inr cn2" for reason cn1
      using that by (auto dest: abort_aborted intro: returns_aborted)
    have done_: "returns ex hk cn2" if "doConnection hk cn1 = Inr cn2" "length (cn_packet cn1) \<le> N" for cn1
      using doConnection_waits [OF that(1)] that(2) waiting by blast
    show "returns ex hk cn2"
    proof (cases "cn_parked cn")
      case HandleConnFailed
      then show ?thesis
        using h cn(2) failed by (auto simp: handleConnFailed_def Let_def requirePayload_def expect_def)
    next
      case HandleConnMessage
      then show ?thesis using h abort by (simp add: handleConnMessage_def)
    next
      case HandleServerInit
      then show ?thesis
        using h cn(2) name by (auto simp: handleServerInit_def with_client_def expect_def)
    next
      case HandleServerName
      then show ?thesis
        using h cn(2) small
        by (auto simp: handleServerName_def callback_def with_client_def expect_def split: sum.splits)
    next
      case HandleConnection
      then show ?thesis using h cn(2) small by (auto simp: handleConnection_def expect_def)
    next
      case HandleFramebufferUpdate
      then show ?thesis
        using h cn(2) done_
        by (auto simp: handleFramebufferUpdate_def callback_def with_client_def split: sum.splits)
    next
      case HandleRectangle
      then show ?thesis
        using h cn by (auto simp: handleRectangle_def Let_def split: if_splits option.splits
            intro: abort elim!: rect [rotated -1] done_)
    next
      case (PumpMessage t k)
      then show ?thesis using h message [OF cn] by simp
    next
      case (PumpRectangle r k)
      then show ?thesis using h rect [OF cn] by simp
    qed (use cn(1) in simp_all)
  qed
qed

lemma session_returns:
  "in_session (cn_parked cn) \<Longrightarrow> returns ex hk cn"
proof (induction "length (cn_packet cn)" arbitrary: cn rule: less_induct)
  case less
  show ?case by (rule session_returns_upto [OF less.hyps less.prems order_refl])
qed

section \<open>Two deliveries or one\<close>

definition then_later ::
  "'z externals \<Rightarrow> ('z, 'm) client hooks \<Rightarrow> bytes \<Rightarrow> (exn + ('z, 'm) client conn) option \<Rightarrow>
     (exn + ('z, 'm) client conn) option" where
  "then_later ex hk d r =
     (case r of
        None \<Rightarrow> None
      | Some (Inl e) \<Rightarrow> Some (Inl e)
      | Some (Inr cn) \<Rightarrow> if cn_aborted cn then Some (Inr cn) else handleExpected ex hk (later d cn))"

lemma turn_later:
  assumes "in_session (cn_parked cn)" "runs cn"
  shows "turn ex hk (later d cn) = carried d (turn ex hk cn)"
proof -
  let ?n = "cn_len cn"
  have "turn ex hk (later d cn) = handle ex hk (cn_parked cn) (take ?n (cn_packet cn))
      (later d (cn\<lparr>cn_packet := drop ?n (cn_packet cn)\<rparr>))"
    using assms(2) by (simp add: turn_def later_def runs_def)
  also have "\<dots> = carried d (turn ex hk cn)"
    using regular_handle [OF assms(1)] assms(2)
    by (simp add: regular_def blind_def turn_def runs_def)
  finally show ?thesis .
qed

lemma handleExpected_later_Some:
  "handleExpected ex hk cn = Some r \<Longrightarrow>
     (cn_aborted cn \<longrightarrow> r = Inr cn) \<and>
     (in_session (cn_parked cn) \<and> \<not> cn_aborted cn \<longrightarrow>
        handleExpected ex hk (later d cn) = then_later ex hk d (Some r))"
proof (erule handleExpected.raw_induct [rotated])
  fix f ex hk cn r
  assume IH: "\<And>hk cn b y. f hk cn b = Some y \<Longrightarrow>
      (cn_aborted b \<longrightarrow> y = Inr b) \<and>
      (in_session (cn_parked b) \<and> \<not> cn_aborted b \<longrightarrow>
        handleExpected hk cn (later d b) = then_later hk cn d (Some y))"
    and body: "(if runs cn
      then case turn ex hk cn of Inl e \<Rightarrow> Some (Inl e) | Inr cn' \<Rightarrow> f ex hk cn'
      else Some (Inr cn)) = Some r"
  show "(cn_aborted cn \<longrightarrow> r = Inr cn) \<and>
     (in_session (cn_parked cn) \<and> \<not> cn_aborted cn \<longrightarrow>
        handleExpected ex hk (later d cn) = then_later ex hk d (Some r))"
  proof (cases "runs cn")
    case False
    with body show ?thesis by (auto simp: then_later_def)
  next
    case True
    then have later_runs: "runs (later d cn)" by (simp add: runs_def later_def)
    have "handleExpected ex hk (later d cn) = then_later ex hk d (Some r)"
      if s: "in_session (cn_parked cn)"
    proof (cases "turn ex hk cn")
      case (Inl e)
      then have "r = Inl e" using body True by simp
      then show ?thesis
        using later_runs turn_later [OF s True, of ex hk d] Inl
        by (subst handleExpected.simps) (simp add: carried_def then_later_def)
    next
      case (Inr cn')
      then have r: "f ex hk cn' = Some r" using body True by simp
      have s': "in_session (cn_parked cn')" using turn_stays [OF s Inr] by (simp add: stays_def)
      have "handleExpected ex hk (later d cn) = handleExpected ex hk (carry d cn')"
        using later_runs turn_later [OF s True, of ex hk d] Inr
        by (subst handleExpected.simps) (simp add: carried_def)
      also have "\<dots> = then_later ex hk d (Some r)"
      proof (cases "cn_aborted cn'")
        case True
        then have "handleExpected ex hk cn' = Some (Inr cn')"
          by (subst handleExpected.simps) (simp add: runs_def)
        then show ?thesis using IH [OF r] True by (simp add: carry_def then_later_def)
      next
        case False
        then show ?thesis using IH [OF r] s' by (simp add: carry_def)
      qed
      finally show ?thesis .
    qed
    then show ?thesis using True by (auto simp: runs_def)
  qed
qed

text \<open>A connection in its session, between two deliveries.\<close>

definition settled :: "'c conn \<Rightarrow> bool" where
  "settled cn \<longleftrightarrow> cn_aborted cn \<or>
     cn_greeted cn \<and> in_session (cn_parked cn) \<and> \<not> cn_tls_pending cn \<and> \<not> runs cn"

lemma handleExpected_settled:
  "handleExpected ex hk cn = Some r \<Longrightarrow>
     (case r of Inl e \<Rightarrow> True
      | Inr cn' \<Rightarrow> in_session (cn_parked cn) \<and> cn_greeted cn \<and> \<not> cn_tls_pending cn \<longrightarrow> settled cn')"
proof (erule handleExpected.raw_induct [rotated])
  fix f ex hk cn r
  assume IH: "\<And>hk cn b y. f hk cn b = Some y \<Longrightarrow>
      (case y of Inl e \<Rightarrow> True
      | Inr cn' \<Rightarrow> in_session (cn_parked b) \<and> cn_greeted b \<and> \<not> cn_tls_pending b \<longrightarrow> settled cn')"
    and body: "(if runs cn
      then case turn ex hk cn of Inl e \<Rightarrow> Some (Inl e) | Inr cn' \<Rightarrow> f ex hk cn'
      else Some (Inr cn)) = Some r"
  show "case r of Inl e \<Rightarrow> True
      | Inr cn' \<Rightarrow> in_session (cn_parked cn) \<and> cn_greeted cn \<and> \<not> cn_tls_pending cn \<longrightarrow> settled cn'"
  proof (cases "runs cn")
    case False
    with body show ?thesis by (auto simp: settled_def)
  next
    case True
    show ?thesis
    proof (cases "turn ex hk cn")
      case (Inl e)
      then have "r = Inl e" using body True by simp
      then show ?thesis by simp
    next
      case (Inr cn')
      then have "f ex hk cn' = Some r" using body True by simp
      from IH [OF this] show ?thesis
        using turn_stays [OF _ Inr] by (auto simp: stays_def split: sum.splits)
    qed
  qed
qed

section \<open>The interface\<close>

text \<open>
  The state a stream is fed to: a connection, or how its handling ended.  It has no output of its own:
  what is written is in the client.
\<close>

type_synonym ('z, 'm) stream_state = "(exn + ('z, 'm) client conn) option"

definition feed ::
  "'z externals \<Rightarrow> ('z, 'm) client hooks \<Rightarrow> bytes \<Rightarrow> ('z, 'm) stream_state \<Rightarrow>
     unit list \<times> ('z, 'm) stream_state" where
  "feed ex hk d s =
     ([], case s of None \<Rightarrow> None | Some (Inl e) \<Rightarrow> Some (Inl e) | Some (Inr cn) \<Rightarrow> dataReceived ex hk d cn)"

definition stream_inv :: "('z, 'm) stream_state \<Rightarrow> bool" where
  "stream_inv s \<longleftrightarrow> (case s of None \<Rightarrow> False | Some (Inl e) \<Rightarrow> True | Some (Inr cn) \<Rightarrow> settled cn)"

lemma dataReceived_settled:
  assumes "settled cn" "\<not> cn_aborted cn"
  shows "dataReceived ex hk d cn = handleExpected ex hk (later d cn)"
proof -
  have eq: "cn\<lparr>cn_tls_pending := False, cn_packet := cn_packet cn @ d\<rparr> = later d cn"
    using assms by (simp add: later_def settled_def)
  show ?thesis
    unfolding dataReceived_def Let_def eq using assms by (simp add: settled_def later_def)
qed

lemma dataReceived_inv: "settled cn \<Longrightarrow> stream_inv (dataReceived ex hk d cn)"
proof (cases "cn_aborted cn")
  case True
  then show "settled cn \<Longrightarrow> stream_inv (dataReceived ex hk d cn)"
    by (simp add: dataReceived_def stream_inv_def)
next
  case False
  assume s: "settled cn"
  then have "in_session (cn_parked (later d cn))" using False by (simp add: settled_def later_def)
  then obtain r where r: "handleExpected ex hk (later d cn) = Some r"
    using session_returns [of "later d cn" ex hk] unfolding returns_def by blast
  have "stream_inv (Some r)"
    using handleExpected_settled [OF r] s False
    by (auto simp: stream_inv_def settled_def later_def split: sum.splits)
  then show ?thesis using dataReceived_settled [OF s False, of ex hk d] r by simp
qed

lemma dataReceived_append:
  assumes "settled cn"
  shows "dataReceived ex hk (d1 @ d2) cn =
    (case dataReceived ex hk d1 cn of
       None \<Rightarrow> None | Some (Inl e) \<Rightarrow> Some (Inl e) | Some (Inr cn') \<Rightarrow> dataReceived ex hk d2 cn')"
proof (cases "cn_aborted cn")
  case True
  then show ?thesis by (simp add: dataReceived_def)
next
  case False
  have in_s: "in_session (cn_parked (later d1 cn))" "\<not> cn_aborted (later d1 cn)"
    using assms False by (simp_all add: settled_def later_def)
  obtain r where r: "handleExpected ex hk (later d1 cn) = Some r"
    using session_returns [OF in_s(1), of ex hk] unfolding returns_def by blast
  have "later (d1 @ d2) cn = later d2 (later d1 cn)" by (simp add: later_def)
  then have "dataReceived ex hk (d1 @ d2) cn = then_later ex hk d2 (Some r)"
    using dataReceived_settled [OF assms False, of ex hk "d1 @ d2"]
      handleExpected_later_Some [OF r, of d2] in_s by simp
  also have "\<dots> = (case Some r of
       None \<Rightarrow> None | Some (Inl e) \<Rightarrow> Some (Inl e) | Some (Inr cn') \<Rightarrow> dataReceived ex hk d2 cn')"
  proof (cases r)
    case (Inr cn')
    have "settled cn'"
      using dataReceived_inv [OF assms, of ex hk d1] dataReceived_settled [OF assms False, of ex hk d1] r Inr
      by (simp add: stream_inv_def)
    then show ?thesis
      using dataReceived_settled [of cn' ex hk d2] Inr
      by (cases "cn_aborted cn'") (simp_all add: then_later_def dataReceived_def)
  qed (simp add: then_later_def)
  finally show ?thesis using dataReceived_settled [OF assms False, of ex hk d1] r by simp
qed

lemma feed_law_nil: "stream_inv s \<Longrightarrow> feed ex hk [] s = ([], s)"
proof -
  assume s: "stream_inv s"
  have "dataReceived ex hk [] cn = Some (Inr cn)" if "settled cn" for cn
  proof (cases "cn_aborted cn")
    case True
    then show ?thesis by (simp add: dataReceived_def)
  next
    case False
    have "later [] cn = cn" by (simp add: later_def)
    moreover have "\<not> runs cn" using that False by (simp add: settled_def)
    ultimately show ?thesis
      using dataReceived_settled [OF that False, of ex hk "[]"] by (simp add: handleExpected.simps)
  qed
  then show ?thesis using s by (auto simp: feed_def stream_inv_def split: option.splits sum.splits)
qed

lemma feed_law_inv: "stream_inv s \<Longrightarrow> feed ex hk d s = (out, s') \<Longrightarrow> stream_inv s'"
proof -
  assume s: "stream_inv s" and f: "feed ex hk d s = (out, s')"
  show ?thesis
  proof (cases "\<exists>cn. s = Some (Inr cn)")
    case True
    with s f show ?thesis using dataReceived_inv by (auto simp: feed_def stream_inv_def [of s])
  next
    case False
    with s f show ?thesis by (auto simp: feed_def stream_inv_def split: option.splits sum.splits)
  qed
qed

lemma feed_law_append:
  "stream_inv s \<Longrightarrow> feed ex hk (d1 @ d2) s =
     (let (out1, s1) = feed ex hk d1 s; (out2, s2) = feed ex hk d2 s1 in (out1 @ out2, s2))"
  by (auto simp: feed_def stream_inv_def dataReceived_append split: option.splits sum.splits)

interpretation session: stream_machine "feed ex hk" stream_inv for ex hk
  by unfold_locales (fact feed_law_nil, fact feed_law_append, fact feed_law_inv)

section \<open>Properties\<close>

text \<open>The deliveries one after the other, as the transport makes them.\<close>

fun deliver ::
  "'z externals \<Rightarrow> ('z, 'm) client hooks \<Rightarrow> bytes list \<Rightarrow> ('z, 'm) client conn \<Rightarrow>
     (exn + ('z, 'm) client conn) option" where
  "deliver ex hk [] cn = Some (Inr cn)"
| "deliver ex hk (d # ds) cn =
     (case dataReceived ex hk d cn of
        None \<Rightarrow> None | Some (Inl e) \<Rightarrow> Some (Inl e) | Some (Inr cn') \<Rightarrow> deliver ex hk ds cn')"

lemma feed_all_deliver:
  "snd (feed_all (feed ex hk) ds s) =
     (case s of None \<Rightarrow> None | Some (Inl e) \<Rightarrow> Some (Inl e) | Some (Inr cn) \<Rightarrow> deliver ex hk ds cn)"
proof (induction ds arbitrary: s)
  case Nil
  then show ?case by (auto split: option.splits sum.splits)
next
  case (Cons d ds)
  have "snd (feed_all (feed ex hk) (d # ds) s) = snd (feed_all (feed ex hk) ds (snd (feed ex hk d s)))"
    by (simp add: split_def Let_def)
  also have "\<dots> = (case s of None \<Rightarrow> None | Some (Inl e) \<Rightarrow> Some (Inl e)
      | Some (Inr cn) \<Rightarrow> deliver ex hk (d # ds) cn)"
    unfolding Cons.IH by (auto simp: feed_def split: option.splits sum.splits)
  finally show ?case .
qed



end
