(* ===== verification/Updates.thy ===== *)
theory Updates
  imports Delivery
begin

text \<open>
  A framebuffer update, end to end.  The specification is a big-step relation over the bytes of the
  update: rectangle after rectangle is decoded by the decoder of its encoding and handed to the
  application, until the count is used up or a LastRect ends it.  The engine, with its parked
  handlers and its generators resumed block by block, is shown to implement it.
\<close>

section \<open>The pump runs a generator as \<open>drive\<close> does\<close>

definition go ::
  "'z externals \<Rightarrow> ('z, 'm) client hooks \<Rightarrow> exn + ('z, 'm) client conn \<Rightarrow>
     (exn + ('z, 'm) client conn) option" where
  "go ex hk r = (case r of Inl e \<Rightarrow> Some (Inl e) | Inr cn \<Rightarrow> handleExpected ex hk cn)"

lemma handleExpected_turn: "runs cn \<Longrightarrow> handleExpected ex hk cn = go ex hk (turn ex hk cn)"
  by (subst handleExpected.simps) (simp add: go_def)

lemma go_runs: "runs cn \<Longrightarrow> go ex hk (Inr cn) = go ex hk (turn ex hk cn)"
  using handleExpected_turn by (simp add: go_def)

lemma pump_drive:
  assumes "\<And>k block cn. handle ex hk (park k) block cn = pump hk errors describe park on_done (k block) cn"
  shows "drive g (cn_packet cn) (cn_client cn) = Finished a rest c' \<Longrightarrow> \<not> cn_aborted cn \<Longrightarrow>
     \<exists>p n. go ex hk (pump hk errors describe park on_done g cn) =
       go ex hk (on_done a (cn\<lparr>cn_packet := rest, cn_parked := p, cn_len := n, cn_client := c'\<rparr>))"
proof (induction g arbitrary: cn)
  case (Return b)
  then have e: "a = b" "rest = cn_packet cn" "c' = cn_client cn" by simp_all
  have "go ex hk (pump hk errors describe park on_done (Return b) cn) = go ex hk (on_done a
      (cn\<lparr>cn_packet := rest, cn_parked := cn_parked cn, cn_len := cn_len cn, cn_client := c'\<rparr>))"
    by (simp add: pump_def e)
  then show ?case by blast
next
  case (Throw e)
  then show ?case by simp
next
  case (Yield n k)
  then have n: "0 \<le> n" "nat n \<le> length (cn_packet cn)"
    and d: "drive (k (take (nat n) (cn_packet cn))) (drop (nat n) (cn_packet cn)) (cn_client cn) = Finished a rest c'"
    by (auto split: if_splits)
  let ?cn1 = "expect (park k) (nat n) cn"
  have "pump hk errors describe park on_done (Yield n k) cn = Inr ?cn1"
    using n by (simp add: pump_def)
  moreover have "runs ?cn1" using n Yield.prems(2) by (simp add: runs_def expect_def)
  ultimately have "go ex hk (pump hk errors describe park on_done (Yield n k) cn) =
      go ex hk (pump hk errors describe park on_done (k (take (nat n) (cn_packet cn)))
        (?cn1\<lparr>cn_packet := drop (nat n) (cn_packet cn)\<rparr>))"
    by (simp add: go_runs turn_def assms expect_def)
  moreover have "\<exists>p m. go ex hk (pump hk errors describe park on_done (k (take (nat n) (cn_packet cn)))
        (?cn1\<lparr>cn_packet := drop (nat n) (cn_packet cn)\<rparr>)) =
      go ex hk (on_done a (?cn1\<lparr>cn_packet := drop (nat n) (cn_packet cn)\<rparr>
        \<lparr>cn_packet := rest, cn_parked := p, cn_len := m, cn_client := c'\<rparr>))"
    by (rule Yield.IH [OF rangeI]) (use d Yield.prems(2) in \<open>simp_all add: expect_def\<close>)
  ultimately show ?case by (simp add: expect_def)
next
  case (ReadClient k)
  show ?case
    using ReadClient.IH [OF rangeI, of "cn_client cn" cn] ReadClient.prems by (simp add: pump_def)
next
  case (WriteClient c g)
  show ?case
    using WriteClient.IH [of "cn\<lparr>cn_client := c\<rparr>"] WriteClient.prems by (simp add: pump_def)
qed

section \<open>The specification\<close>

definition header_rect :: "bytes \<Rightarrow> rect" where
  "header_rect h = (u16_at 0 h, u16_at 2 h, u16_at 4 h, u16_at 6 h)"

definition header_encoding :: "bytes \<Rightarrow> int" where
  "header_encoding h = s32_of (u32_at 8 h)"

text \<open>What the application is told of one rectangle.\<close>

definition hand_over ::
  "('z, 'm) client hooks \<Rightarrow> rect \<Rightarrow> rect_outcome \<Rightarrow> ('z, 'm) client \<Rightarrow> exn + ('z, 'm) client" where
  "hand_over hk r out c =
     (case (r, out) of ((x, y, w, h), Outcome changed paste) \<Rightarrow>
        (case (case paste of None \<Rightarrow> Inr c | Some (px, fmt) \<Rightarrow> updateRectangle hk x y w h px fmt c) of
           Inl e \<Rightarrow> Inl e
         | Inr c1 \<Rightarrow> Inr (if changed then c1\<lparr>st_rect_log := st_rect_log c1 @ [r]\<rparr> else c1)))"

inductive rectangles ::
  "'z externals \<Rightarrow> ('z, 'm) client hooks \<Rightarrow> bytes \<Rightarrow> ('z, 'm) client \<Rightarrow> bytes \<Rightarrow> ('z, 'm) client \<Rightarrow> bool"
  for ex hk where
  none_left: "st_rectangles c = 0 \<Longrightarrow> commitUpdate hk (st_rect_log c) c = Inr c' \<Longrightarrow>
     rectangles ex hk bs c bs c'"
| last_rect: "st_rectangles c \<noteq> 0 \<Longrightarrow> length h = 12 \<Longrightarrow> header_encoding h = PSEUDO_LAST_RECT \<Longrightarrow>
     commitUpdate hk (st_rect_log c) (c\<lparr>st_rectangles := 0\<rparr>) = Inr c' \<Longrightarrow>
     rectangles ex hk (h @ bs) c bs c'"
| one_rect: "st_rectangles c \<noteq> 0 \<Longrightarrow> length h = 12 \<Longrightarrow> header_encoding h \<noteq> PSEUDO_LAST_RECT \<Longrightarrow>
     decoder_for ex hk (header_encoding h) = Some dec \<Longrightarrow>
     drive (dec (header_rect h) (st_pixfmt c)) bs (c\<lparr>st_rectangles := st_rectangles c - 1\<rparr>)
       = Finished out bs1 c1 \<Longrightarrow>
     hand_over hk (header_rect h) out c1 = Inr c2 \<Longrightarrow>
     rectangles ex hk bs1 c2 bs' c' \<Longrightarrow>
     rectangles ex hk (h @ bs) c bs' c'"

section \<open>The engine implements it\<close>

abbreviation idle :: "bytes \<Rightarrow> ('z, 'm) client \<Rightarrow> ('z, 'm) client conn \<Rightarrow> ('z, 'm) client conn" where
  "idle rest c cn \<equiv> cn\<lparr>cn_packet := rest, cn_parked := HandleConnection, cn_len := 1, cn_client := c\<rparr>"

lemma doConnection_client:
  "doConnection hk (cn\<lparr>cn_parked := p, cn_len := n\<rparr>) = doConnection hk cn"
  by (auto simp: doConnection_def callback_def expect_def split: sum.splits)

lemma commit_goes_idle:
  assumes "st_rectangles (cn_client cn) = 0" "commitUpdate hk (st_rect_log (cn_client cn)) (cn_client cn) = Inr c'"
  shows "doConnection hk cn = Inr (idle (cn_packet cn) c' cn)"
  using assms by (simp add: doConnection_def callback_def expect_def)

text \<open>A rectangle whose outcome passes the length check goes on as the specification says.\<close>

lemma finishRectangle_hands_over:
  assumes fits: "\<And>ch px fmt. out = Outcome ch (Some (px, fmt)) \<Longrightarrow> length px = w * h * bypp fmt"
    and "hand_over hk (x, y, w, h) out (cn_client cn) = Inr c2"
  shows "finishRectangle hk (x, y, w, h) out cn = doConnection hk (cn\<lparr>cn_client := c2\<rparr>)"
proof -
  obtain changed paste where [simp]: "out = Outcome changed paste" by (cases out)
  show ?thesis
  proof (cases paste)
    case None
    then show ?thesis
      using assms(2) by (auto simp: finishRectangle_def hand_over_def with_client_def)
  next
    case (Some p)
    obtain px fmt where [simp]: "p = (px, fmt)" by (cases p)
    have "length px = w * h * bypp fmt" using fits Some by simp
    then show ?thesis
      using assms(2) Some
      by (auto simp: finishRectangle_def hand_over_def with_client_def callback_def split: sum.splits)
  qed
qed

lemma turn_rectangle:
  assumes "cn_parked cn = HandleRectangle" "cn_len cn = 12" "cn_packet cn = h @ bs" "length h = 12"
  shows "turn ex hk cn = handleRectangle ex hk h (cn\<lparr>cn_packet := bs\<rparr>)"
  using assms by (simp add: turn_def)

lemma rectangle_turn:
  assumes "st_rectangles (cn_client cn) \<noteq> 0" "cn_packet cn = h @ bs" "length h = 12" "\<not> cn_aborted cn"
  shows "go ex hk (doConnection hk cn) =
    go ex hk (handleRectangle ex hk h (cn\<lparr>cn_packet := bs, cn_parked := HandleRectangle, cn_len := 12\<rparr>))"
proof -
  let ?cn1 = "cn\<lparr>cn_parked := HandleRectangle, cn_len := 12\<rparr>"
  have "go ex hk (doConnection hk cn) = handleExpected ex hk ?cn1"
    using assms(1) by (simp add: doConnection_def expect_def go_def)
  also have "\<dots> = go ex hk (turn ex hk ?cn1)"
    using assms by (intro handleExpected_turn) (simp add: runs_def)
  also have "turn ex hk ?cn1 = handleRectangle ex hk h (?cn1\<lparr>cn_packet := bs\<rparr>)"
    by (rule turn_rectangle) (use assms in simp_all)
  also have "?cn1\<lparr>cn_packet := bs\<rparr> = cn\<lparr>cn_packet := bs, cn_parked := HandleRectangle, cn_len := 12\<rparr>"
    by simp
  finally show ?thesis .
qed

lemma rectangles_refined:
  assumes ex: "merges_bands ex" "jpegs_are_rgb ex"
  shows "rectangles ex hk bs c rest c' \<Longrightarrow> \<not> cn_aborted cn \<Longrightarrow> cn_packet cn = bs \<Longrightarrow> cn_client cn = c \<Longrightarrow>
     go ex hk (doConnection hk cn) = handleExpected ex hk (idle rest c' cn)"
proof (induction arbitrary: cn rule: rectangles.induct)
  case (none_left c c' bs)
  then show ?case using commit_goes_idle [of cn hk c'] by (simp add: go_def)
next
  case (last_rect c h c' bs)
  let ?cn1 = "cn\<lparr>cn_packet := bs, cn_parked := HandleRectangle, cn_len := 12\<rparr>"
  let ?cn2 = "?cn1\<lparr>cn_client := c\<lparr>st_rectangles := 0\<rparr>\<rparr>"
  have "handleRectangle ex hk h ?cn1 = doConnection hk ?cn2"
    using last_rect by (simp add: handleRectangle_def header_encoding_def with_client_def)
  moreover have "doConnection hk ?cn2 = Inr (idle bs c' cn)"
    using commit_goes_idle [of ?cn2 hk c'] last_rect by simp
  ultimately show ?case
    using rectangle_turn [of cn h bs ex hk] last_rect by (simp add: go_def)
next
  case (one_rect c h dec bs out bs1 c1 c2 bs' c')
  let ?c0 = "c\<lparr>st_rectangles := st_rectangles c - 1\<rparr>"
  let ?cn1 = "cn\<lparr>cn_packet := bs, cn_parked := HandleRectangle, cn_len := 12\<rparr>"
  let ?cn2 = "?cn1\<lparr>cn_client := ?c0\<rparr>"
  obtain x y w hh where r: "header_rect h = (x, y, w, hh)" by (cases "header_rect h")
  let ?g = "dec (x, y, w, hh) (st_pixfmt c)"
  have start: "go ex hk (doConnection hk cn) = go ex hk (pump_rectangle hk (x, y, w, hh) ?g ?cn2)"
    using rectangle_turn [of cn h bs ex hk] one_rect r
    by (simp add: handleRectangle_def header_encoding_def header_rect_def with_client_def Let_def)
  have "\<exists>p n. go ex hk (pump_rectangle hk (x, y, w, hh) ?g ?cn2) =
      go ex hk (finishRectangle hk (x, y, w, hh) out
        (?cn2\<lparr>cn_packet := bs1, cn_parked := p, cn_len := n, cn_client := c1\<rparr>))"
    unfolding pump_rectangle_def
    by (rule pump_drive) (use one_rect r in \<open>simp_all add: pump_rectangle_def\<close>)
  then obtain p n where "go ex hk (pump_rectangle hk (x, y, w, hh) ?g ?cn2) =
      go ex hk (finishRectangle hk (x, y, w, hh) out
        (?cn2\<lparr>cn_packet := bs1, cn_parked := p, cn_len := n, cn_client := c1\<rparr>))" by blast
  moreover have "finishRectangle hk (x, y, w, hh) out
      (?cn2\<lparr>cn_packet := bs1, cn_parked := p, cn_len := n, cn_client := c1\<rparr>) =
    doConnection hk (?cn2\<lparr>cn_packet := bs1, cn_parked := p, cn_len := n, cn_client := c1\<rparr>\<lparr>cn_client := c2\<rparr>)"
  proof (rule finishRectangle_hands_over)
    fix ch px fmt assume "out = Outcome ch (Some (px, fmt))"
    then show "length px = w * hh * bypp fmt"
      using decoder_paste [OF ex one_rect.hyps(4), of x y w hh ?c0] one_rect.hyps(5) r by auto
  qed (use one_rect.hyps(6) r in simp)
  moreover have "go ex hk (doConnection hk
      (?cn2\<lparr>cn_packet := bs1, cn_parked := p, cn_len := n, cn_client := c1\<rparr>\<lparr>cn_client := c2\<rparr>)) =
    handleExpected ex hk (idle bs' c' cn)"
    using one_rect.IH [of "cn\<lparr>cn_packet := bs1, cn_parked := p, cn_len := n, cn_client := c2\<rparr>"]
      one_rect.prems by simp
  ultimately show ?case using start by simp
qed

text \<open>
  C1: a framebuffer update is handled as its specification says. Whenever the bytes after the header of
  an update decode, rectangle by rectangle, to what the specification relation says, the connection
  waiting for a message goes through beginUpdate, every rectangle handed over in order with the
  pixels its decoder made, and one commitUpdate with the rectangles that changed, and is then waiting
  for the next message with exactly the rest of the stream.
\<close>

theorem update_refines_specification:
  assumes "merges_bands ex" "jpegs_are_rgb ex" "\<not> cn_aborted cn"
    and idle: "cn_parked cn = HandleConnection" "cn_len cn = 1"
    and packet: "cn_packet cn = [0, pad] @ be_bytes 2 n @ bs" "n < 65536"
    and begin_: "beginUpdate hk ((cn_client cn)\<lparr>st_rectangles := n, st_rect_log := []\<rparr>) = Inr c1"
    and spec: "rectangles ex hk bs c1 rest c'"
  shows "handleExpected ex hk cn = handleExpected ex hk (cn\<lparr>cn_packet := rest, cn_client := c'\<rparr>)"
proof -
  let ?cn1 = "cn\<lparr>cn_packet := [pad] @ be_bytes 2 n @ bs, cn_parked := HandleFramebufferUpdate, cn_len := 3\<rparr>"
  let ?cn2 = "cn\<lparr>cn_packet := bs, cn_parked := HandleFramebufferUpdate, cn_len := 3, cn_client := c1\<rparr>"
  have e: "?cn2 = cn\<lparr>cn_parked := HandleFramebufferUpdate, cn_len := 3, cn_packet := bs, cn_client := c1\<rparr>"
    by simp
  have turn1: "turn ex hk ?cn1 = doConnection hk ?cn2"
    unfolding e using begin_ packet(2)
    by (simp add: turn_def handleFramebufferUpdate_def callback_def with_client_def pslice_def
        be_val_be_bytes)
  have "handleExpected ex hk cn = go ex hk (turn ex hk cn)"
    by (rule handleExpected_turn) (use assms in \<open>simp add: runs_def\<close>)
  also have "turn ex hk cn = Inr ?cn1"
    using assms by (simp add: turn_def handleConnection_def expect_def)
  also have "go ex hk (Inr ?cn1) = go ex hk (turn ex hk ?cn1)"
    using assms(3) by (intro go_runs) (simp add: runs_def)
  also note turn1
  also have "go ex hk (doConnection hk ?cn2) = handleExpected ex hk (Updates.idle rest c' ?cn2)"
    by (rule rectangles_refined [OF assms(1,2) spec]) (use assms(3) in simp_all)
  also have "Updates.idle rest c' ?cn2 = cn\<lparr>cn_packet := rest, cn_client := c'\<rparr>"
    using idle by simp
  finally show ?thesis .
qed

lemma update_refines_specification_witness:
  "\<exists>c' :: (unit, unit) client.
     handleExpected stored_externals (base_hooks Inr)
       ((conn_init (rfb_init stored_externals))\<lparr>cn_greeted := True, cn_parked := HandleConnection, cn_len := 1,
          cn_packet := [0, 0, 0, 1] @ [0, 0, 0, 0, 0, 1, 0, 1, 0, 0, 0, 0] @ [1, 2, 3, 4]\<rparr>)
     = Some (Inr ((conn_init c')\<lparr>cn_greeted := True, cn_parked := HandleConnection, cn_len := 1\<rparr>)) \<and>
     st_rect_log c' = [(0, 0, 1, 1)]"
proof -
  let ?ex = stored_externals and ?hk = "base_hooks Inr :: (unit, unit) client hooks"
  let ?c1 = "(rfb_init ?ex)\<lparr>st_rectangles := 1, st_rect_log := []\<rparr>"
  let ?c2 = "(rfb_init ?ex)\<lparr>st_rectangles := 0, st_rect_log := [(0, 0, 1, 1)]\<rparr>"
  let ?h = "[0, 0, 0, 0, 0, 1, 0, 1, 0, 0, 0, 0] :: bytes"
  let ?cn = "(conn_init (rfb_init ?ex))\<lparr>cn_greeted := True, cn_parked := HandleConnection, cn_len := 1,
          cn_packet := [0, 0, 0, 1] @ ?h @ [1, 2, 3, 4]\<rparr>"
  have h: "header_rect ?h = (0, 0, 1, 1)" "header_encoding ?h = 0"
    by (simp_all add: header_rect_def header_encoding_def pslice_def be_val_def s32_of_def)
  have done_: "rectangles ?ex ?hk [] ?c2 [] ?c2"
    by (rule none_left) (simp_all add: base_hooks_def)
  have "drive (raw_decode (0, 0, 1, 1) (st_pixfmt ?c1)) [1, 2, 3, 4] (?c1\<lparr>st_rectangles := st_rectangles ?c1 - 1\<rparr>)
      = Finished (Outcome True (Some ([1, 2, 3, 4], st_pixfmt ?c1))) [] (?c1\<lparr>st_rectangles := 0\<rparr>)"
    by (simp add: raw_decode_def requireFits_def fit_limits_def rfb_init_def MAX_DESKTOP_SIZE_def
        default_pixel_format_def bypp_def)
  moreover have "hand_over ?hk (0, 0, 1, 1) (Outcome True (Some ([1, 2, 3, 4], st_pixfmt ?c1)))
      (?c1\<lparr>st_rectangles := 0\<rparr>) = Inr ?c2"
    by (simp add: hand_over_def base_hooks_def)
  ultimately have spec: "rectangles ?ex ?hk (?h @ [1, 2, 3, 4]) ?c1 [] ?c2"
    using done_ h by (intro one_rect [where dec = raw_decode]) (simp_all add: decoder_for_def)
  have j: "jpegs_are_rgb ?ex" by (simp add: jpegs_are_rgb_def stored_externals_def)
  have "handleExpected ?ex ?hk ?cn = handleExpected ?ex ?hk (?cn\<lparr>cn_packet := [], cn_client := ?c2\<rparr>)"
    by (rule update_refines_specification [OF stored_merges j _ _ _ _ _ _ spec, where n = 1 and pad = 0])
      (simp_all add: conn_init_def base_hooks_def be_bytes_numeral)
  also have "\<dots> = Some (Inr (?cn\<lparr>cn_packet := [], cn_client := ?c2\<rparr>))"
    by (subst handleExpected.simps) (simp add: runs_def)
  also have "?cn\<lparr>cn_packet := [], cn_client := ?c2\<rparr> =
      (conn_init ?c2)\<lparr>cn_greeted := True, cn_parked := HandleConnection, cn_len := 1\<rparr>"
    by (simp add: conn_init_def)
  finally show ?thesis by (intro exI [of _ ?c2]) simp
qed

end
