(* ===== verification/Client.thy ===== *)
theory Client
  imports Keys Updates
begin

text \<open>
  \<open>vncdotool/client.py\<close>: the client an application drives. Its state extends the session's: pointer,
  buttons, the screen, the pending refresh and the mask of what that refresh has not painted yet. Pillow's
  images and bit masks are values of types \<open>'i\<close> and \<open>'k\<close> with the operations the code calls as the functions
  of a record; \<open>imagematch\<close>, whose arithmetic is Pillow's, is among them. The overridable methods are
  collected in \<open>vnc_hooks\<close>, which plug into the engine.

  A \<open>Deferred\<close> is the data of the callback it carries; what fires is logged in \<open>vc_events\<close>.
\<close>

section \<open>Images\<close>

type_synonym box = "int \<times> int \<times> int \<times> int"

record ('i, 'k) imaging =
  im_new :: "nat \<Rightarrow> nat \<Rightarrow> 'i"
  im_size :: "'i \<Rightarrow> nat \<times> nat"
  im_paste :: "int \<Rightarrow> int \<Rightarrow> 'i \<Rightarrow> 'i \<Rightarrow> 'i"
  im_paste_masked :: "int \<Rightarrow> int \<Rightarrow> 'k \<Rightarrow> 'i \<Rightarrow> 'i \<Rightarrow> 'i"
  im_crop :: "box \<Rightarrow> 'i \<Rightarrow> 'i"
  im_frombytes :: "nat \<Rightarrow> nat \<Rightarrow> bytes \<Rightarrow> string \<Rightarrow> exn + 'i"
  bit_new :: "nat \<Rightarrow> nat \<Rightarrow> 'k"
  bit_size :: "'k \<Rightarrow> nat \<times> nat"
  bit_clear :: "box \<Rightarrow> 'k \<Rightarrow> 'k"
  bit_blank :: "'k \<Rightarrow> bool"
  bit_frombytes :: "nat \<Rightarrow> nat \<Rightarrow> bytes \<Rightarrow> exn + 'k"
  screens_match :: "'i \<Rightarrow> 'i \<Rightarrow> int \<Rightarrow> int \<Rightarrow> bool"
  bound_for_channels :: "nat \<times> nat \<times> nat \<Rightarrow> int"

section \<open>State\<close>

datatype cursor_mode = OMIT | SERVER | LOCAL

text \<open>What the deferred of a refresh does once it fires.\<close>

datatype on_refresh =
    Resume
  | SaveScreen unicode "box option" "unicode option"
  | CompareScreen box int int
  | WatchScreen

datatype conn_error =
    PasswordRequired
  | AuthFailed bytes
  | ProtocolFailed abort_reason

text \<open>The deferred of the factory, which fires once.\<close>

datatype fac_outcome = NotYet | CalledBack | ErredBack conn_error

datatype 'i client_event =
    Resumed
  | Saved unicode "unicode option" 'i
  | CommandFailed exn

record 'i stable_watch =
  sw_box :: "box option"
  sw_fuzz :: int
  sw_blur :: int
  sw_baseline :: "'i option"
  sw_timer :: bool
  sw_settled :: bool

record ('z, 'i, 'k) vnc_state = "'z rfb_state" +
  vc_requested_encodings :: "int list option"
  vc_requested_pixfmt :: "pixel_format option"
  vc_requested_jpeg :: "nat option"
  vc_fuzz :: "int option"
  vc_blur :: int
  vc_x :: int
  vc_y :: int
  vc_buttons :: int
  vc_screen :: "'i option"
  vc_image_mode :: string
  vc_raw_format :: "pixel_format option"
  vc_raw_mode :: string
  vc_deferred :: "on_refresh option"
  vc_cursor :: "'i option"
  vc_cmask :: "'k option"
  vc_cfocus :: "int \<times> int"
  vc_expected :: "'i option"
  vc_retries :: nat
  vc_unpainted :: 'k
  vc_watch :: "'i stable_watch option"
  vc_events :: "'i client_event list"
  fac_cursor :: cursor_mode
  fac_pseudodesktop :: bool
  fac_last_rect :: bool
  fac_qemu_extended_key :: bool
  fac_fence :: bool
  fac_force_caps :: bool
  fac_deferred :: fac_outcome

definition MAX_RETRIES :: nat where
  "MAX_RETRIES = 1"

text \<open>\<open>pixelformat.raw_mode(rfb.PixelFormat())\<close> is evaluated once, when the class is made.\<close>

definition initial_image_mode :: string where
  "initial_image_mode = (case raw_mode default_pixel_format of Inl e \<Rightarrow> [] | Inr mode \<Rightarrow> mode)"

definition vnc_init :: "('i, 'k) imaging \<Rightarrow> 'z externals \<Rightarrow> ('z, 'i, 'k) vnc_state" where
  "vnc_init im ex =
     rfb_state.extend ((rfb_init ex)\<lparr>fac_shared := True\<rparr>)
       \<lparr>vc_requested_encodings = None, vc_requested_pixfmt = None, vc_requested_jpeg = None,
        vc_fuzz = None, vc_blur = 0, vc_x = 0, vc_y = 0, vc_buttons = 0, vc_screen = None,
        vc_image_mode = initial_image_mode, vc_raw_format = None, vc_raw_mode = [],
        vc_deferred = None, vc_cursor = None, vc_cmask = None, vc_cfocus = (0, 0), vc_expected = None,
        vc_retries = 0, vc_unpainted = bit_new im 0 0, vc_watch = None, vc_events = [],
        fac_cursor = OMIT, fac_pseudodesktop = True, fac_last_rect = True, fac_qemu_extended_key = True,
        fac_fence = False, fac_force_caps = False, fac_deferred = NotYet\<rparr>"

section \<open>Keys\<close>

text \<open>
  \<open>str.isupper\<close> is Unicode's; what it says of a string is the argument \<open>upper\<close>. \<open>key in SPECIAL_KEYS_US\<close> asks
  for a substring.
\<close>

definition SPECIAL_KEYS_US :: unicode where
  "SPECIAL_KEYS_US = uni ''~!@#$%^&*()_+{}|:'' @ [34] @ uni ''<>?''"

definition is_infix :: "'a list \<Rightarrow> 'a list \<Rightarrow> bool" where
  "is_infix xs ys \<longleftrightarrow> list_ex (\<lambda>i. take (length xs) (drop i ys) = xs) [0..<length ys + 1]"

fun split_on :: "'a \<Rightarrow> 'a list \<Rightarrow> 'a list list" where
  "split_on sep [] = [[]]"
| "split_on sep (p # ps) =
     (case split_on sep ps of
        [] \<Rightarrow> [[p]]
      | part # parts \<Rightarrow> if p = sep then [] # part # parts else (p # part) # parts)"

text \<open>\<open>KEYMAP.get(k) or ord(k)\<close>.\<close>

definition keysym :: "unicode \<Rightarrow> exn + int" where
  "keysym k =
     (case keymap_get k of
        Some v \<Rightarrow> Inr (int v)
      | None \<Rightarrow> (case k of [p] \<Rightarrow> Inr (int p) | _ \<Rightarrow> Inl TypeError))"

fun keysyms :: "unicode list \<Rightarrow> exn + int list" where
  "keysyms [] = Inr []"
| "keysyms (k # ks) =
     (case keysym k of
        Inl e \<Rightarrow> Inl e
      | Inr v \<Rightarrow> (case keysyms ks of Inl e \<Rightarrow> Inl e | Inr vs \<Rightarrow> Inr (v # vs)))"

definition decodeKey :: "(unicode \<Rightarrow> bool) \<Rightarrow> bool \<Rightarrow> unicode \<Rightarrow> exn + int list" where
  "decodeKey upper force_caps key =
     (let shifted = (force_caps \<and> (upper key \<or> is_infix key SPECIAL_KEYS_US))
      in if shifted \<and> length key \<noteq> 1 then Inl TypeError
         else
           (let key1 = (if shifted then uni ''shift-'' @ key else key)
            in keysyms (if length key1 = 1 then [key1] else split_on 45 key1)))"

fun key_events :: "int list \<Rightarrow> bool \<Rightarrow> ('z, 'm) client \<Rightarrow> exn + ('z, 'm) client" where
  "key_events [] down c = Inr c"
| "key_events (k # ks) down c =
     (case keyEvent k down c of Inl e \<Rightarrow> Inl e | Inr c' \<Rightarrow> key_events ks down c')"

definition keyPress ::
  "(unicode \<Rightarrow> bool) \<Rightarrow> unicode \<Rightarrow> ('z, 'i, 'k) vnc_state \<Rightarrow> exn + ('z, 'i, 'k) vnc_state" where
  "keyPress upper key c =
     (case decodeKey upper (fac_force_caps c) key of
        Inl e \<Rightarrow> Inl e
      | Inr keys \<Rightarrow>
          (case key_events keys True c of
             Inl e \<Rightarrow> Inl e
           | Inr c1 \<Rightarrow> key_events (rev keys) False c1))"

definition keyDown ::
  "(unicode \<Rightarrow> bool) \<Rightarrow> unicode \<Rightarrow> ('z, 'i, 'k) vnc_state \<Rightarrow> exn + ('z, 'i, 'k) vnc_state" where
  "keyDown upper key c =
     (case decodeKey upper (fac_force_caps c) key of Inl e \<Rightarrow> Inl e | Inr keys \<Rightarrow> key_events keys True c)"

definition keyUp ::
  "(unicode \<Rightarrow> bool) \<Rightarrow> unicode \<Rightarrow> ('z, 'i, 'k) vnc_state \<Rightarrow> exn + ('z, 'i, 'k) vnc_state" where
  "keyUp upper key c =
     (case decodeKey upper (fac_force_caps c) key of Inl e \<Rightarrow> Inl e | Inr keys \<Rightarrow> key_events keys False c)"

section \<open>The pointer\<close>

text \<open>\<open>1 << (button - 1)\<close>: a negative shift raises.\<close>

definition button_bit :: "int \<Rightarrow> exn + int" where
  "button_bit button = (if button < 1 then Inl ValueError else Inr (2 ^ nat (button - 1)))"

definition mouseDown :: "int \<Rightarrow> ('z, 'i, 'k) vnc_state \<Rightarrow> exn + ('z, 'i, 'k) vnc_state" where
  "mouseDown button c =
     (case button_bit button of
        Inl e \<Rightarrow> Inl e
      | Inr b \<Rightarrow>
          (let c1 = c\<lparr>vc_buttons := or (vc_buttons c) b\<rparr>
           in pointerEvent (vc_x c1) (vc_y c1) (vc_buttons c1) c1))"

definition mouseUp :: "int \<Rightarrow> ('z, 'i, 'k) vnc_state \<Rightarrow> exn + ('z, 'i, 'k) vnc_state" where
  "mouseUp button c =
     (case button_bit button of
        Inl e \<Rightarrow> Inl e
      | Inr b \<Rightarrow>
          (let c1 = c\<lparr>vc_buttons := and (vc_buttons c) (not b)\<rparr>
           in pointerEvent (vc_x c1) (vc_y c1) (vc_buttons c1) c1))"

definition mousePress :: "int \<Rightarrow> ('z, 'i, 'k) vnc_state \<Rightarrow> exn + ('z, 'i, 'k) vnc_state" where
  "mousePress button c =
     (case mouseDown button c of Inl e \<Rightarrow> Inl e | Inr c1 \<Rightarrow> mouseUp button c1)"

definition mouseMove :: "int \<Rightarrow> int \<Rightarrow> ('z, 'i, 'k) vnc_state \<Rightarrow> exn + ('z, 'i, 'k) vnc_state" where
  "mouseMove x y c = (let c1 = c\<lparr>vc_x := x, vc_y := y\<rparr> in pointerEvent x y (vc_buttons c1) c1)"

text \<open>
  The positions \<open>mouseDrag\<close> moves to, with a pause after each but the last: \<open>range(0, dmax, step)\<close>, then the
  target. A step of 0 raises, a negative one leaves the range empty.
\<close>

definition drag_steps :: "int \<Rightarrow> int \<Rightarrow> int list" where
  "drag_steps dmax step =
     (if step \<le> 0 then [] else map (\<lambda>i. int i * step) [0..<nat ((dmax + step - 1) div step)])"

definition drag_path :: "int \<Rightarrow> int \<Rightarrow> int \<Rightarrow> int \<Rightarrow> int \<Rightarrow> (int \<times> int) list" where
  "drag_path ox oy x y step =
     (let dx = x - ox; dy = y - oy; dmax = max \<bar>dx\<bar> \<bar>dy\<bar>
      in map (\<lambda>s. (ox + dx * s div dmax, oy + dy * s div dmax)) (drag_steps dmax step) @ [(x, y)])"

fun mouse_moves :: "(int \<times> int) list \<Rightarrow> ('z, 'i, 'k) vnc_state \<Rightarrow> exn + ('z, 'i, 'k) vnc_state" where
  "mouse_moves [] c = Inr c"
| "mouse_moves ((x, y) # ps) c =
     (case mouseMove x y c of Inl e \<Rightarrow> Inl e | Inr c' \<Rightarrow> mouse_moves ps c')"

definition mouseDrag :: "int \<Rightarrow> int \<Rightarrow> int \<Rightarrow> ('z, 'i, 'k) vnc_state \<Rightarrow> exn + ('z, 'i, 'k) vnc_state" where
  "mouseDrag x y step c =
     (if step = 0 then Inl ValueError else mouse_moves (drag_path (vc_x c) (vc_y c) x y step) c)"

definition paste :: "unicode \<Rightarrow> ('z, 'i, 'k) vnc_state \<Rightarrow> exn + ('z, 'i, 'k) vnc_state" where
  "paste message c = clientCutText message c"

section \<open>Refreshing the screen\<close>

text \<open>\<open>_FullScreenReceived.awaiting\<close> and \<open>satisfied\<close>.\<close>

definition fullscreen ::
  "('i, 'k) imaging \<Rightarrow> nat \<Rightarrow> nat \<Rightarrow> ('z, 'i, 'k) vnc_state \<Rightarrow> ('z, 'i, 'k) vnc_state" where
  "fullscreen im width height c = c\<lparr>vc_retries := 0, vc_unpainted := bit_new im width height\<rparr>"

definition satisfied :: "('i, 'k) imaging \<Rightarrow> ('z, 'i, 'k) vnc_state \<Rightarrow> ('z, 'i, 'k) vnc_state" where
  "satisfied im = fullscreen im 0 0"

definition complete :: "('i, 'k) imaging \<Rightarrow> ('z, 'i, 'k) vnc_state \<Rightarrow> bool" where
  "complete im c = bit_blank im (vc_unpainted c)"

definition refresh_pending :: "('i, 'k) imaging \<Rightarrow> ('z, 'i, 'k) vnc_state \<Rightarrow> bool" where
  "refresh_pending im c = (bit_size im (vc_unpainted c) \<noteq> (0, 0))"

definition paintRect ::
  "('i, 'k) imaging \<Rightarrow> nat \<Rightarrow> nat \<Rightarrow> nat \<Rightarrow> nat \<Rightarrow> ('z, 'i, 'k) vnc_state \<Rightarrow> ('z, 'i, 'k) vnc_state" where
  "paintRect im x y width height c =
     c\<lparr>vc_unpainted := bit_clear im (int x, int y, int (x + width), int (y + height)) (vc_unpainted c)\<rparr>"

definition update_request :: "bool \<Rightarrow> ('z, 'm) client \<Rightarrow> exn + ('z, 'm) client" where
  "update_request incremental c = framebufferUpdateRequest 0 0 None None incremental c"

definition requestRefresh ::
  "('i, 'k) imaging \<Rightarrow> bool \<Rightarrow> ('z, 'i, 'k) vnc_state \<Rightarrow> exn + ('z, 'i, 'k) vnc_state" where
  "requestRefresh im incremental c =
     update_request incremental
       (if incremental then satisfied im c else fullscreen im (st_width c) (st_height c) c)"

text \<open>\<open>refreshScreen\<close> with the callback its caller adds.\<close>

definition refreshScreen ::
  "('i, 'k) imaging \<Rightarrow> bool \<Rightarrow> on_refresh \<Rightarrow> ('z, 'i, 'k) vnc_state \<Rightarrow> exn + ('z, 'i, 'k) vnc_state" where
  "refreshScreen im incremental what c = requestRefresh im incremental (c\<lparr>vc_deferred := Some what\<rparr>)"

definition requireOnScreen :: "('i, 'k) imaging \<Rightarrow> box \<Rightarrow> ('z, 'i, 'k) vnc_state \<Rightarrow> exn + unit" where
  "requireOnScreen im b c =
     (let (width, height) = (case vc_screen c of None \<Rightarrow> (st_width c, st_height c) | Some img \<Rightarrow> im_size im img)
      in case b of (x0, y0, x1, y1) \<Rightarrow>
           if x0 < 0 \<or> y0 < 0 \<or> x1 > int width \<or> y1 > int height then Inl RegionError else Inr ())"

definition box_of :: "int \<Rightarrow> int \<Rightarrow> int \<Rightarrow> int \<Rightarrow> box" where
  "box_of x y w h = (x, y, x + w, y + h)"

text \<open>\<open>self.screen.crop\<close> of no screen is an \<open>AttributeError\<close>.\<close>

definition render :: "('i, 'k) imaging \<Rightarrow> box option \<Rightarrow> ('z, 'i, 'k) vnc_state \<Rightarrow> exn + 'i" where
  "render im b c =
     (case vc_screen c of
        None \<Rightarrow> Inl AttributeError
      | Some img \<Rightarrow>
          (let rendered = (case b of None \<Rightarrow> img | Some b \<Rightarrow> im_crop im b img)
           in if fac_cursor c \<noteq> LOCAL then Inr rendered
              else
                (case (vc_cursor c, vc_cmask c) of
                   (Some cur, Some cmask) \<Rightarrow>
                     (let x = vc_x c - fst (vc_cfocus c); y = vc_y c - snd (vc_cfocus c);
                          (x', y') = (case b of None \<Rightarrow> (x, y) | Some (bx, yb, _, _) \<Rightarrow> (x - bx, y - yb))
                      in Inr (im_paste_masked im x' y' cmask cur rendered))
                 | _ \<Rightarrow> Inr rendered)))"

definition renderRegion :: "('i, 'k) imaging \<Rightarrow> int \<Rightarrow> int \<Rightarrow> int \<Rightarrow> int \<Rightarrow> ('z, 'i, 'k) vnc_state \<Rightarrow> exn + 'i" where
  "renderRegion im x y w h c =
     (case requireOnScreen im (box_of x y w h) c of
        Inl e \<Rightarrow> Inl e
      | Inr _ \<Rightarrow> render im (Some (box_of x y w h)) c)"

definition log_event :: "'i client_event \<Rightarrow> ('z, 'i, 'k) vnc_state \<Rightarrow> ('z, 'i, 'k) vnc_state" where
  "log_event e c = c\<lparr>vc_events := vc_events c @ [e]\<rparr>"

definition captureSave ::
  "('i, 'k) imaging \<Rightarrow> unicode \<Rightarrow> box option \<Rightarrow> unicode option \<Rightarrow> ('z, 'i, 'k) vnc_state \<Rightarrow>
     exn + ('z, 'i, 'k) vnc_state" where
  "captureSave im fp b fmt c =
     (case (case b of None \<Rightarrow> Inr () | Some b \<Rightarrow> requireOnScreen im b c) of
        Inl e \<Rightarrow> Inl e
      | Inr _ \<Rightarrow>
          (case render im b c of
             Inl e \<Rightarrow> Inl e
           | Inr img \<Rightarrow> Inr (log_event Resumed (log_event (Saved fp fmt img) c))))"

definition captureScreen ::
  "('i, 'k) imaging \<Rightarrow> unicode \<Rightarrow> bool \<Rightarrow> unicode option \<Rightarrow> ('z, 'i, 'k) vnc_state \<Rightarrow>
     exn + ('z, 'i, 'k) vnc_state" where
  "captureScreen im fp incremental fmt c = refreshScreen im incremental (SaveScreen fp None fmt) c"

definition captureRegion ::
  "('i, 'k) imaging \<Rightarrow> unicode \<Rightarrow> int \<Rightarrow> int \<Rightarrow> int \<Rightarrow> int \<Rightarrow> bool \<Rightarrow> ('z, 'i, 'k) vnc_state \<Rightarrow>
     exn + ('z, 'i, 'k) vnc_state" where
  "captureRegion im fp x y w h incremental c =
     (case requireOnScreen im (box_of x y w h) c of
        Inl e \<Rightarrow> Inl e
      | Inr _ \<Rightarrow> refreshScreen im incremental (SaveScreen fp (Some (box_of x y w h)) None) c)"

section \<open>Comparing\<close>

definition fuzz_of :: "('i, 'k) imaging \<Rightarrow> int option \<Rightarrow> ('z, 'i, 'k) vnc_state \<Rightarrow> int" where
  "fuzz_of im f c =
     (case f of Some n \<Rightarrow> n | None \<Rightarrow>
        (case vc_fuzz c of Some n \<Rightarrow> n | None \<Rightarrow>
           (case channel_tolerance (st_pixfmt c) of
              Inl e \<Rightarrow> 0
            | Inr tolerance \<Rightarrow> bound_for_channels im tolerance)))"

definition blur_of :: "int option \<Rightarrow> ('z, 'i, 'k) vnc_state \<Rightarrow> int" where
  "blur_of b c = (case b of None \<Rightarrow> vc_blur c | Some n \<Rightarrow> n)"

definition expectCompare ::
  "('i, 'k) imaging \<Rightarrow> box \<Rightarrow> int \<Rightarrow> int \<Rightarrow> ('z, 'i, 'k) vnc_state \<Rightarrow> exn + ('z, 'i, 'k) vnc_state" where
  "expectCompare im b f blur c =
     (case requireOnScreen im b c of
        Inl e \<Rightarrow> Inl e
      | Inr _ \<Rightarrow>
          (let again = (\<lambda>incremental. requestRefresh im incremental (c\<lparr>vc_deferred := Some (CompareScreen b f blur)\<rparr>))
           in case vc_screen c of
                None \<Rightarrow> again False
              | Some img \<Rightarrow>
                  (case (render im (Some b) c, vc_expected c) of
                     (Inr actual, Some expected) \<Rightarrow>
                       if screens_match im actual expected f blur then Inr (log_event Resumed c) else again True
                   | (Inl e, _) \<Rightarrow> Inl e
                   | (Inr _, None) \<Rightarrow> Inl AttributeError)))"

text \<open>\<open>_expectFramebuffer\<close>, with the image that \<open>Image.open\<close> gave.\<close>

definition expectFramebuffer ::
  "('i, 'k) imaging \<Rightarrow> 'i \<Rightarrow> int \<Rightarrow> int \<Rightarrow> int option \<Rightarrow> int option \<Rightarrow> ('z, 'i, 'k) vnc_state \<Rightarrow>
     exn + ('z, 'i, 'k) vnc_state" where
  "expectFramebuffer im target x y f blur c =
     (let (w, h) = im_size im target; c1 = c\<lparr>vc_expected := Some target\<rparr>
      in expectCompare im (box_of x y (int w) (int h)) (fuzz_of im f c1) (blur_of blur c1) c1)"

section \<open>Waiting for a stable screen\<close>

text \<open>\<open>_StableWatch\<close>; \<open>sw_timer\<close> says that its timer runs, and restarting it starts its window anew.\<close>

definition watch_render ::
  "('i, 'k) imaging \<Rightarrow> 'i stable_watch \<Rightarrow> ('z, 'i, 'k) vnc_state \<Rightarrow> exn + 'i" where
  "watch_render im w c =
     (case sw_box w of
        None \<Rightarrow> render im None c
      | Some b \<Rightarrow> (case requireOnScreen im b c of Inl e \<Rightarrow> Inl e | Inr _ \<Rightarrow> render im (Some b) c))"

definition watch_request ::
  "('i, 'k) imaging \<Rightarrow> bool \<Rightarrow> ('z, 'i, 'k) vnc_state \<Rightarrow> exn + ('z, 'i, 'k) vnc_state" where
  "watch_request im incremental c = refreshScreen im incremental WatchScreen c"

definition watch_update :: "('i, 'k) imaging \<Rightarrow> ('z, 'i, 'k) vnc_state \<Rightarrow> exn + ('z, 'i, 'k) vnc_state" where
  "watch_update im c =
     (case vc_watch c of
        None \<Rightarrow> Inr c
      | Some w \<Rightarrow>
          if sw_settled w then Inr c
          else
            (case watch_render im w c of
               Inl e \<Rightarrow> Inl e
             | Inr frame \<Rightarrow>
                 (let changed = (case sw_baseline w of None \<Rightarrow> True
                      | Some baseline \<Rightarrow> \<not> screens_match im frame baseline (sw_fuzz w) (sw_blur w));
                      w1 = (if changed then w\<lparr>sw_baseline := Some frame, sw_timer := True\<rparr> else w)
                  in watch_request im True (c\<lparr>vc_watch := Some w1\<rparr>))))"

definition watch_start ::
  "('i, 'k) imaging \<Rightarrow> 'i stable_watch \<Rightarrow> ('z, 'i, 'k) vnc_state \<Rightarrow> exn + ('z, 'i, 'k) vnc_state" where
  "watch_start im w c =
     (case vc_screen c of
        None \<Rightarrow> watch_request im False (c\<lparr>vc_watch := Some w\<rparr>)
      | Some img \<Rightarrow>
          (case watch_render im w c of
             Inl e \<Rightarrow> Inl e
           | Inr frame \<Rightarrow>
               watch_request im True
                 (c\<lparr>vc_watch := Some (w\<lparr>sw_baseline := Some frame, sw_timer := True\<rparr>)\<rparr>)))"

definition watch_settle :: "('z, 'i, 'k) vnc_state \<Rightarrow> ('z, 'i, 'k) vnc_state" where
  "watch_settle c =
     (case vc_watch c of
        None \<Rightarrow> c
      | Some w \<Rightarrow>
          if sw_timer w
          then log_event Resumed (c\<lparr>vc_watch := Some (w\<lparr>sw_timer := False, sw_settled := True\<rparr>)\<rparr>) else c)"

definition stableScreen ::
  "('i, 'k) imaging \<Rightarrow> int option \<Rightarrow> int option \<Rightarrow> ('z, 'i, 'k) vnc_state \<Rightarrow> exn + ('z, 'i, 'k) vnc_state" where
  "stableScreen im f blur c =
     watch_start im \<lparr>sw_box = None, sw_fuzz = fuzz_of im f c, sw_blur = blur_of blur c, sw_baseline = None,
       sw_timer = False, sw_settled = False\<rparr> c"

definition stableRegion ::
  "('i, 'k) imaging \<Rightarrow> int \<Rightarrow> int \<Rightarrow> int \<Rightarrow> int \<Rightarrow> int option \<Rightarrow> int option \<Rightarrow> ('z, 'i, 'k) vnc_state \<Rightarrow>
     exn + ('z, 'i, 'k) vnc_state" where
  "stableRegion im x y w h f blur c =
     (case requireOnScreen im (box_of x y w h) c of
        Inl e \<Rightarrow> Inl e
      | Inr _ \<Rightarrow>
          watch_start im \<lparr>sw_box = Some (box_of x y w h), sw_fuzz = fuzz_of im f c, sw_blur = blur_of blur c,
            sw_baseline = None, sw_timer = False, sw_settled = False\<rparr> c)"

section \<open>What the server changes\<close>

text \<open>The callback of a refresh; an exception in it makes the command fail and stays inside the deferred.\<close>

definition fire ::
  "('i, 'k) imaging \<Rightarrow> on_refresh \<Rightarrow> ('z, 'i, 'k) vnc_state \<Rightarrow> ('z, 'i, 'k) vnc_state" where
  "fire im what c =
     (case (case what of
              Resume \<Rightarrow> Inr (log_event Resumed c)
            | SaveScreen fp b fmt \<Rightarrow> captureSave im fp b fmt c
            | CompareScreen b f blur \<Rightarrow> expectCompare im b f blur c
            | WatchScreen \<Rightarrow> watch_update im c) of
        Inl e \<Rightarrow> log_event (CommandFailed e) c
      | Inr c' \<Rightarrow> c')"

definition client_commitUpdate ::
  "('i, 'k) imaging \<Rightarrow> rect list \<Rightarrow> ('z, 'i, 'k) vnc_state \<Rightarrow> exn + ('z, 'i, 'k) vnc_state" where
  "client_commitUpdate im log c =
     (case vc_deferred c of
        None \<Rightarrow> Inr c
      | Some what \<Rightarrow>
          if log = [] \<or> vc_screen c = None then update_request False c
          else if \<not> complete im c \<and> vc_retries c < MAX_RETRIES
          then update_request False (c\<lparr>vc_retries := vc_retries c + 1\<rparr>)
          else Inr (fire im what ((satisfied im c)\<lparr>vc_deferred := None\<rparr>)))"

definition rawModeFor ::
  "pixel_format \<Rightarrow> ('z, 'i, 'k) vnc_state \<Rightarrow> exn + string \<times> ('z, 'i, 'k) vnc_state" where
  "rawModeFor pf c =
     (if vc_raw_format c = Some pf then Inr (vc_raw_mode c, c)
      else
        (case raw_mode pf of
           Inl e \<Rightarrow> Inl (UnsupportedPixelFormat e)
         | Inr mode \<Rightarrow> Inr (mode, c\<lparr>vc_raw_format := Some pf, vc_raw_mode := mode\<rparr>)))"

text \<open>Where an update falls: on no screen yet, beyond the screen, or inside it.\<close>

definition pasted ::
  "('i, 'k) imaging \<Rightarrow> nat \<Rightarrow> nat \<Rightarrow> nat \<Rightarrow> nat \<Rightarrow> 'i \<Rightarrow> ('z, 'i, 'k) vnc_state \<Rightarrow> 'i" where
  "pasted im x y width height update c =
     (case vc_screen c of
        None \<Rightarrow> im_paste im (int x) (int y) update (im_new im (st_width c) (st_height c))
      | Some screen \<Rightarrow>
          (case im_size im screen of (sw, sh) \<Rightarrow>
             if sw < x + width \<or> sh < y + height
             then im_paste im (int x) (int y) update
                    (im_paste im 0 0 screen (im_new im (max (x + width) sw) (max (y + height) sh)))
             else im_paste im (int x) (int y) update screen))"

definition client_updateRectangle ::
  "('i, 'k) imaging \<Rightarrow> nat \<Rightarrow> nat \<Rightarrow> nat \<Rightarrow> nat \<Rightarrow> bytes \<Rightarrow> pixel_format \<Rightarrow> ('z, 'i, 'k) vnc_state \<Rightarrow>
     exn + ('z, 'i, 'k) vnc_state" where
  "client_updateRectangle im x y width height d pf c =
     (if d = [] then Inr c
      else
        (case rawModeFor pf c of
           Inl e \<Rightarrow> Inl e
         | Inr (mode, c1) \<Rightarrow>
             (case im_frombytes im width height d mode of
                Inl e \<Rightarrow> Inl e
              | Inr update \<Rightarrow>
                  Inr (paintRect im x y width height
                         (c1\<lparr>vc_screen := Some (pasted im x y width height update c1)\<rparr>)))))"

definition client_copyRectangle ::
  "('i, 'k) imaging \<Rightarrow> nat \<Rightarrow> nat \<Rightarrow> nat \<Rightarrow> nat \<Rightarrow> nat \<Rightarrow> nat \<Rightarrow> ('z, 'i, 'k) vnc_state \<Rightarrow>
     exn + ('z, 'i, 'k) vnc_state" where
  "client_copyRectangle im srcx srcy x y width height c =
     (case vc_screen c of
        None \<Rightarrow> Inr c
      | Some screen \<Rightarrow>
          (let region = im_crop im (int srcx, int srcy, int (srcx + width), int (srcy + height)) screen
           in Inr (paintRect im x y width height
                     (c\<lparr>vc_screen := Some (im_paste im (int x) (int y) region screen)\<rparr>))))"

definition client_updateCursor ::
  "('i, 'k) imaging \<Rightarrow> nat \<Rightarrow> nat \<Rightarrow> nat \<Rightarrow> nat \<Rightarrow> bytes \<Rightarrow> bytes \<Rightarrow> ('z, 'i, 'k) vnc_state \<Rightarrow>
     exn + ('z, 'i, 'k) vnc_state" where
  "client_updateCursor im x y width height pixels cmask c =
     (if fac_cursor c \<noteq> LOCAL then Inr c
      else if width = 0 \<or> height = 0 then Inr (c\<lparr>vc_cursor := None, vc_cmask := None\<rparr>)
      else
        (case im_frombytes im width height pixels (vc_image_mode c) of
           Inl e \<Rightarrow> Inl e
         | Inr cur \<Rightarrow>
             (case bit_frombytes im width height cmask of
                Inl e \<Rightarrow> Inl e
              | Inr cm \<Rightarrow>
                  Inr (c\<lparr>vc_cursor := Some cur, vc_cmask := Some cm, vc_cfocus := (int x, int y)\<rparr>))))"

definition client_updatePointerPos :: "nat \<Rightarrow> nat \<Rightarrow> ('z, 'i, 'k) vnc_state \<Rightarrow> exn + ('z, 'i, 'k) vnc_state" where
  "client_updatePointerPos x y c = Inr (c\<lparr>vc_x := int x, vc_y := int y\<rparr>)"

definition client_updateDesktopSize ::
  "('i, 'k) imaging \<Rightarrow> nat \<Rightarrow> nat \<Rightarrow> ('z, 'i, 'k) vnc_state \<Rightarrow> exn + ('z, 'i, 'k) vnc_state" where
  "client_updateDesktopSize im width height c =
     (if \<not> (width < MAX_DESKTOP_SIZE \<and> height < MAX_DESKTOP_SIZE) then Inl ValueError
      else
        (let blank = im_new im width height;
             new_screen = (case vc_screen c of None \<Rightarrow> blank | Some screen \<Rightarrow> im_paste im 0 0 screen blank);
             c1 = c\<lparr>vc_screen := Some new_screen, st_width := width, st_height := height\<rparr>
         in Inr (if refresh_pending im c1 then fullscreen im width height c1 else c1)))"

section \<open>Connecting\<close>

text \<open>The factory's deferred: firing it a second time raises.\<close>

definition clientConnectionMade :: "('z, 'i, 'k) vnc_state \<Rightarrow> exn + ('z, 'i, 'k) vnc_state" where
  "clientConnectionMade c =
     (if fac_deferred c = NotYet then Inr (c\<lparr>fac_deferred := CalledBack\<rparr>) else Inl AlreadyCalledError)"

definition clientConnectionFailed ::
  "conn_error \<Rightarrow> ('z, 'i, 'k) vnc_state \<Rightarrow> exn + ('z, 'i, 'k) vnc_state" where
  "clientConnectionFailed why c =
     (if fac_deferred c = NotYet then Inr (c\<lparr>fac_deferred := ErredBack why\<rparr>) else Inl AlreadyCalledError)"

definition client_vncProtocolError ::
  "abort_reason \<Rightarrow> ('z, 'i, 'k) vnc_state \<Rightarrow> exn + ('z, 'i, 'k) vnc_state" where
  "client_vncProtocolError reason c = clientConnectionFailed (ProtocolFailed reason) c"

definition client_vncAuthFailed :: "bytes \<Rightarrow> ('z, 'i, 'k) vnc_state \<Rightarrow> exn + ('z, 'i, 'k) vnc_state" where
  "client_vncAuthFailed reason c = clientConnectionFailed (AuthFailed reason) c"

definition client_vncRequestPassword ::
  "'z externals \<Rightarrow> ('z, 'i, 'k) vnc_state \<Rightarrow> exn + ('z, 'i, 'k) vnc_state" where
  "client_vncRequestPassword ex c =
     (case fac_password c of
        None \<Rightarrow> clientConnectionFailed PasswordRequired (lose_connection c)
      | Some password \<Rightarrow> sendPassword ex password c)"

definition RGBX8888 :: pixel_format where
  "RGBX8888 = the (map_of pixel_formats ''rgbx8888'')"

text \<open>
  \<open>self.vncProtocolError\<close> and the factory's \<open>clientConnectionMade\<close> are looked up at run time, and \<open>vnclog\<close>'s client has
  its own: here they are the arguments \<open>refused\<close> and \<open>made\<close>.
\<close>

definition use_format ::
  "(abort_reason \<Rightarrow> ('z, 'i, 'k) vnc_state \<Rightarrow> exn + ('z, 'i, 'k) vnc_state) \<Rightarrow> pixel_format \<Rightarrow>
     ('z, 'i, 'k) vnc_state \<Rightarrow> exn + ('z, 'i, 'k) vnc_state" where
  "use_format refused pf c =
     (case raw_mode pf of
        Inl e \<Rightarrow>
          (case refused (RequestedFormatUnsupported e) c of
             Inl e \<Rightarrow> Inl e
           | Inr c' \<Rightarrow> Inr (lose_connection c'))
      | Inr mode \<Rightarrow>
          (case setPixelFormat pf c of Inl e \<Rightarrow> Inl e | Inr c' \<Rightarrow> Inr (c'\<lparr>vc_image_mode := mode\<rparr>)))"

definition setImageMode ::
  "(abort_reason \<Rightarrow> ('z, 'i, 'k) vnc_state \<Rightarrow> exn + ('z, 'i, 'k) vnc_state) \<Rightarrow>
     ('z, 'i, 'k) vnc_state \<Rightarrow> exn + ('z, 'i, 'k) vnc_state" where
  "setImageMode refused c =
     (case vc_requested_pixfmt c of
        None \<Rightarrow>
          (case raw_mode (st_pixfmt c) of
             Inr mode \<Rightarrow> Inr (c\<lparr>vc_image_mode := mode\<rparr>)
           | Inl e \<Rightarrow> use_format refused RGBX8888 c)
      | Some pf \<Rightarrow> use_format refused pf c)"

text \<open>\<open>self.requested_encodings or DEFAULT_ENCODINGS\<close>: an empty list counts as none.\<close>

definition offered_encodings :: "('z, 'i, 'k) vnc_state \<Rightarrow> exn + int list" where
  "offered_encodings c =
     (let base = (case vc_requested_encodings c of
             None \<Rightarrow> default_encodings
           | Some es \<Rightarrow> if es = [] then default_encodings else es);
          options = base @
            (if fac_cursor c \<noteq> SERVER then [PSEUDO_CURSOR, PSEUDO_POINTER_POS] else []) @
            (if fac_pseudodesktop c then [PSEUDO_DESKTOP_SIZE] else []) @
            (if fac_last_rect c then [PSEUDO_LAST_RECT] else []) @
            (if fac_qemu_extended_key c then [PSEUDO_QEMU_EXTENDED_KEY_EVENT] else []) @
            (if fac_fence c then [PSEUDO_FENCE] else [])
      in case vc_requested_jpeg c of
           None \<Rightarrow> Inr options
         | Some level \<Rightarrow>
             if level < length jpeg_quality_encodings then Inr (options @ [jpeg_quality_encodings ! level])
             else Inl IndexError)"

definition client_vncConnectionMade ::
  "(abort_reason \<Rightarrow> ('z, 'i, 'k) vnc_state \<Rightarrow> exn + ('z, 'i, 'k) vnc_state) \<Rightarrow>
     (('z, 'i, 'k) vnc_state \<Rightarrow> exn + ('z, 'i, 'k) vnc_state) \<Rightarrow>
     ('z, 'i, 'k) vnc_state \<Rightarrow> exn + ('z, 'i, 'k) vnc_state" where
  "client_vncConnectionMade refused made c =
     (case setImageMode refused c of
        Inl e \<Rightarrow> Inl e
      | Inr c1 \<Rightarrow>
          (case offered_encodings c1 of
             Inl e \<Rightarrow> Inl e
           | Inr encodings \<Rightarrow>
               (case setEncodings encodings c1 of Inl e \<Rightarrow> Inl e | Inr c2 \<Rightarrow> made c2)))"

text \<open>\<open>bell\<close> and \<open>copy_text\<close> only log; \<open>beginUpdate\<close> and \<open>set_color_map\<close> are the base class's.\<close>

definition vnc_hooks :: "('i, 'k) imaging \<Rightarrow> 'z externals \<Rightarrow> ('z, 'i, 'k) vnc_state hooks" where
  "vnc_hooks im ex =
     \<lparr>vncConnectionMade = client_vncConnectionMade client_vncProtocolError clientConnectionMade,
      vncRequestPassword = client_vncRequestPassword ex,
      vncAuthFailed = client_vncAuthFailed, vncProtocolError = client_vncProtocolError,
      beginUpdate = Inr, commitUpdate = client_commitUpdate im,
      updateRectangle = client_updateRectangle im, copyRectangle = client_copyRectangle im,
      updateCursor = client_updateCursor im, updatePointerPos = client_updatePointerPos,
      updateDesktopSize = client_updateDesktopSize im, set_color_map = (\<lambda>first colours. Inr), bell = Inr,
      copy_text = (\<lambda>t. Inr)\<rparr>"

section \<open>Dialects\<close>

definition kasm_pointerEvent :: "int \<Rightarrow> int \<Rightarrow> int \<Rightarrow> ('z, 'm) client \<Rightarrow> exn + ('z, 'm) client" where
  "kasm_pointerEvent x y buttonmask c =
     write_packed (pack [(1, 5), (2, buttonmask), (2, x), (2, y), (2, 0), (2, 0)]) c"

definition SINGLE_PIXEL_UPDATE :: bytes where
  "SINGLE_PIXEL_UPDATE =
     [0, 0] @ be_bytes 2 1 @ be_bytes 2 0 @ be_bytes 2 0 @ be_bytes 2 1 @ be_bytes 2 1 @ be_bytes 4 0 @
     [0, 0, 0, 0]"

text \<open>The chunk is not appended to the buffer; \<open>self._handler()\<close> is run on what was there.\<close>

definition vmware_dataReceived ::
  "'z externals \<Rightarrow> ('z, 'm) client hooks \<Rightarrow> bytes \<Rightarrow> ('z, 'm) client conn \<Rightarrow>
     (exn + ('z, 'm) client conn) option" where
  "vmware_dataReceived ex hk d cn =
     (if length d = 20 \<and> d ! 0 = SINGLE_PIXEL_UPDATE ! 0 \<and> pslice 2 16 d = pslice 2 16 SINGLE_PIXEL_UPDATE
      then
        (case update_request False (cn_client cn) of
           Inl e \<Rightarrow> Some (Inl e)
         | Inr c \<Rightarrow>
             (let cn1 = cn\<lparr>cn_client := c\<rparr>
              in if cn_greeted cn1 then handleExpected ex hk cn1
                 else
                   (case handleInitial hk cn1 of
                      Inl e \<Rightarrow> Some (Inl e)
                    | Inr cn2 \<Rightarrow> if cn_greeted cn2 then handleExpected ex hk cn2 else Some (Inr cn2))))
      else dataReceived ex hk d cn)"

end
