(* ===== verification/Driving.thy ===== *)
theory Driving
  imports Client
begin

text \<open>
  What an application may rely on when it drives the client: keys are pressed and released in balance, a
  drag moves in small steps inside its rectangle, the screen is what the server painted, a refresh
  completes on a whole screen, and what a protocol error does once the client is connected.
\<close>

section \<open>Keys\<close>

lemma keyEvent_writes:
  "keyEvent k down c = (if 0 \<le> k \<and> k < 4294967296
     then Inr (transport_write (message_bytes (KeyEvent down (nat k))) c) else Inl StructError)"
  by (simp add: keyEvent_def write_packed_def byte_bool)

lemma key_events_write:
  "key_events ks down c = (if list_all (\<lambda>k. 0 \<le> k \<and> k < 4294967296) ks
     then Inr (c\<lparr>st_written := st_written c @ map (\<lambda>k. message_bytes (KeyEvent down (nat k))) ks\<rparr>)
     else Inl StructError)"
  by (induction ks arbitrary: c) (auto simp: keyEvent_writes transport_write_def)

lemma keysyms_errors: "keysyms ks = Inl e \<Longrightarrow> e = TypeError"
  by (induction ks) (auto simp: keysym_def split: sum.splits option.splits list.splits)

lemma decodeKey_errors: "decodeKey upper caps key = Inl e \<Longrightarrow> e = TypeError"
  by (auto simp: decodeKey_def Let_def simp del: keysyms.simps dest: keysyms_errors split: if_splits)

text \<open>
  a key press leaves nothing held down. \<open>keyPress\<close> either refuses the name or writes one press for each
  keysym of the chord, in the order of the name, and then their releases in the reverse order, and
  nothing else.
\<close>

theorem key_press_releases:
  "case keyPress upper key c of
     Inl e \<Rightarrow> e = TypeError \<or> e = StructError
   | Inr c' \<Rightarrow> (case decodeKey upper (fac_force_caps c) key of
       Inl e \<Rightarrow> False
     | Inr ks \<Rightarrow> st_written c' = st_written c @
         map (\<lambda>k. message_bytes (KeyEvent True (nat k))) ks @
         rev (map (\<lambda>k. message_bytes (KeyEvent False (nat k))) ks))"
proof (cases "decodeKey upper (fac_force_caps c) key")
  case (Inl e)
  then show ?thesis using decodeKey_errors [of upper "fac_force_caps c" key e] by (simp add: keyPress_def)
next
  case (Inr ks)
  then show ?thesis
    by (cases "list_all (\<lambda>k. 0 \<le> k \<and> k < 4294967296) ks")
      (simp_all add: keyPress_def key_events_write rev_map list_all_rev)
qed

section \<open>Drags\<close>

lemma drag_steps_bounds:
  assumes "0 < step" "i < length (drag_steps dmax step)"
  shows "drag_steps dmax step ! i = int i * step" "int i * step < dmax"
proof -
  from assms have i: "int i < (dmax + step - 1) div step" and steps: "drag_steps dmax step ! i = int i * step"
    by (auto simp: drag_steps_def)
  then show "drag_steps dmax step ! i = int i * step" by simp
  have "int i + 1 \<le> (dmax + step - 1) div step" using i by simp
  then have "(int i + 1) * step \<le> (dmax + step - 1) div step * step"
    using assms(1) by (intro mult_right_mono) simp_all
  also have "\<dots> \<le> dmax + step - 1"
    using div_mult_mod_eq [of "dmax + step - 1" step] pos_mod_sign [OF assms(1), of "dmax + step - 1"] by linarith
  finally have "(int i + 1) * step \<le> dmax + step - 1" .
  then show "int i * step < dmax" by (simp add: algebra_simps)
qed

lemma div_step:
  fixes a d m s :: int
  assumes "0 < m" "\<bar>d\<bar> \<le> m" "0 \<le> s"
  shows "\<bar>d * (a + s) div m - d * a div m\<bar> \<le> s"
proof -
  have *: "d * (a + s) div m - d * a div m \<le> s" if "d \<le> m" for d
  proof -
    have "d * (a + s) \<le> d * a + s * m"
      using mult_right_mono [OF that assms(3)] by (simp add: algebra_simps)
    then have "d * (a + s) div m \<le> (d * a + s * m) div m" using assms(1) by (rule zdiv_mono1)
    then show ?thesis using assms(1) by simp
  qed
  have "d * a - s * m \<le> d * (a + s)"
    using mult_right_mono [of "- d" m s] assms(2,3) by (simp add: algebra_simps abs_le_iff)
  then have "(d * a + (- s) * m) div m \<le> d * (a + s) div m" using assms(1) by (intro zdiv_mono1) simp_all
  then have "d * a div m - s \<le> d * (a + s) div m"
    using assms(1) div_mult_self1 [of m "d * a" "- s"] by simp
  with * [of d] assms(2) show ?thesis by linarith
qed

lemma div_fraction_between:
  fixes d m s :: int
  assumes "0 < m" "0 \<le> s" "s \<le> m"
  shows "min 0 d \<le> d * s div m \<and> d * s div m \<le> max 0 d"
proof (cases "0 \<le> d")
  case True
  then have "0 \<le> d * s" "d * s \<le> d * m" using assms by (simp_all add: mult_left_mono)
  then have "0 div m \<le> d * s div m" "d * s div m \<le> d * m div m"
    using assms(1) by (simp_all only: zdiv_mono1)
  then show ?thesis using assms(1) True by simp
next
  case False
  then have "d * m \<le> d * s" "d * s \<le> 0"
    using assms by (simp_all add: mult_left_mono_neg mult_nonpos_nonneg)
  then have "d * m div m \<le> d * s div m" "d * s div m \<le> 0 div m"
    using assms(1) by (simp_all only: zdiv_mono1)
  then show ?thesis using assms(1) False by simp
qed

lemma drag_steps_reach:
  assumes "0 < step" "0 \<le> dmax"
  shows "dmax \<le> int (length (drag_steps dmax step)) * step"
proof -
  let ?n = "(dmax + step - 1) div step"
  have "0 \<le> ?n" using assms by (intro pos_imp_zdiv_nonneg_iff [THEN iffD2]) simp_all
  moreover have "dmax \<le> ?n * step"
    using div_mult_mod_eq [of "dmax + step - 1" step] pos_mod_bound [OF assms(1), of "dmax + step - 1"] by linarith
  ultimately show ?thesis using assms(1) by (simp add: drag_steps_def)
qed

text \<open>One coordinate: \<open>o\<close> is where it starts and \<open>d\<close> how far it goes.\<close>

definition drag_at :: "int \<Rightarrow> int \<Rightarrow> int \<Rightarrow> int \<Rightarrow> int" where
  "drag_at start d dmax s = start + d * s div dmax"

lemma drag_at_step:
  "0 < dmax \<Longrightarrow> \<bar>d\<bar> \<le> dmax \<Longrightarrow> s \<le> t \<Longrightarrow> \<bar>drag_at start d dmax t - drag_at start d dmax s\<bar> \<le> t - s"
  using div_step [of dmax d "t - s" s] by (simp add: drag_at_def)

lemma drag_at_between:
  "0 < dmax \<Longrightarrow> 0 \<le> s \<Longrightarrow> s \<le> dmax \<Longrightarrow>
     min start (start + d) \<le> drag_at start d dmax s \<and> drag_at start d dmax s \<le> max start (start + d)"
  using div_fraction_between [of dmax s d] by (auto simp: drag_at_def)

lemma drag_at_ends [simp]: "drag_at start d dmax 0 = start" "0 < dmax \<Longrightarrow> drag_at start d dmax dmax = start + d"
  by (simp_all add: drag_at_def)

lemma drag_path_eq:
  fixes x y ox oy :: int
  defines "dmax \<equiv> max \<bar>x - ox\<bar> \<bar>y - oy\<bar>"
  shows "drag_path ox oy x y step =
    map (\<lambda>s. (drag_at ox (x - ox) dmax s, drag_at oy (y - oy) dmax s)) (drag_steps dmax step) @ [(x, y)]"
  by (simp add: drag_path_def Let_def drag_at_def dmax_def)

text \<open>
  a drag is smooth. For a positive step, the positions \<open>mouseDrag\<close> moves to begin where the pointer is and
  end at the target, stay inside the rectangle the two span, and no coordinate changes by more than the
  step from one to the next.
\<close>

theorem drag_in_small_steps:
  assumes "0 < step"
  shows "let path = drag_path ox oy x y step in
    hd path = (ox, oy) \<and> last path = (x, y) \<and>
    list_all (\<lambda>(px, py). min ox x \<le> px \<and> px \<le> max ox x \<and> min oy y \<le> py \<and> py \<le> max oy y) path \<and>
    successively (\<lambda>(px, py) (qx, qy). \<bar>qx - px\<bar> \<le> step \<and> \<bar>qy - py\<bar> \<le> step) path"
proof -
  define m where "m = max \<bar>x - ox\<bar> \<bar>y - oy\<bar>"
  let ?f = "\<lambda>s. (drag_at ox (x - ox) m s, drag_at oy (y - oy) m s)"
  let ?steps = "drag_steps m step"
  let ?near = "\<lambda>(px, py) (qx, qy). \<bar>qx - px\<bar> \<le> step \<and> \<bar>qy - py\<bar> \<le> step"
  have path: "drag_path ox oy x y step = map ?f ?steps @ [(x, y)]"
    unfolding m_def by (rule drag_path_eq)
  show ?thesis
  proof (cases "m = 0")
    case True
    then have "x = ox" "y = oy" by (auto simp: m_def max_def split: if_splits)
    moreover have "?steps = []" using True assms by (simp add: drag_steps_def)
    ultimately show ?thesis unfolding path by simp
  next
    case False
    then have m: "0 < m" "\<bar>x - ox\<bar> \<le> m" "\<bar>y - oy\<bar> \<le> m" by (auto simp: m_def)
    note nth = drag_steps_bounds [OF assms, of _ m]
    have reach: "m \<le> int (length ?steps) * step" using drag_steps_reach [OF assms] m(1) by simp
    have some: "?steps \<noteq> []" using reach m(1) by auto
    have inside: "0 \<le> s \<and> s \<le> m" if "s \<in> set ?steps" for s
      using that nth assms by (fastforce simp: in_set_conv_nth)
    have target: "(x, y) = ?f m" using m(1) by simp
    have "hd ?steps = 0" using some nth(1) [of 0] by (simp add: hd_conv_nth)
    then have "hd (map ?f ?steps @ [(x, y)]) = (ox, oy)" using some by (simp add: hd_map)
    moreover have "list_all (\<lambda>(px, py). min ox x \<le> px \<and> px \<le> max ox x \<and> min oy y \<le> py \<and> py \<le> max oy y)
        (map ?f ?steps @ [(x, y)])"
    proof -
      have "min ox x \<le> drag_at ox (x - ox) m s \<and> drag_at ox (x - ox) m s \<le> max ox x \<and>
          min oy y \<le> drag_at oy (y - oy) m s \<and> drag_at oy (y - oy) m s \<le> max oy y" if "s \<in> set ?steps" for s
        using inside [OF that] drag_at_between [OF m(1), of s ox "x - ox"]
          drag_at_between [OF m(1), of s oy "y - oy"] by simp
      then show ?thesis by (simp add: list_all_iff)
    qed
    moreover have near_at: "?near (?f ((?steps @ [m]) ! i)) (?f ((?steps @ [m]) ! Suc i))"
      if i: "Suc i < length (?steps @ [m])" for i
    proof -
      let ?s = "int i * step" and ?t = "(?steps @ [m]) ! Suc i"
      have si: "(?steps @ [m]) ! i = ?s" "?s < m" using i nth [of i] by (simp_all add: nth_append)
      have "?t - ?s \<le> step \<and> ?s \<le> ?t"
      proof (cases "Suc i < length ?steps")
        case True
        then show ?thesis using nth(1) [of "Suc i"] assms by (simp add: nth_append algebra_simps)
      next
        case False
        then have "length ?steps = Suc i" using i by simp
        then show ?thesis using reach si(2) by (simp add: nth_append algebra_simps)
      qed
      then have near: "?t - ?s \<le> step" "?s \<le> ?t" by simp_all
      have "\<bar>drag_at ox (x - ox) m ?t - drag_at ox (x - ox) m ?s\<bar> \<le> step"
          "\<bar>drag_at oy (y - oy) m ?t - drag_at oy (y - oy) m ?s\<bar> \<le> step"
        using near(1) drag_at_step [OF m(1,2) near(2), of ox] drag_at_step [OF m(1,3) near(2), of oy] by linarith+
      then show "?near (?f ((?steps @ [m]) ! i)) (?f ?t)" by (simp only: si(1) prod.case simp_thms)
    qed
    moreover have "successively ?near (map ?f (?steps @ [m]))"
      unfolding successively_conv_nth length_map
    proof (intro allI impI)
      fix i
      assume i: "Suc i < length (?steps @ [m])"
      show "?near (map ?f (?steps @ [m]) ! i) (map ?f (?steps @ [m]) ! Suc i)"
        unfolding nth_map [OF i] nth_map [OF Suc_lessD [OF i]] by (rule near_at [OF i])
    qed
    ultimately show ?thesis by (simp add: path target)
  qed
qed

lemma drag_in_small_steps_witness:
  "last (drag_path 10 10 (- 5) 17 4) = (- 5, 17)"
  using drag_in_small_steps [of 4 10 10 "- 5" 17] by (simp add: Let_def)

section \<open>The screen\<close>

text \<open>
  What Pillow documents of the operations the client uses, for a reading \<open>px\<close> of an image's pixels and \<open>bt\<close> of a
  mask's bits: \<open>new\<close> is black, \<open>paste\<close> replaces what it covers and keeps the size, \<open>crop\<close> pads with black, a box
  pasted as 0 clears its bits, and \<open>getbbox\<close> is None when no bit is left.
\<close>

definition in_box :: "int \<Rightarrow> int \<Rightarrow> int \<Rightarrow> int \<Rightarrow> nat \<Rightarrow> nat \<Rightarrow> bool" where
  "in_box x y w h i j \<longleftrightarrow> x \<le> int i \<and> int i < x + w \<and> y \<le> int j \<and> int j < y + h"

definition pixel_laws :: "('i, 'k) imaging \<Rightarrow> ('i \<Rightarrow> nat \<Rightarrow> nat \<Rightarrow> 'p) \<Rightarrow> 'p \<Rightarrow> bool" where
  "pixel_laws im px black \<longleftrightarrow>
     (\<forall>w h. im_size im (im_new im w h) = (w, h) \<and> (\<forall>i j. px (im_new im w h) i j = black)) \<and>
     (\<forall>x y s d. im_size im (im_paste im x y s d) = im_size im d \<and>
       (\<forall>i j. i < fst (im_size im d) \<longrightarrow> j < snd (im_size im d) \<longrightarrow>
          px (im_paste im x y s d) i j =
            (if in_box x y (int (fst (im_size im s))) (int (snd (im_size im s))) i j
             then px s (nat (int i - x)) (nat (int j - y)) else px d i j))) \<and>
     (\<forall>w h d mode s. im_frombytes im w h d mode = Inr s \<longrightarrow> im_size im s = (w, h)) \<and>
     (\<forall>x y w h s. let r = im_crop im (int x, int y, int (x + w), int (y + h)) s
       in im_size im r = (w, h) \<and>
          (\<forall>i j. i < w \<longrightarrow> j < h \<longrightarrow>
             px r i j = (if x + i < fst (im_size im s) \<and> y + j < snd (im_size im s) then px s (x + i) (y + j)
                         else black)))"

definition mask_laws :: "('i, 'k) imaging \<Rightarrow> ('k \<Rightarrow> nat \<Rightarrow> nat \<Rightarrow> bool) \<Rightarrow> bool" where
  "mask_laws im bt \<longleftrightarrow>
     (\<forall>w h. bit_size im (bit_new im w h) = (w, h) \<and> (\<forall>i j. bt (bit_new im w h) i j \<longleftrightarrow> i < w \<and> j < h)) \<and>
     (\<forall>x0 y0 x1 y1 k. bit_size im (bit_clear im (x0, y0, x1, y1) k) = bit_size im k \<and>
       (\<forall>i j. bt (bit_clear im (x0, y0, x1, y1) k) i j \<longleftrightarrow> bt k i j \<and> \<not> in_box x0 y0 (x1 - x0) (y1 - y0) i j)) \<and>
     (\<forall>k. bit_blank im k \<longleftrightarrow> (\<forall>i j. \<not> bt k i j))"

text \<open>An instance of both: images and masks as functions.\<close>

definition function_imaging ::
  "(nat \<times> nat \<times> (nat \<Rightarrow> nat \<Rightarrow> nat), nat \<times> nat \<times> (nat \<Rightarrow> nat \<Rightarrow> bool)) imaging" where
  "function_imaging =
     \<lparr>im_new = (\<lambda>w h. (w, h, \<lambda>i j. 0)), im_size = (\<lambda>(w, h, f). (w, h)),
      im_paste = (\<lambda>x y (sw, sh, f) (dw, dh, g).
        (dw, dh, \<lambda>i j. if in_box x y (int sw) (int sh) i j then f (nat (int i - x)) (nat (int j - y)) else g i j)),
      im_paste_masked = (\<lambda>x y (mw, mh, m) (sw, sh, f) (dw, dh, g).
        (dw, dh, \<lambda>i j. if in_box x y (int sw) (int sh) i j \<and> m (nat (int i - x)) (nat (int j - y))
           then f (nat (int i - x)) (nat (int j - y)) else g i j)),
      im_crop = (\<lambda>(x0, y0, x1, y1) (w, h, f).
        (nat (x1 - x0), nat (y1 - y0), \<lambda>i j. if in_box (- x0) (- y0) (int w) (int h) i j
           then f (nat (int i + x0)) (nat (int j + y0)) else 0)),
      im_frombytes = (\<lambda>w h d mode. Inr (w, h, \<lambda>i j. if j * w + i < length d then unat (d ! (j * w + i)) else 0)),
      bit_new = (\<lambda>w h. (w, h, \<lambda>i j. True)), bit_size = (\<lambda>(w, h, m). (w, h)),
      bit_clear = (\<lambda>(x0, y0, x1, y1) (w, h, m). (w, h, \<lambda>i j. m i j \<and> \<not> in_box x0 y0 (x1 - x0) (y1 - y0) i j)),
      bit_blank = (\<lambda>(w, h, m). list_all (\<lambda>i. list_all (\<lambda>j. \<not> m i j) [0..<h]) [0..<w]),
      bit_frombytes = (\<lambda>w h d. Inr (w, h, \<lambda>i j. True)),
      screens_match = (\<lambda>a b fuzz blur. fst a = fst b), bound_for_channels = (\<lambda>tolerance. 0)\<rparr>"

definition function_px :: "nat \<times> nat \<times> (nat \<Rightarrow> nat \<Rightarrow> nat) \<Rightarrow> nat \<Rightarrow> nat \<Rightarrow> nat" where
  "function_px img i j = snd (snd img) i j"

definition function_bt :: "nat \<times> nat \<times> (nat \<Rightarrow> nat \<Rightarrow> bool) \<Rightarrow> nat \<Rightarrow> nat \<Rightarrow> bool" where
  "function_bt m i j \<longleftrightarrow> i < fst m \<and> j < fst (snd m) \<and> snd (snd m) i j"

lemma function_pixel_laws: "pixel_laws function_imaging function_px 0"
  by (auto simp: pixel_laws_def function_imaging_def function_px_def in_box_def add.commute nat_add_distrib
      split: prod.splits)

lemma function_mask_laws: "mask_laws function_imaging function_bt"
  by (auto simp: mask_laws_def function_imaging_def function_bt_def in_box_def list_all_iff split: prod.splits)

definition screen_size :: "('i, 'k) imaging \<Rightarrow> ('z, 'i, 'k) vnc_state \<Rightarrow> nat \<times> nat" where
  "screen_size im c = (case vc_screen c of None \<Rightarrow> (0, 0) | Some s \<Rightarrow> im_size im s)"

definition shown ::
  "('i, 'k) imaging \<Rightarrow> ('i \<Rightarrow> nat \<Rightarrow> nat \<Rightarrow> 'p) \<Rightarrow> 'p \<Rightarrow> ('z, 'i, 'k) vnc_state \<Rightarrow> nat \<Rightarrow> nat \<Rightarrow> 'p" where
  "shown im px black c i j =
     (case vc_screen c of
        None \<Rightarrow> black
      | Some s \<Rightarrow> if i < fst (im_size im s) \<and> j < snd (im_size im s) then px s i j else black)"

lemma paint_screen [simp]: "vc_screen (paintRect im x y w h c) = vc_screen c"
  by (simp add: paintRect_def)

lemma new_px:
  "pixel_laws im px black \<Longrightarrow> im_size im (im_new im w h) = (w, h) \<and> px (im_new im w h) i j = black"
  by (simp add: pixel_laws_def)

lemma paste_px:
  "pixel_laws im px black \<Longrightarrow> im_size im (im_paste im x y s d) = im_size im d \<and>
    (i < fst (im_size im d) \<longrightarrow> j < snd (im_size im d) \<longrightarrow>
      px (im_paste im x y s d) i j =
        (if in_box x y (int (fst (im_size im s))) (int (snd (im_size im s))) i j
         then px s (nat (int i - x)) (nat (int j - y)) else px d i j))"
  by (simp add: pixel_laws_def)

lemma pasted_px:
  assumes laws: "pixel_laws im px black" and update: "im_size im update = (w, h)"
  shows "im_size im (pasted im x y w h update c) =
      (case vc_screen c of None \<Rightarrow> (st_width c, st_height c)
       | Some s \<Rightarrow> (max (x + w) (fst (im_size im s)), max (y + h) (snd (im_size im s))))"
    and "i < fst (im_size im (pasted im x y w h update c)) \<Longrightarrow>
      j < snd (im_size im (pasted im x y w h update c)) \<Longrightarrow>
      px (pasted im x y w h update c) i j =
        (if in_box (int x) (int y) (int w) (int h) i j then px update (i - x) (j - y) else shown im px black c i j)"
proof -
  note new = new_px [OF laws] and over = paste_px [OF laws]
  show "im_size im (pasted im x y w h update c) =
      (case vc_screen c of None \<Rightarrow> (st_width c, st_height c)
       | Some s \<Rightarrow> (max (x + w) (fst (im_size im s)), max (y + h) (snd (im_size im s))))"
    using new over by (auto simp: pasted_def split: option.splits prod.splits)
  have nat: "nat (int i - int x) = i - x" "nat (int j - int y) = j - y" by simp_all
  show "px (pasted im x y w h update c) i j =
        (if in_box (int x) (int y) (int w) (int h) i j then px update (i - x) (j - y) else shown im px black c i j)"
    if "i < fst (im_size im (pasted im x y w h update c))" "j < snd (im_size im (pasted im x y w h update c))"
  proof (cases "vc_screen c")
    case None
    then show ?thesis using that new over update by (simp add: pasted_def shown_def nat)
  next
    case (Some s)
    obtain sw sh where s: "im_size im s = (sw, sh)" by force
    show ?thesis
    proof (cases "sw < x + w \<or> sh < y + h")
      case True
      then have "pasted im x y w h update c = im_paste im (int x) (int y) update
          (im_paste im 0 0 s (im_new im (max (x + w) sw) (max (y + h) sh)))"
        using Some s by (simp add: pasted_def)
      then show ?thesis using that new over update s Some by (simp add: shown_def nat in_box_def)
    next
      case False
      then have "pasted im x y w h update c = im_paste im (int x) (int y) update s"
        using Some s by (simp add: pasted_def)
      then show ?thesis using that over update s Some by (simp add: shown_def nat)
    qed
  qed
qed

text \<open>
  C17: the screen is what the server painted. A decoded rectangle is pasted over the screen as it was, which
  grows to hold it when it reaches beyond and is made at the framebuffer's size when there was none:
  inside the rectangle every pixel is the update's, everywhere else it is unchanged, and what was never
  painted is black.
\<close>

theorem update_paints_screen:
  assumes laws: "pixel_laws im px black"
    and decoded: "d \<noteq> []" "rawModeFor pf c = Inr (mode, c1)" "im_frombytes im w h d mode = Inr update"
  shows "\<exists>c'. client_updateRectangle im x y w h d pf c = Inr c' \<and>
    screen_size im c' = (case vc_screen c of None \<Rightarrow> (st_width c, st_height c)
       | Some s \<Rightarrow> (max (x + w) (fst (im_size im s)), max (y + h) (snd (im_size im s)))) \<and>
    (\<forall>i j. shown im px black c' i j =
      (if i < fst (screen_size im c') \<and> j < snd (screen_size im c')
       then (if in_box (int x) (int y) (int w) (int h) i j then px update (i - x) (j - y)
             else shown im px black c i j)
       else black))"
proof -
  have c1: "vc_screen c1 = vc_screen c" "st_width c1 = st_width c" "st_height c1 = st_height c"
    using decoded(2) by (auto simp: rawModeFor_def split: if_splits sum.splits)
  have same: "pasted im x y w h update c1 = pasted im x y w h update c" "shown im px black c1 = shown im px black c"
    by (simp_all add: pasted_def shown_def c1 fun_eq_iff cong: option.case_cong)
  have size: "im_size im update = (w, h)" using laws decoded(3) by (simp add: pixel_laws_def)
  have run: "client_updateRectangle im x y w h d pf c =
      Inr (paintRect im x y w h (c1\<lparr>vc_screen := Some (pasted im x y w h update c)\<rparr>))"
    using decoded same by (simp add: client_updateRectangle_def)
  show ?thesis
    using pasted_px [OF laws size, where x = x and y = y and c = c]
    by (auto simp: run screen_size_def shown_def [of _ _ _ "paintRect _ _ _ _ _ _"])
qed

lemma update_paints_screen_witness:
  "\<exists>c c' :: (unit, nat \<times> nat \<times> (nat \<Rightarrow> nat \<Rightarrow> nat), nat \<times> nat \<times> (nat \<Rightarrow> nat \<Rightarrow> bool)) vnc_state.
     screen_size function_imaging c = (2, 1) \<and>
     client_updateRectangle function_imaging 3 4 2 1 [7, 9] default_pixel_format c = Inr c' \<and>
     screen_size function_imaging c' = (5, 5) \<and>
     map (\<lambda>(i, j). shown function_imaging function_px 0 c' i j) [(3, 4), (4, 4), (1, 0), (2, 0), (4, 5)] = [7, 9, 6, 0, 0]"
proof -
  let ?c = "(vnc_init function_imaging stored_externals)\<lparr>vc_screen := Some (2, 1, \<lambda>i j. i + 5)\<rparr> ::
    (unit, nat \<times> nat \<times> (nat \<Rightarrow> nat \<Rightarrow> nat), nat \<times> nat \<times> (nat \<Rightarrow> nat \<Rightarrow> bool)) vnc_state"
  have mode: "raw_mode default_pixel_format = Inr ''RGBX''" by code_simp
  have raw: "rawModeFor default_pixel_format ?c =
      Inr (''RGBX'', ?c\<lparr>vc_raw_format := Some default_pixel_format, vc_raw_mode := ''RGBX''\<rparr>)"
    by (simp add: rawModeFor_def mode vnc_init_def rfb_state.defs rfb_init_def)
  have update: "im_frombytes function_imaging 2 1 [7, 9] ''RGBX'' =
      Inr (2, 1, \<lambda>i j. if j * 2 + i < length [7, 9 :: 8 word] then unat ([7, 9 :: 8 word] ! (j * 2 + i)) else 0)"
    by (simp add: function_imaging_def)
  have size: "im_size function_imaging = (\<lambda>(w, h, f). (w, h))" by (simp add: function_imaging_def)
  obtain c' where run: "client_updateRectangle function_imaging 3 4 2 1 [7, 9] default_pixel_format ?c = Inr c'"
      "screen_size function_imaging c' = (5, 5)"
      and out: "\<And>i j. shown function_imaging function_px 0 c' i j =
        (if i < 5 \<and> j < 5
         then (if in_box 3 4 2 1 i j
               then (if (j - 4) * 2 + (i - 3) < length [7, 9 :: 8 word]
                     then unat ([7, 9 :: 8 word] ! ((j - 4) * 2 + (i - 3))) else 0)
               else shown function_imaging function_px 0 ?c i j)
         else 0)"
    using update_paints_screen [OF function_pixel_laws _ raw update, of 3 4] by (auto simp: size function_px_def)
  have "map (\<lambda>(i, j). shown function_imaging function_px 0 c' i j) [(3, 4), (4, 4), (1, 0), (2, 0), (4, 5)] = [7, 9, 6, 0, 0]"
    by (simp add: out in_box_def) (simp add: shown_def size function_px_def)
  moreover have "screen_size function_imaging ?c = (2, 1)" by (simp add: screen_size_def size)
  ultimately show ?thesis using run by (intro exI conjI)
qed

text \<open>
  C28: a copied rectangle shows what the screen showed at its source before the copy, also where source and
  destination overlap, with black for what lies outside the screen; every other pixel and the screen's
  size stay. Without a screen a copy does nothing.
\<close>

theorem copy_shows_source:
  assumes laws: "pixel_laws im px black"
  shows "\<exists>c'. client_copyRectangle im srcx srcy x y w h c = Inr c' \<and> screen_size im c' = screen_size im c \<and>
    (\<forall>i j. shown im px black c' i j =
      (if i < fst (screen_size im c) \<and> j < snd (screen_size im c) \<and> in_box (int x) (int y) (int w) (int h) i j
       then shown im px black c (srcx + (i - x)) (srcy + (j - y)) else shown im px black c i j))"
proof (cases "vc_screen c")
  case None
  then show ?thesis by (simp add: client_copyRectangle_def shown_def screen_size_def)
next
  case (Some s)
  let ?r = "im_crop im (int srcx, int srcy, int (srcx + w), int (srcy + h)) s"
  let ?s' = "im_paste im (int x) (int y) ?r s"
  have crop: "im_size im ?r = (w, h)"
      "i < w \<Longrightarrow> j < h \<Longrightarrow> px ?r i j = (if srcx + i < fst (im_size im s) \<and> srcy + j < snd (im_size im s)
         then px s (srcx + i) (srcy + j) else black)" for i j
    using laws unfolding pixel_laws_def Let_def by blast+
  have size: "im_size im ?s' = im_size im s" using paste_px [OF laws] by blast
  have inside: "i - x < w \<and> j - y < h \<and> nat (int i - int x) = i - x \<and> nat (int j - int y) = j - y"
    if "in_box (int x) (int y) (int w) (int h) i j" for i j
    using that by (auto simp: in_box_def)
  have px: "px ?s' i j = (if in_box (int x) (int y) (int w) (int h) i j
      then (if srcx + (i - x) < fst (im_size im s) \<and> srcy + (j - y) < snd (im_size im s)
            then px s (srcx + (i - x)) (srcy + (j - y)) else black) else px s i j)"
    if "i < fst (im_size im s)" "j < snd (im_size im s)" for i j
    using that paste_px [OF laws, of "int x" "int y" ?r s i j] crop(2) [of "i - x" "j - y"] crop(1) inside [of i j] by simp
  have "client_copyRectangle im srcx srcy x y w h c = Inr (paintRect im x y w h (c\<lparr>vc_screen := Some ?s'\<rparr>))"
    using Some by (simp add: client_copyRectangle_def)
  then show ?thesis using Some size px by (auto simp: shown_def screen_size_def)
qed

lemma copy_shows_source_witness:
  "\<exists>c' :: (unit, nat \<times> nat \<times> (nat \<Rightarrow> nat \<Rightarrow> nat), nat \<times> nat \<times> (nat \<Rightarrow> nat \<Rightarrow> bool)) vnc_state.
     client_copyRectangle function_imaging 0 0 1 0 2 1
       ((vnc_init function_imaging stored_externals)\<lparr>vc_screen := Some (3, 1, \<lambda>i j. i)\<rparr>) = Inr c' \<and>
     shown function_imaging function_px 0 c' 2 0 = 1"
proof -
  let ?c = "(vnc_init function_imaging stored_externals)\<lparr>vc_screen := Some (3, 1, \<lambda>i j. i)\<rparr> ::
    (unit, nat \<times> nat \<times> (nat \<Rightarrow> nat \<Rightarrow> nat), nat \<times> nat \<times> (nat \<Rightarrow> nat \<Rightarrow> bool)) vnc_state"
  have size: "im_size function_imaging (w, h, f) = (w, h)" for w h f by (simp add: function_imaging_def)
  obtain c' where run: "client_copyRectangle function_imaging 0 0 1 0 2 1 ?c = Inr c'"
    and px: "\<And>i j. shown function_imaging function_px 0 c' i j =
      (if i < fst (screen_size function_imaging ?c) \<and> j < snd (screen_size function_imaging ?c) \<and>
          in_box (int 1) (int 0) (int 2) (int 1) i j
       then shown function_imaging function_px 0 ?c (0 + (i - 1)) (0 + (j - 0))
       else shown function_imaging function_px 0 ?c i j)"
    using copy_shows_source [OF function_pixel_laws, of 0 0 1 0 2 1 ?c] by blast
  have "shown function_imaging function_px 0 c' 2 0 = 1"
    by (subst px) (simp add: size screen_size_def in_box_def shown_def function_px_def)
  then show ?thesis using run by blast
qed

section \<open>Refreshing\<close>

text \<open>An update of the server: its rectangles are painted, then committed.\<close>

definition server_update ::
  "('i, 'k) imaging \<Rightarrow> rect list \<Rightarrow> ('z, 'i, 'k) vnc_state \<Rightarrow> exn + ('z, 'i, 'k) vnc_state" where
  "server_update im rects c =
     client_commitUpdate im rects (fold (\<lambda>(x, y, w, h). paintRect im x y w h) rects c)"

definition covered :: "rect list \<Rightarrow> nat \<Rightarrow> nat \<Rightarrow> bool" where
  "covered rects width height \<longleftrightarrow>
     (\<forall>i < width. \<forall>j < height. \<exists>(x, y, w, h) \<in> set rects. in_box (int x) (int y) (int w) (int h) i j)"

definition clear_all :: "('i, 'k) imaging \<Rightarrow> rect list \<Rightarrow> 'k \<Rightarrow> 'k" where
  "clear_all im = fold (\<lambda>(x, y, w, h). bit_clear im (int x, int y, int (x + w), int (y + h)))"

lemma paint_all:
  "fold (\<lambda>(x, y, w, h). paintRect im x y w h) rects c =
     c\<lparr>vc_unpainted := clear_all im rects (vc_unpainted c)\<rparr>"
  by (induction rects arbitrary: c) (auto simp: paintRect_def clear_all_def)

lemma bt_clear_all:
  assumes "mask_laws im bt"
  shows "bt (clear_all im rects k) i j \<longleftrightarrow>
    bt k i j \<and> \<not> (\<exists>(x, y, w, h) \<in> set rects. in_box (int x) (int y) (int w) (int h) i j)"
proof (induction rects arbitrary: k)
  case (Cons r rects)
  obtain x y w h where r: "r = (x, y, w, h)" by (cases r)
  have "bt (bit_clear im (int x, int y, int (x + w), int (y + h)) k) i j \<longleftrightarrow>
      bt k i j \<and> \<not> in_box (int x) (int y) (int w) (int h) i j"
    using assms by (simp add: mask_laws_def)
  then show ?case using Cons.IH by (simp add: r clear_all_def)
qed (simp add: clear_all_def)

lemma blank_covered:
  assumes "mask_laws im bt"
  shows "bit_blank im (clear_all im rects (bit_new im w h)) \<longleftrightarrow> covered rects w h"
proof -
  have blank: "bit_blank im k \<longleftrightarrow> (\<forall>i j. \<not> bt k i j)" "bt (bit_new im w h) i j \<longleftrightarrow> i < w \<and> j < h" for k i j
    using assms by (simp_all add: mask_laws_def)
  show ?thesis unfolding blank covered_def bt_clear_all [OF assms] by meson
qed

text \<open>
  C7: a full refresh completes on a whole screen, or after asking once more. Of the updates the server
  sends after a non-incremental request, the first that carries rectangles completes the refresh when its
  rectangles cover the framebuffer; otherwise nothing fires, the client asks for the whole framebuffer
  exactly once more, and the next update with rectangles completes the refresh, whatever it covers. What
  the refresh was for is then run once, with the pending state already cleared.
\<close>

theorem refresh_completes:
  assumes laws: "mask_laws im bt"
    and asked: "refreshScreen im False what c0 = Inr c"
    and screen: "vc_screen c0 \<noteq> None" and updates: "first \<noteq> []" "second \<noteq> []"
  shows "\<exists>c1. server_update im first c = Inr c1 \<and>
    (if covered first (st_width c0) (st_height c0)
     then c1 = fire im what ((satisfied im c)\<lparr>vc_deferred := None\<rparr>)
     else vc_deferred c1 = Some what \<and> vc_events c1 = vc_events c \<and>
       sent c1 = sent c @ message_bytes (UpdateRequest False 0 0 (st_width c0) (st_height c0)) \<and>
       server_update im second c1 =
         Inr (fire im what ((satisfied im (c\<lparr>st_written := st_written c1\<rparr>))\<lparr>vc_deferred := None\<rparr>)))"
proof -
  let ?w = "st_width c0" and ?h = "st_height c0"
  let ?m = "message_bytes (UpdateRequest False 0 0 ?w ?h)"
  have request: "update_request False d = (if st_width d < 65536 \<and> st_height d < 65536
      then Inr (transport_write (message_bytes (UpdateRequest False 0 0 (st_width d) (st_height d))) d)
      else Inl StructError)" for d :: "('d, 'a, 'b) vnc_state"
    by (simp add: update_request_def framebufferUpdateRequest_def write_packed_def)
  have wh: "?w < 65536 \<and> ?h < 65536" and
    c: "c = transport_write ?m (fullscreen im ?w ?h (c0\<lparr>vc_deferred := Some what\<rparr>))"
    using asked by (auto simp: refreshScreen_def requestRefresh_def request fullscreen_def split: if_splits)
  obtain img where "vc_screen c0 = Some img" using screen by auto
  then have fields: "vc_deferred c = Some what" "vc_screen c = Some img" "vc_retries c = 0" "st_width c = ?w"
      "st_height c = ?h" "vc_unpainted c = bit_new im ?w ?h"
    by (simp_all add: c fullscreen_def transport_write_def)
  show ?thesis
  proof (cases "covered first ?w ?h")
    case True
    then show ?thesis
      using updates fields
      by (simp add: server_update_def paint_all client_commitUpdate_def complete_def blank_covered [OF laws]
        satisfied_def fullscreen_def)
  next
    case False
    let ?c1 = "transport_write ?m (c\<lparr>vc_unpainted := clear_all im first (bit_new im ?w ?h), vc_retries := 1\<rparr>)"
    have "server_update im first c = Inr ?c1"
      using updates fields False wh
      by (simp add: server_update_def paint_all client_commitUpdate_def complete_def blank_covered [OF laws]
        MAX_RETRIES_def request)
    moreover have "server_update im second ?c1 =
        Inr (fire im what ((satisfied im (c\<lparr>st_written := st_written ?c1\<rparr>))\<lparr>vc_deferred := None\<rparr>))"
      using updates fields
      by (simp add: server_update_def paint_all client_commitUpdate_def complete_def MAX_RETRIES_def
        satisfied_def fullscreen_def transport_write_def)
    ultimately show ?thesis using False fields by (simp add: transport_write_def sent_def)
  qed
qed

lemma refresh_completes_witness:
  "\<exists>c0 c c1 :: (unit, nat \<times> nat \<times> (nat \<Rightarrow> nat \<Rightarrow> nat), nat \<times> nat \<times> (nat \<Rightarrow> nat \<Rightarrow> bool)) vnc_state.
     refreshScreen function_imaging False Resume c0 = Inr c \<and>
     server_update function_imaging [(0, 0, 2, 1), (1, 0, 1, 1)] c = Inr c1 \<and> vc_events c1 = vc_events c @ [Resumed]"
proof -
  let ?c0 = "(vnc_init function_imaging stored_externals)\<lparr>vc_screen := Some (2, 1, \<lambda>i j. i), st_width := 2, st_height := 1\<rparr>
    :: (unit, nat \<times> nat \<times> (nat \<Rightarrow> nat \<Rightarrow> nat), nat \<times> nat \<times> (nat \<Rightarrow> nat \<Rightarrow> bool)) vnc_state"
  have "\<exists>c. refreshScreen function_imaging False Resume ?c0 = Inr c"
    by (simp add: refreshScreen_def requestRefresh_def update_request_def framebufferUpdateRequest_def
        write_packed_def fullscreen_def)
  then obtain c where asked: "refreshScreen function_imaging False Resume ?c0 = Inr c" ..
  have "covered [(0, 0, 2, 1), (1, 0, 1, 1)] 2 1" by (auto simp: covered_def in_box_def)
  then obtain c1 where run: "server_update function_imaging [(0, 0, 2, 1), (1, 0, 1, 1)] c = Inr c1"
      "c1 = fire function_imaging Resume ((satisfied function_imaging c)\<lparr>vc_deferred := None\<rparr>)"
    using refresh_completes [OF function_mask_laws asked, of "[(0, 0, 2, 1), (1, 0, 1, 1)]" "[(0, 0, 1, 1)]"] by auto
  then have "vc_events c1 = vc_events c @ [Resumed]"
    by (simp add: fire_def log_event_def satisfied_def fullscreen_def)
  then show ?thesis using asked run(1) by blast
qed

section \<open>Errors after connecting\<close>

text \<open>
  A protocol error is reported once. Before the client is connected, giving a connection up hands the
  reason to the factory's deferred and closes the transport; once the deferred has fired, as
  \<open>vncConnectionMade\<close> makes it, the report itself raises, out of \<open>abortConnection\<close> and before the transport
  is closed.
\<close>

theorem error_report_raises_once_connected:
  "abortConnection (vnc_hooks im ex) reason cn =
     (if fac_deferred (cn_client cn) = NotYet
      then Inr (cn\<lparr>cn_aborted := True, cn_packet := [],
        cn_client := lose_connection ((cn_client cn)\<lparr>fac_deferred := ErredBack (ProtocolFailed reason)\<rparr>)\<rparr>)
      else Inl AlreadyCalledError) \<and>
   (case vncConnectionMade (vnc_hooks im ex) c of Inl e \<Rightarrow> True | Inr c' \<Rightarrow> fac_deferred c' = CalledBack)"
  by (auto simp: abortConnection_def callback_def vnc_hooks_def client_vncProtocolError_def
      clientConnectionFailed_def with_client_def client_vncConnectionMade_def clientConnectionMade_def
      split: sum.splits if_splits)

end
