(* ===== verification/Capture.thy ===== *)
theory Capture
  imports Const "HOL-Library.Product_Lexorder" "HOL-Library.AList"
begin

text \<open>
  \<open>vncdotool/capture.py\<close>: the scrubber that follows an RFB handshake across both directions of a proxied
  connection and decides what a capture records, and the writer that collects the two streams.

  The grammar \<open>HandshakeScrubber._run\<close> is a Python generator that yields (tap, byte count) pairs and
  sets attributes of the scrubber as it goes; \<open>scan\<close> is the syntax tree of such generators.
\<close>

section \<open>\<open>int()\<close> of a byte string\<close>

text \<open>
  Blanks around, one sign, and digits that single underscores may separate; anything else is a
  \<open>ValueError\<close>.
\<close>

definition is_blank :: "byte \<Rightarrow> bool" where
  "is_blank b \<longleftrightarrow> b = 32 \<or> 9 \<le> b \<and> b \<le> 13"

definition strip_blanks :: "bytes \<Rightarrow> bytes" where
  "strip_blanks bs = rev (dropWhile is_blank (rev (dropWhile is_blank bs)))"

fun more_digits :: "bytes \<Rightarrow> nat \<Rightarrow> nat option" where
  "more_digits [] acc = Some acc"
| "more_digits [b] acc = (if is_digit b then Some (10 * acc + (unat b - 48)) else None)"
| "more_digits (b # d # bs) acc =
     (if is_digit b then more_digits (d # bs) (10 * acc + (unat b - 48))
      else if b = 95 \<and> is_digit d then more_digits bs (10 * acc + (unat d - 48))
      else None)"

definition unsigned_int :: "bytes \<Rightarrow> nat option" where
  "unsigned_int bs =
     (case bs of [] \<Rightarrow> None | b # rest \<Rightarrow> if is_digit b then more_digits rest (unat b - 48) else None)"

definition py_int :: "bytes \<Rightarrow> int option" where
  "py_int bs =
     (case strip_blanks bs of
        [] \<Rightarrow> None
      | b # rest \<Rightarrow>
          if b = 45 then map_option (\<lambda>n. - int n) (unsigned_int rest)
          else if b = 43 then map_option int (unsigned_int rest)
          else map_option int (unsigned_int (b # rest)))"

section \<open>The scrubber's state\<close>

datatype tap = S2C | C2S

datatype give_up = UnreadableVersion bytes | UnfollowedSecurity string

record scrub_notes =
  sc_preserve_auth :: bool
  sc_protocol_version :: "nat list option"
  sc_negotiated_version :: "(int \<times> int) option"
  sc_security_types :: "nat list"
  sc_security_type :: "nat option"
  sc_unstrippable_auth :: "string option"
  sc_abort_reason :: "give_up option"
  sc_width :: "nat option"
  sc_height :: "nat option"
  sc_recording :: "bytes option"
  sc_in_auth :: bool

datatype scan =
    Finish
  | Want tap nat "bytes \<Rightarrow> scan"
  | Set "scrub_notes \<Rightarrow> scrub_notes" scan

record scrubber =
  sb_notes :: scrub_notes
  sb_scan :: scan
  sb_s2c_pending :: bytes
  sb_c2s_pending :: bytes

section \<open>The grammar\<close>

definition ARD_CREDENTIALS_LEN :: nat where
  "ARD_CREDENTIALS_LEN = 128"

text \<open>\<open>decode("ascii", "replace").rstrip("\n")\<close>.\<close>

definition decode_ascii_line :: "bytes \<Rightarrow> nat list" where
  "decode_ascii_line bs =
     rev (dropWhile (\<lambda>p. p = 10) (rev (map (\<lambda>b. if b < 128 then unat b else 0xFFFD) bs)))"

definition record_as :: "bytes \<Rightarrow> scrub_notes \<Rightarrow> scrub_notes" where
  "record_as d nt = nt\<lparr>sc_recording := Some d\<rparr>"

definition give_up :: "give_up \<Rightarrow> scrub_notes \<Rightarrow> scrub_notes" where
  "give_up why nt = (if sc_preserve_auth nt then nt else nt\<lparr>sc_abort_reason := Some why\<rparr>)"

text \<open>\<open>f"{name.lower().replace('_', '-')}({sectype})"\<close>; an unknown type is named \<open>unknown\<close>.\<close>

definition lower_dashes :: "string \<Rightarrow> string" where
  "lower_dashes s = map (\<lambda>ch. let p = of_char ch :: nat in
     if p = 95 then CHR ''-'' else if 65 \<le> p \<and> p \<le> 90 then char_of (p + 32) else ch) s"

definition looked_up_name :: "looked_up \<Rightarrow> string" where
  "looked_up_name u = (case u of Member n v \<Rightarrow> n | Unknown v \<Rightarrow> ''unknown'')"

definition auth_label :: "nat \<Rightarrow> string" where
  "auth_label sectype =
     lower_dashes (looked_up_name (auth_lookup (int sectype))) @ ''('' @ show_int (int sectype) @ '')''"

text \<open>From ClientInit on.\<close>

definition scan_init :: scan where
  "scan_init =
     Want C2S 1 (\<lambda>_. Want S2C 24 (\<lambda>server_init.
       Set (\<lambda>nt. nt\<lparr>sc_width := Some (u16_at 0 server_init), sc_height := Some (u16_at 2 server_init)\<rparr>)
         (let name_len = u32_at 20 server_init
          in if name_len \<noteq> 0 then Want S2C name_len (\<lambda>_. Finish) else Finish)))"

text \<open>From \<open>self._in_auth = False\<close> on.\<close>

definition scan_result :: "int \<times> int \<Rightarrow> nat \<Rightarrow> scan" where
  "scan_result negotiated sectype =
     Set (\<lambda>nt. nt\<lparr>sc_in_auth := False\<rparr>)
       (if \<not> (negotiated < (3, 8) \<and> sectype = 1)
        then Want S2C 4 (\<lambda>result_b.
               if be_val result_b \<noteq> 0
               then (if negotiated < (3, 8) then Set (record_as []) Finish else Finish)
               else Set (record_as (if negotiated \<ge> (3, 8) then be_bytes 4 0 else [])) scan_init)
        else scan_init)"

text \<open>From \<open>self.security_type = sectype\<close> on.\<close>

definition scan_auth :: "int \<times> int \<Rightarrow> nat \<Rightarrow> scan" where
  "scan_auth negotiated sectype =
     Set (\<lambda>nt. nt\<lparr>sc_security_type := Some sectype, sc_in_auth := True\<rparr>)
       (if sectype = 2
        then Want S2C 16 (\<lambda>_. Want C2S 16 (\<lambda>_. scan_result negotiated sectype))
        else if sectype = 30
        then Want S2C 4 (\<lambda>head.
               let key_len = u16_at 2 head
               in Want S2C key_len (\<lambda>_. Want S2C key_len (\<lambda>_.
                    Want C2S ARD_CREDENTIALS_LEN (\<lambda>_. Want C2S key_len (\<lambda>_.
                      scan_result negotiated sectype)))))
        else if sectype \<noteq> 1 \<and> sectype \<noteq> 0
        then Set (\<lambda>nt. give_up (UnfollowedSecurity (auth_label sectype))
                         (nt\<lparr>sc_unstrippable_auth := Some (auth_label sectype)\<rparr>)) Finish
        else scan_result negotiated sectype)"

definition scan_types :: "int \<times> int \<Rightarrow> scan" where
  "scan_types negotiated =
     (if negotiated \<ge> (3, 7)
      then Want S2C 1 (\<lambda>num_types_b.
             let num_types = unat (num_types_b ! 0)
             in if num_types = 0 then Finish
                else Set (record_as []) (Want S2C num_types (\<lambda>types_b.
                       Set (\<lambda>nt. record_as [1, 1] (nt\<lparr>sc_security_types := map unat types_b\<rparr>))
                         (Want C2S 1 (\<lambda>sectype_b.
                            Set (record_as [1]) (scan_auth negotiated (unat (sectype_b ! 0))))))))
      else Want S2C 4 (\<lambda>auth_b.
             let sectype = be_val auth_b
             in if sectype = 0 then Finish
                else Set (\<lambda>nt. (record_as (be_bytes 4 1) nt)\<lparr>sc_security_types := [sectype]\<rparr>)
                       (scan_auth negotiated sectype)))"

definition scan_run :: scan where
  "scan_run =
     Want S2C 12 (\<lambda>server_head.
       Set (\<lambda>nt. nt\<lparr>sc_protocol_version := Some (decode_ascii_line server_head)\<rparr>)
         (Want C2S 12 (\<lambda>client_head.
            case (py_int (pslice 4 7 client_head), py_int (pslice 8 11 client_head)) of
              (Some major, Some minor) \<Rightarrow>
                Set (\<lambda>nt. nt\<lparr>sc_negotiated_version := Some (major, minor)\<rparr>) (scan_types (major, minor))
            | _ \<Rightarrow> Set (give_up (UnreadableVersion client_head)) Finish)))"

section \<open>The scrubber\<close>

definition scrubber_init :: "bool \<Rightarrow> scrubber" where
  "scrubber_init preserve_auth =
     \<lparr>sb_notes = \<lparr>sc_preserve_auth = preserve_auth, sc_protocol_version = None,
        sc_negotiated_version = None, sc_security_types = [], sc_security_type = None,
        sc_unstrippable_auth = None, sc_abort_reason = None, sc_width = None, sc_height = None,
        sc_recording = None, sc_in_auth = False\<rparr>,
      sb_scan = scan_run, sb_s2c_pending = [], sb_c2s_pending = []\<rparr>"

definition pending :: "tap \<Rightarrow> scrubber \<Rightarrow> bytes" where
  "pending t s = (case t of S2C \<Rightarrow> sb_s2c_pending s | C2S \<Rightarrow> sb_c2s_pending s)"

definition set_pending :: "tap \<Rightarrow> bytes \<Rightarrow> scrubber \<Rightarrow> scrubber" where
  "set_pending t bs s =
     (case t of S2C \<Rightarrow> s\<lparr>sb_s2c_pending := bs\<rparr> | C2S \<Rightarrow> s\<lparr>sb_c2s_pending := bs\<rparr>)"

definition waiting :: "scrubber \<Rightarrow> (tap \<times> nat) option" where
  "waiting s = (case sb_scan s of Want t n k \<Rightarrow> Some (t, n) | _ \<Rightarrow> None)"

definition waiting_on :: "tap \<Rightarrow> scan \<Rightarrow> bool" where
  "waiting_on t g = (case g of Want u n k \<Rightarrow> u = t | _ \<Rightarrow> False)"

text \<open>What the last chunk records: \<open>chunk\<close> itself, what a step said, or the default.\<close>

definition recorded :: "scrub_notes \<Rightarrow> bytes \<Rightarrow> bytes \<Rightarrow> bytes" where
  "recorded nt chunk dflt =
     (if sc_preserve_auth nt then chunk
      else (case sc_recording nt of None \<Rightarrow> dflt | Some d \<Rightarrow> d))"

text \<open>
  The loop of \<open>_feed\<close> together with \<open>_advance\<close>: the generator runs from the chunk it was sent to the
  next thing it wants; there the chunk before is recorded, and the next chunk is cut off if it is all
  there.  \<open>_recording\<close> is dropped once it has been read; the source leaves it and resets it before the
  next step.
\<close>

primrec drain :: "tap \<Rightarrow> scan \<Rightarrow> scrub_notes \<Rightarrow> bytes \<Rightarrow> bytes \<Rightarrow> bytes \<Rightarrow> bytes \<times> scan \<times> scrub_notes \<times> bytes" where
  "drain t Finish nt buf chunk dflt =
     (recorded nt chunk dflt, Finish, nt\<lparr>sc_recording := None\<rparr>, buf)"
| "drain t (Set f g) nt buf chunk dflt = drain t g (f nt) buf chunk dflt"
| "drain t (Want u n k) nt buf chunk dflt =
     (if u = t \<and> n \<le> length buf
      then (let next_chunk = take n buf;
                fail_closed = (if sc_in_auth nt \<and> \<not> sc_preserve_auth nt then [] else next_chunk);
                (out, rest) = drain t (k next_chunk) (nt\<lparr>sc_recording := None\<rparr>) (drop n buf)
                                next_chunk fail_closed
            in (recorded nt chunk dflt @ out, rest))
      else (recorded nt chunk dflt, Want u n k, nt\<lparr>sc_recording := None\<rparr>, buf))"

definition scrub_feed :: "tap \<Rightarrow> bytes \<Rightarrow> scrubber \<Rightarrow> bytes \<times> scrubber" where
  "scrub_feed t d s =
     (if d = [] then ([], s)
      else
        (let buf = pending t s @ d
         in if \<not> waiting_on t (sb_scan s) then (buf, set_pending t [] s)
            else
              (case drain t (sb_scan s) (sb_notes s) buf [] [] of
                 (out, g, nt, kept) \<Rightarrow>
                   (if kept \<noteq> [] \<and> \<not> waiting_on t g
                    then (out @ kept, set_pending t [] (s\<lparr>sb_notes := nt, sb_scan := g\<rparr>))
                    else (out, set_pending t kept (s\<lparr>sb_notes := nt, sb_scan := g\<rparr>))))))"

definition scrub_flush :: "tap \<Rightarrow> scrubber \<Rightarrow> bytes \<times> scrubber" where
  "scrub_flush t s =
     (let mid_rewrite = (waiting s \<noteq> None \<and> \<not> sc_preserve_auth (sb_notes s));
          out = (if mid_rewrite \<and> pending t s \<noteq> [] then [] else pending t s)
      in (out, set_pending t [] s))"

section \<open>The capture writer\<close>

record capture_writer =
  cw_server :: string
  cw_scrubber :: scrubber
  cw_s2c :: bytes
  cw_c2s :: bytes
  cw_encodings_seen :: "(int \<times> nat) list"
  cw_timestamp :: string

definition writer_init :: "string \<Rightarrow> scrubber \<Rightarrow> string \<Rightarrow> capture_writer" where
  "writer_init server s timestamp =
     \<lparr>cw_server = server, cw_scrubber = s, cw_s2c = [], cw_c2s = [], cw_encodings_seen = [],
      cw_timestamp = timestamp\<rparr>"

definition append_to :: "tap \<Rightarrow> bytes \<Rightarrow> capture_writer \<Rightarrow> capture_writer" where
  "append_to t out w = (case t of S2C \<Rightarrow> w\<lparr>cw_s2c := cw_s2c w @ out\<rparr> | C2S \<Rightarrow> w\<lparr>cw_c2s := cw_c2s w @ out\<rparr>)"

text \<open>\<open>feed_s2c\<close> and \<open>feed_c2s\<close>.\<close>

definition feed_tap :: "tap \<Rightarrow> bytes \<Rightarrow> capture_writer \<Rightarrow> capture_writer" where
  "feed_tap t d w =
     (case scrub_feed t d (cw_scrubber w) of (out, s) \<Rightarrow> append_to t out (w\<lparr>cw_scrubber := s\<rparr>))"

definition writer_flush :: "capture_writer \<Rightarrow> capture_writer" where
  "writer_flush w =
     (case scrub_flush S2C (cw_scrubber w) of (out1, s1) \<Rightarrow>
        (case scrub_flush C2S s1 of (out2, s2) \<Rightarrow>
           append_to C2S out2 (append_to S2C out1 (w\<lparr>cw_scrubber := s2\<rparr>))))"

definition note_encoding :: "int \<Rightarrow> capture_writer \<Rightarrow> capture_writer" where
  "note_encoding encoding w =
     w\<lparr>cw_encodings_seen := AList.update encoding
        ((case map_of (cw_encodings_seen w) encoding of None \<Rightarrow> 0 | Some n \<Rightarrow> n) + 1) (cw_encodings_seen w)\<rparr>"

text \<open>The rows of \<open>encodings_list\<close>: encoding, name if it has one, rectangles.\<close>

definition encodings_list :: "capture_writer \<Rightarrow> (int \<times> string option \<times> nat) list" where
  "encodings_list w =
     map (\<lambda>encoding. (encoding,
            (case encoding_lookup encoding of Member n v \<Rightarrow> Some (lower_dashes n) | Unknown v \<Rightarrow> None),
            the (map_of (cw_encodings_seen w) encoding)))
       (sort (map fst (cw_encodings_seen w)))"

record capture_meta =
  meta_server :: string
  meta_version :: string
  meta_timestamp :: string
  meta_protocol_version :: "nat list option"
  meta_negotiated_version :: "(int \<times> int) option"
  meta_security_types :: "nat list"
  meta_security_type :: "nat option"
  meta_auth :: string
  meta_encodings_seen :: "(int \<times> string option \<times> nat) list"
  meta_geometry :: "(nat \<times> nat) option"

definition capture_meta_of :: "string \<Rightarrow> capture_writer \<Rightarrow> capture_meta" where
  "capture_meta_of vncdotool_version w =
     (let nt = sb_notes (cw_scrubber w)
      in \<lparr>meta_server = cw_server w, meta_version = vncdotool_version, meta_timestamp = cw_timestamp w,
          meta_protocol_version = sc_protocol_version nt,
          meta_negotiated_version = sc_negotiated_version nt,
          meta_security_types = sc_security_types nt, meta_security_type = sc_security_type nt,
          meta_auth = (if sc_preserve_auth nt then ''preserved'' else ''stripped''),
          meta_encodings_seen = encodings_list w,
          meta_geometry = (case (sc_width nt, sc_height nt) of
             (Some width, Some height) \<Rightarrow> Some (width, height) | _ \<Rightarrow> None)\<rparr>)"

text \<open>\<open>check_capture_target\<close>, with what the file system says as arguments.\<close>

datatype target_error = NotZip | AlreadyExists | NoDirectory

definition ends_with :: "string \<Rightarrow> string \<Rightarrow> bool" where
  "ends_with suffix s \<longleftrightarrow> length suffix \<le> length s \<and> drop (length s - length suffix) s = suffix"

definition check_capture_target :: "(string \<Rightarrow> bool) \<Rightarrow> (string \<Rightarrow> bool) \<Rightarrow> string \<Rightarrow> target_error option" where
  "check_capture_target exists parent_is_dir path =
     (if \<not> ends_with ''.zip'' path then Some NotZip
      else if exists path then Some AlreadyExists
      else if \<not> parent_is_dir path then Some NoDirectory
      else None)"

section \<open>The pieces of a direction do not matter\<close>

definition scrub_inv :: "scrubber \<Rightarrow> bool" where
  "scrub_inv s \<longleftrightarrow> sc_recording (sb_notes s) = None \<and> (\<forall>f g. sb_scan s \<noteq> Set f g)"

lemma recorded_nothing [simp]: "sc_recording nt = None \<Longrightarrow> recorded nt [] [] = []"
  by (simp add: recorded_def)

lemma drain_stops:
  "drain t g nt buf chunk dflt = (out, g', nt', kept) \<Longrightarrow>
     sc_recording nt' = None \<and> (\<forall>f h. g' \<noteq> Set f h)"
proof (induction g arbitrary: nt buf chunk dflt out)
  case (Want u n k)
  show ?case
  proof (cases "u = t \<and> n \<le> length buf")
    case True
    with Want.prems obtain fc out0 where
      "drain t (k (take n buf)) (nt\<lparr>sc_recording := None\<rparr>) (drop n buf) (take n buf) fc = (out0, g', nt', kept)"
      by (auto simp: Let_def split: prod.splits)
    then show ?thesis by (rule Want.IH [OF rangeI])
  next
    case False
    with Want.prems show ?thesis by (auto simp: Let_def)
  qed
qed auto

lemma drain_append:
  "drain t g nt (buf @ d) chunk dflt =
     (case drain t g nt buf chunk dflt of (out, g', nt', kept) \<Rightarrow>
        (case drain t g' nt' (kept @ d) [] [] of (out2, rest) \<Rightarrow> (out @ out2, rest)))"
proof (induction g arbitrary: nt buf chunk dflt)
  case Finish
  then show ?case by simp
next
  case (Set f g)
  then show ?case by simp
next
  case (Want u n k)
  show ?case
  proof (cases "u = t \<and> n \<le> length buf")
    case True
    then show ?thesis
      using Want.IH [OF rangeI, of "take n buf" "nt\<lparr>sc_recording := None\<rparr>" "drop n buf"]
      by (simp add: Let_def split: prod.splits)
  next
    case False
    then show ?thesis by (auto simp: Let_def recorded_def split: prod.splits)
  qed
qed

lemma drain_not_waiting:
  "\<not> waiting_on t g \<Longrightarrow> (\<forall>f h. g \<noteq> Set f h) \<Longrightarrow> sc_recording nt = None \<Longrightarrow>
     drain t g nt buf [] [] = ([], g, nt, buf)"
  by (cases g) (auto simp: waiting_on_def)

lemma pending_set [simp]: "pending t (set_pending t bs s) = bs"
  by (cases t) (simp_all add: pending_def set_pending_def)

lemma set_pending_same [simp]:
  "set_pending t a (set_pending t b s) = set_pending t a s"
  "sb_scan (set_pending t a s) = sb_scan s" "sb_notes (set_pending t a s) = sb_notes s"
  by (cases t; simp add: set_pending_def)+

lemma set_pending_scan:
  "(set_pending t b s)\<lparr>sb_notes := nt, sb_scan := g\<rparr> = set_pending t b (s\<lparr>sb_notes := nt, sb_scan := g\<rparr>)"
  by (cases t) (simp_all add: set_pending_def)

lemma scrub_feed_nil: "scrub_feed t [] s = ([], s)"
  by (simp add: scrub_feed_def)

lemma scrub_feed_inv: "scrub_inv s \<Longrightarrow> scrub_feed t d s = (out, s') \<Longrightarrow> scrub_inv s'"
  by (auto simp: scrub_feed_def scrub_inv_def Let_def dest: drain_stops split: if_splits prod.splits)

lemma scrub_feed_append:
  assumes "scrub_inv s"
  shows "scrub_feed t (d1 @ d2) s =
    (let (out1, s1) = scrub_feed t d1 s; (out2, s2) = scrub_feed t d2 s1 in (out1 @ out2, s2))"
proof (cases "d1 = [] \<or> d2 = []")
  case True
  then show ?thesis by (auto simp: scrub_feed_nil split: prod.splits)
next
  case False
  then have ne: "d1 \<noteq> []" "d2 \<noteq> []" by simp_all
  show ?thesis
  proof (cases "waiting_on t (sb_scan s)")
    case False
    with ne show ?thesis by (simp add: scrub_feed_def)
  next
    case True
    obtain out g nt kept where d: "drain t (sb_scan s) (sb_notes s) (pending t s @ d1) [] [] = (out, g, nt, kept)"
      by (cases "drain t (sb_scan s) (sb_notes s) (pending t s @ d1) [] []") auto
    note stop = drain_stops [OF d]
    obtain out2 g2 nt2 kept2 where d2: "drain t g nt (kept @ d2) [] [] = (out2, g2, nt2, kept2)"
      by (cases "drain t g nt (kept @ d2) [] []") auto
    have both: "drain t (sb_scan s) (sb_notes s) (pending t s @ d1 @ d2) [] [] = (out @ out2, g2, nt2, kept2)"
      using drain_append [of t "sb_scan s" "sb_notes s" "pending t s @ d1" d2 "[]" "[]"] d d2 by simp
    show ?thesis
    proof (cases "waiting_on t g")
      case waits: True
      then show ?thesis
        using ne True d both d2 by (simp add: scrub_feed_def set_pending_scan Let_def)
    next
      case gone: False
      then have "(out2, g2, nt2, kept2) = ([], g, nt, kept @ d2)"
        using drain_not_waiting [of t g nt "kept @ d2"] stop d2 by simp
      then show ?thesis
        using ne True d both gone by (simp add: scrub_feed_def set_pending_scan Let_def)
    qed
  qed
qed

interpretation scrub: stream_machine "scrub_feed t" scrub_inv for t
  by unfold_locales (rule scrub_feed_nil, erule scrub_feed_append, erule (1) scrub_feed_inv)

end
