(* ===== verification/Handshake.thy ===== *)
theory Handshake
  imports Updates
begin

text \<open>
  The handshake: which version is agreed on, a whole VNC Authentication exchange from the first byte
  to the callback of a connected client, what an abort leaves behind, and the refusal that makes
  \<open>dataReceived\<close> loop for ever.
\<close>

section \<open>The greeting\<close>

lemma negotiate_eq:
  "negotiate s = (if s < (3, 3) then Inl ValueError
     else Inr (if (3, 8) \<le> s then (3, 8) else if (3, 7) \<le> s then (3, 7) else (3, 3)))"
proof (cases s)
  case (Pair M m)
  show ?thesis
  proof (cases "(3, 8) \<le> s")
    case True
    let ?vs = "filter (\<lambda>v. v \<le> s) SUPPORTED_SERVER_VERSIONS"
    have mem: "(3, 8) \<in> set ?vs" using True by (simp add: SUPPORTED_SERVER_VERSIONS_def)
    then have "(3, 8) \<le> Max (set ?vs)" by (intro Max_ge) simp_all
    then have "(if Max (set ?vs) > MAX_CLIENT_VERSION then MAX_CLIENT_VERSION else Max (set ?vs)) = (3, 8)"
      by (simp add: MAX_CLIENT_VERSION_def)
    moreover have "?vs \<noteq> []" using mem by (metis empty_iff empty_set)
    moreover have "\<not> s < (3, 3)" using True Pair by (auto simp: less_prod_simp less_eq_prod_simp)
    moreover have "negotiate s = Inr (if Max (set ?vs) > MAX_CLIENT_VERSION then MAX_CLIENT_VERSION
        else Max (set ?vs))" if "?vs \<noteq> []"
      using that unfolding negotiate_def Let_def by (cases ?vs) (simp, simp only: list.case)
    ultimately show ?thesis using True by simp
  next
    case False
    then show ?thesis
      using Pair by (auto simp: negotiate_def SUPPORTED_SERVER_VERSIONS_def MAX_CLIENT_VERSION_def
          less_prod_simp less_eq_prod_simp max_def)
  qed
qed

lemma unat_digit [simp]: "d < 10 \<Longrightarrow> unat (48 + word_of_nat d :: byte) = 48 + d"
  using unat_byte_of_nat [of "48 + d"] by simp

lemma is_digit_nat [simp]: "d < 10 \<Longrightarrow> is_digit (48 + word_of_nat d)"
  by (simp add: is_digit_def word_le_nat_alt)

lemma three_digits: "n < 1000 \<Longrightarrow> n div 100 < 10 \<and> n div 10 mod 10 < 10 \<and> n mod 10 < 10" for n :: nat
  by (simp add: less_mult_imp_div_less)

lemma digits_dec3: "n < 1000 \<Longrightarrow> digits_val (dec3 n) = n"
proof -
  assume n: "n < 1000"
  have "n div 100 = n div 10 div 10" by (simp flip: div_mult2_eq)
  moreover have "10 * (n div 10 div 10) + n div 10 mod 10 = n div 10" "10 * (n div 10) + n mod 10 = n"
    by (rule mult_div_mod_eq)+
  moreover have "digits_val (dec3 n) = 10 * (10 * (n div 100) + n div 10 mod 10) + n mod 10"
    using three_digits [OF n] by (simp add: digits_val_def dec3_def)
  ultimately show ?thesis by simp
qed

lemma header_dec3: "n < 1000 \<Longrightarrow> header_translate (dec3 n) = [48, 48, 48]"
  using three_digits [of n] by (simp add: header_translate_def dec3_def)

lemma length_dec3 [simp]: "length (dec3 n) = 3"
  by (simp add: dec3_def)

lemma greeting_header: "fst v < 1000 \<Longrightarrow> snd v < 1000 \<Longrightarrow> header_translate (greeting v) = HEADER"
  using header_dec3 [of "fst v"] header_dec3 [of "snd v"]
  by (simp add: greeting_def header_translate_def HEADER_def is_digit_def)

lemma greeting_fields:
  "pslice 4 7 (greeting v) = dec3 (fst v)" "pslice 8 11 (greeting v) = dec3 (snd v)" "length (greeting v) = 12"
  by (simp_all add: greeting_def pslice_def dec3_def)

lemma handleInitial_greeting:
  assumes "fst v < 1000" "snd v < 1000" "cn_packet cn = greeting v @ rest"
  shows "handleInitial hk cn =
    (case negotiate v of
       Inl e \<Rightarrow> Inl e
     | Inr version \<Rightarrow>
         (let cn1 = with_client (\<lambda>c. transport_write (greeting version)
                      (c\<lparr>st_version := version, st_version_server := v\<rparr>))
                      (cn\<lparr>cn_packet := rest, cn_greeted := True\<rparr>)
          in Inr (if version < (3, 7) then expect HandleAuth 4 cn1 else expect HandleNumberSecurityTypes 1 cn1)))"
proof -
  have head: "take 12 (cn_packet cn) = greeting v" "drop 12 (cn_packet cn) = rest"
    using assms(3) greeting_fields(3) [of v] by simp_all
  have fields: "(digits_val (pslice 4 7 (greeting v)), digits_val (pslice 8 11 (greeting v))) = v"
    using digits_dec3 [OF assms(1)] digits_dec3 [OF assms(2)] by (simp add: greeting_fields)
  show ?thesis
    unfolding handleInitial_def head Let_def greeting_header [OF assms(1,2)] fields by simp
qed

text \<open>
  C24: version negotiation. To a server that greets with any version of three digits each from 3.3 on,
  the client answers with the greatest of 3.3, 3.7 and 3.8 that the server's version reaches, and
  from 3.7 on waits for the list of security types; a server below 3.3 makes \<open>max()\<close> of nothing, which
  raises.
\<close>

theorem version_negotiation:
  assumes "fst v < 1000" "snd v < 1000" "cn_packet cn = greeting v @ rest"
  shows "case handleInitial hk cn of
      Inl e \<Rightarrow> e = ValueError \<and> v < (3, 3)
    | Inr cn' \<Rightarrow> cn_packet cn' = rest \<and> cn_greeted cn' \<and>
        (let version = st_version (cn_client cn')
         in version \<in> {(3, 3), (3, 7), (3, 8)} \<and> version \<le> v \<and>
            list_all (\<lambda>u. u \<le> version) (filter (\<lambda>u. u \<le> v) [(3, 3), (3, 7), (3, 8)]) \<and>
            sent (cn_client cn') = sent (cn_client cn) @ greeting version \<and>
            (cn_parked cn', cn_len cn') =
              (if version = (3, 3) then (HandleAuth, 4) else (HandleNumberSecurityTypes, 1)))"
proof (cases "v < (3, 3)")
  case True
  then show ?thesis by (simp add: handleInitial_greeting [OF assms] negotiate_eq)
next
  case False
  then have v: "(3, 3) \<le> v" by simp
  consider "(3, 8) \<le> v" | "\<not> (3, 8) \<le> v" "(3, 7) \<le> v" | "\<not> (3, 8) \<le> v" "\<not> (3, 7) \<le> v" by blast
  then show ?thesis
    using v False
    by cases (simp_all add: handleInitial_greeting [OF assms] negotiate_eq with_client_def expect_def
      sent_def transport_write_def)
qed

lemma version_negotiation_witness:
  "\<exists>cn'. handleInitial (base_hooks Inr) ((conn_init (rfb_init stored_externals))\<lparr>cn_packet := greeting (3, 889) @ [1]\<rparr>)
     = Inr (cn' :: (unit, unit) client conn) \<and> cn_packet cn' = [1]"
proof -
  let ?cn = "(conn_init (rfb_init stored_externals))\<lparr>cn_packet := greeting (3, 889) @ [1]\<rparr> :: (unit, unit) client conn"
  have "fst (3, 889 :: nat) < (1000 :: nat)" "snd (3 :: nat, 889) < (1000 :: nat)"
    "cn_packet ?cn = greeting (3, 889) @ [1]" by simp_all
  from version_negotiation [OF this, of "base_hooks Inr"]
  show ?thesis
    by (cases "handleInitial (base_hooks Inr) ?cn") auto
qed

section \<open>A VNC Authentication handshake\<close>

text \<open>One turn at a time, for a connection whose buffer starts with the block it waits for.\<close>

lemma go_block:
  assumes "cn_packet cn = block @ bs" "length block = cn_len cn" "\<not> cn_aborted cn"
  shows "go ex hk (Inr cn) = go ex hk (handle ex hk (cn_parked cn) block (cn\<lparr>cn_packet := bs\<rparr>))"
proof -
  have "runs cn" using assms by (simp add: runs_def)
  then show ?thesis using assms by (simp add: go_runs turn_def flip: assms(2))
qed

text \<open>The state after each block, as a client and what is parked.\<close>

abbreviation at :: "('z, 'm) client parked \<Rightarrow> nat \<Rightarrow> bytes \<Rightarrow> ('z, 'm) client \<Rightarrow> ('z, 'm) client conn" where
  "at p n bs c \<equiv> \<lparr>cn_packet = bs, cn_greeted = True, cn_parked = p, cn_len = n, cn_aborted = False,
     cn_tls_pending = False, cn_client = c\<rparr>"

lemma greeting_38:
  "dataReceived ex hk (greeting (3, 8) @ bs) (conn_init c) =
     go ex hk (Inr (at HandleNumberSecurityTypes 1 bs
       (transport_write (greeting (3, 8)) (c\<lparr>st_version := (3, 8), st_version_server := (3, 8)\<rparr>))))"
proof -
  have "handleInitial hk ((conn_init c)\<lparr>cn_tls_pending := False, cn_packet := greeting (3, 8) @ bs\<rparr>)
    = Inr (at HandleNumberSecurityTypes 1 bs
       (transport_write (greeting (3, 8)) (c\<lparr>st_version := (3, 8), st_version_server := (3, 8)\<rparr>)))"
    by (subst handleInitial_greeting [where v = "(3, 8)" and rest = bs])
      (simp_all add: negotiate_eq conn_init_def with_client_def expect_def)
  then show ?thesis by (simp add: dataReceived_def conn_init_def go_def)
qed

lemma types_chosen:
  assumes "types \<noteq> []" "length types < 256" "Max (unat ` set types \<inter> SUPPORTED_AUTHS) = t"
    "unat ` set types \<inter> SUPPORTED_AUTHS \<noteq> {}"
  shows "go ex hk (Inr (at HandleNumberSecurityTypes 1 ([word_of_nat (length types)] @ types @ bs) c)) =
    go ex hk (startSecurity ex hk t (at HandleSecurityTypes (length types) bs (transport_write (be_bytes 1 t) c)))"
proof -
  have "go ex hk (Inr (at HandleNumberSecurityTypes 1 ([word_of_nat (length types)] @ types @ bs) c)) =
      go ex hk (Inr (at HandleSecurityTypes (length types) (types @ bs) c))"
    using assms(1,2)
    by (subst go_block [where block = "[word_of_nat (length types)]" and bs = "types @ bs"])
      (simp_all add: handleNumberSecurityTypes_def expect_def)
  also have "\<dots> = go ex hk (handleSecurityTypes ex hk types (at HandleSecurityTypes (length types) bs c))"
    by (subst go_block [where block = types and bs = bs]) simp_all
  also have "\<dots> = go ex hk (startSecurity ex hk t
      (at HandleSecurityTypes (length types) bs (transport_write (be_bytes 1 t) c)))"
    using assms(3,4) by (simp add: handleSecurityTypes_def Let_def with_client_def)
  finally show ?thesis .
qed

text \<open>What a SecurityResult of success does.\<close>

lemma send_call:
  "send (call_client m g) c = (case m c of Inl e \<Rightarrow> (c, Raised e) | Inr c' \<Rightarrow> send g c')"
  by (simp add: call_client_def split: sum.splits)

lemma security_result_shape:
  obtains k where "security_result hk = Yield 4 k" "k [0, 0, 0, 0] = Return True"
proof -
  have "be_val [0, 0, 0, 0] = 0" by (simp add: be_val_def)
  then show ?thesis using that unfolding security_result_def Let_def by auto
qed

lemma vnc_auth_exchange:
  assumes password: "vncRequestPassword hk = base_request_password ex" "fac_password c = Some pw"
      "vnc_des pw = Inr key"
    and challenge: "length challenge = 16"
  shows "go ex hk (startSecurity ex hk 2 (at p n (challenge @ [0, 0, 0, 0] @ bs) c)) =
    go ex hk (Inr (at HandleServerInit 24 bs
      (transport_write [if fac_shared c then 1 else 0]
        (transport_write (des_ecb ex key challenge) (c\<lparr>st_challenge := challenge\<rparr>)))))"
proof -
  obtain kr where kr: "security_result hk = Yield 4 kr" "kr [0, 0, 0, 0] = Return True"
    by (rule security_result_shape)
  let ?c1 = "transport_write (des_ecb ex key challenge) (c\<lparr>st_challenge := challenge\<rparr>)"
  let ?fin = "\<lambda>b. Return (Proceed b)"
  let ?k1 = "\<lambda>block. yield_from (call_client (\<lambda>c. Inr (c\<lparr>st_challenge := block\<rparr>))
       (call_client (vncRequestPassword hk) (security_result hk))) ?fin"
  let ?k2 = "\<lambda>block. yield_from (kr block) ?fin"
  have "startSecurity ex hk 2 (at p n (challenge @ [0, 0, 0, 0] @ bs) c) =
      Inr (at (PumpSecurity 2 ?k1) 16 (challenge @ [0, 0, 0, 0] @ bs) c)"
    by (simp add: startSecurity_def security_handler_def proceed_def vncauth_handler_def challenged_def
        pump_security_def pump_def expect_def)
  moreover have "go ex hk (Inr (at (PumpSecurity 2 ?k1) 16 (challenge @ [0, 0, 0, 0] @ bs) c)) =
      go ex hk (Inr (at (PumpSecurity 2 ?k2) 4 ([0, 0, 0, 0] @ bs) ?c1))"
    using challenge password
    by (subst go_block [where block = challenge and bs = "[0, 0, 0, 0] @ bs"])
      (simp_all add: kr pump_security_def pump_def send_call base_request_password_def
        sendPassword_def expect_def)
  moreover have "go ex hk (Inr (at (PumpSecurity 2 ?k2) 4 ([0, 0, 0, 0] @ bs) ?c1)) =
      go ex hk (Inr (at HandleServerInit 24 bs (transport_write [if fac_shared c then 1 else 0] ?c1)))"
    by (subst go_block [where block = "[0, 0, 0, 0]" and bs = bs])
      (simp_all add: kr pump_security_def pump_def finishSecurity_def doClientInitialization_def
        with_client_def expect_def transport_write_def)
  ultimately show ?thesis by simp
qed

text \<open>ServerInit and the name.\<close>

lemma initialised:
  assumes "length init_block = 24" "u32_at 20 init_block = length name"
    and made: "vncConnectionMade hk (c\<lparr>st_width := u16_at 0 init_block, st_height := u16_at 2 init_block,
       st_pixfmt := from_bytes (pslice 4 20 init_block), st_name := name\<rparr>) = Inr c'"
  shows "go ex hk (Inr (at HandleServerInit 24 (init_block @ name @ bs) c)) =
    go ex hk (Inr (at HandleConnection 1 bs c'))"
proof -
  let ?c1 = "c\<lparr>st_width := u16_at 0 init_block, st_height := u16_at 2 init_block,
       st_pixfmt := from_bytes (pslice 4 20 init_block)\<rparr>"
  have "go ex hk (Inr (at HandleServerInit 24 (init_block @ name @ bs) c)) =
      go ex hk (Inr (at HandleServerName (length name) (name @ bs) ?c1))"
    using assms(1,2)
    by (subst go_block [where block = init_block and bs = "name @ bs"])
      (simp_all add: handleServerInit_def with_client_def expect_def)
  also have "\<dots> = go ex hk (Inr (at HandleConnection 1 bs c'))"
    using made
    by (subst go_block [where block = name and bs = bs])
      (simp_all add: handleServerName_def with_client_def expect_def callback_def)
  finally show ?thesis .
qed

text \<open>
  C13: a VNC Authentication handshake, from the first byte. A server of version 3.8 that offers VNC
  Authentication and no type the client ranks higher, sends its challenge, accepts the response and
  sends ServerInit leaves the client connected: it has answered with its version, the type, the
  challenge encrypted under the password's key and the shared flag, in this order and nothing else, and
  the callback has seen the size, pixel format and name the server sent.
\<close>

theorem vnc_auth_handshake:
  assumes types: "types \<noteq> []" "length types < 256" "Max (unat ` set types \<inter> SUPPORTED_AUTHS) = 2"
      "unat ` set types \<inter> SUPPORTED_AUTHS \<noteq> {}"
    and password: "vncRequestPassword hk = base_request_password ex" "fac_password c = Some pw"
      "vnc_des pw = Inr key"
    and challenge: "length challenge = 16"
    and server_init: "length init_block = 24" "u32_at 20 init_block = length name"
    and c1: "c1 = c\<lparr>st_version := (3, 8), st_version_server := (3, 8), st_challenge := challenge,
        st_written := st_written c @
          [greeting (3, 8), [2], des_ecb ex key challenge, [if fac_shared c then 1 else 0]],
        st_width := u16_at 0 init_block, st_height := u16_at 2 init_block,
        st_pixfmt := from_bytes (pslice 4 20 init_block), st_name := name\<rparr>"
    and made: "vncConnectionMade hk c1 = Inr c'"
  shows "dataReceived ex hk
     (greeting (3, 8) @ [word_of_nat (length types)] @ types @ challenge @ [0, 0, 0, 0] @ init_block @ name)
     (conn_init c)
   = Some (Inr \<lparr>cn_packet = [], cn_greeted = True, cn_parked = HandleConnection, cn_len = 1,
       cn_aborted = False, cn_tls_pending = False, cn_client = c'\<rparr>)"
proof -
  let ?bs3 = "init_block @ name @ []"
  let ?bs2 = "[0, 0, 0, 0] @ ?bs3"
  let ?ca = "transport_write (be_bytes 1 2) (transport_write (greeting (3, 8))
      (c\<lparr>st_version := (3, 8), st_version_server := (3, 8)\<rparr>))"
  let ?cb = "transport_write (des_ecb ex key challenge) (?ca\<lparr>st_challenge := challenge\<rparr>)"
  let ?cc = "transport_write [if fac_shared c then 1 else 0] ?cb"
  have "dataReceived ex hk
     (greeting (3, 8) @ [word_of_nat (length types)] @ types @ challenge @ [0, 0, 0, 0] @ init_block @ name)
     (conn_init c) = go ex hk (startSecurity ex hk 2 (at HandleSecurityTypes (length types) (challenge @ ?bs2) ?ca))"
    unfolding greeting_38 using types_chosen [OF types] by simp
  also have "\<dots> = go ex hk (Inr (at HandleServerInit 24 ?bs3 ?cc))"
    by (subst vnc_auth_exchange [OF password(1) _ password(3) challenge])
      (simp_all add: password(2) transport_write_def)
  also have "\<dots> = go ex hk (Inr (at HandleConnection 1 [] c'))"
    by (rule initialised [OF server_init]) (use made c1 in \<open>simp add: transport_write_def split del: if_split\<close>)
  also have "\<dots> = Some (Inr (at HandleConnection 1 [] c'))"
    by (simp add: go_def handleExpected.simps runs_def)
  finally show ?thesis .
qed

lemma vnc_auth_handshake_witness:
  "\<exists>cn :: (unit, unit) client conn.
     dataReceived stored_externals (base_hooks (base_request_password stored_externals))
       (greeting (3, 8) @ [2] @ [1, 2] @ replicate 16 7 @ [0, 0, 0, 0] @ replicate 24 0 @ [])
       (conn_init ((rfb_init stored_externals)\<lparr>fac_password := Some []\<rparr>)) = Some (Inr cn) \<and>
     cn_parked cn = HandleConnection"
proof -
  let ?ex = stored_externals
  let ?hk = "base_hooks (base_request_password ?ex) :: (unit, unit) client hooks"
  let ?c = "(rfb_init ?ex)\<lparr>fac_password := Some []\<rparr>"
  let ?types = "[1, 2] :: bytes"
  let ?init = "replicate 24 0 :: bytes"
  have common: "unat ` set ?types \<inter> SUPPORTED_AUTHS = {1, 2}" by (auto simp: SUPPORTED_AUTHS_def)
  obtain key where key: "vnc_des [] = Inr key" using vnc_des_eq [of "[]"] by simp
  have name: "u32_at 20 ?init = length ([] :: bytes)"
    by (simp add: pslice_def be_val_def numeral_eq_Suc)
  have made: "vncConnectionMade ?hk c = Inr c" for c by (simp add: base_hooks_def)
  have "vncRequestPassword ?hk = base_request_password ?ex" by (simp add: base_hooks_def)
  note exchange = vnc_auth_handshake [where types = ?types and init_block = ?init and name = "[]" and c = ?c
      and challenge = "replicate 16 7", OF _ _ _ _ this _ key _ _ name refl made]
  have "\<exists>cn. dataReceived ?ex ?hk
       (greeting (3, 8) @ [word_of_nat (length ?types)] @ ?types @ replicate 16 7 @ [0, 0, 0, 0] @ ?init @ [])
       (conn_init ?c) = Some (Inr cn) \<and> cn_parked cn = HandleConnection"
    by (rule exI, rule conjI, rule exchange) (simp_all only: common, simp_all)
  then show ?thesis by simp
qed

section \<open>After an abort\<close>

text \<open>
  C25: an abort is final. Whatever made the engine give a connection up, the receive buffer is empty
  afterwards, the transport has been told to close, and no later delivery changes anything, so no byte
  is parsed or written any more.
\<close>

theorem abort_is_final:
  "case abortConnection hk reason cn of
     Inl e \<Rightarrow> vncProtocolError hk reason (cn_client cn) = Inl e
   | Inr cn' \<Rightarrow> cn_aborted cn' \<and> cn_packet cn' = [] \<and> st_lost (cn_client cn') \<and>
       deliver ex hk ds cn' = Some (Inr cn')"
proof -
  have "deliver ex hk ds cn' = Some (Inr cn')" if "cn_aborted cn'" for cn'
    using that by (induction ds) (simp_all add: dataReceived_def)
  then show ?thesis
    by (auto simp: abortConnection_def callback_def with_client_def lose_connection_def split: sum.splits)
qed

section \<open>A refusal that never returns\<close>

text \<open>
  A turn that changes nothing is a loop without end, which the \<open>partial_function\<close> gives the value None.
\<close>

lemma stuck_never_returns:
  assumes "runs cn0" "turn ex0 hk0 cn0 = Inr cn0"
  shows "handleExpected ex0 hk0 cn0 = None"
proof -
  have "handleExpected ex hk cn = Some r \<Longrightarrow> \<not> (ex = ex0 \<and> hk = hk0 \<and> cn = cn0)" for ex hk cn r
    by (erule handleExpected.raw_induct [rotated]) (use assms in \<open>fastforce split: if_splits\<close>)
  then show ?thesis by (cases "handleExpected ex0 hk0 cn0") auto
qed

lemma send_yield_from:
  "send g c = (c', Wants n k) \<Longrightarrow> send (yield_from g f) c = (c', Wants n (\<lambda>b. yield_from (k b) f))"
  by (induction g arbitrary: c) auto

lemma refused_shape:
  assumes "st_version c = (3, 8)"
  obtains k1 k2 k3 where "security_result hk = Yield 4 k1" "send (k1 [0, 0, 0, 1]) c = (c, Wants 4 k2)"
      "k2 [0, 0, 0, 0] = Yield 0 k3" "k3 [] = call_client (vncAuthFailed hk []) (lose (Return False))"
proof -
  have "be_val [0, 0, 0, 1] = 1" "be_val [0, 0, 0, 0] = 0" by (simp_all add: be_val_def)
  then show ?thesis
    using that assms unfolding security_result_def Let_def by (auto simp: requirePayload_def)
qed

text \<open>
  C12: a refusal that hangs the client. A 3.8 server that offers only the None type and then fails the
  authentication with an empty reason makes \<open>dataReceived\<close> run for ever: the reason's zero bytes are
  always there, and the pump keeps sending the exhausted generator its empty block.
\<close>

theorem empty_reason_never_returns:
  fixes c :: "('z, 'm) client"
  assumes "vncAuthFailed hk [] (transport_write [1] (transport_write (greeting (3, 8))
      (c\<lparr>st_version := (3, 8), st_version_server := (3, 8)\<rparr>))) = Inr c'"
  shows "dataReceived ex hk (greeting (3, 8) @ [1] @ [1] @ [0, 0, 0, 1] @ [0, 0, 0, 0]) (conn_init c) = None"
proof -
  let ?c0 = "transport_write (be_bytes 1 1) (transport_write (greeting (3, 8))
      (c\<lparr>st_version := (3, 8), st_version_server := (3, 8)\<rparr>))"
  let ?fin = "\<lambda>b. Return (Proceed b) :: (('z, 'm) client, ('z, 'm) client security_outcome) gen"
  obtain k1 k2 k3 where k: "security_result hk = Yield 4 k1" "send (k1 [0, 0, 0, 1]) ?c0 = (?c0, Wants 4 k2)"
      "k2 [0, 0, 0, 0] = Yield 0 k3" "k3 [] = call_client (vncAuthFailed hk []) (lose (Return False))"
    by (rule refused_shape [of ?c0 hk]) (simp add: transport_write_def)
  have sent_: "send (yield_from (k1 [0, 0, 0, 1]) ?fin) ?c0 = (?c0, Wants 4 (\<lambda>b. yield_from (k2 b) ?fin))"
    using k(2) by (rule send_yield_from)
  let ?stuck = "at (PumpSecurity 1 (\<lambda>_. Return (Proceed False))) 0 [] (lose_connection c')"
  have types: "unat ` set [1 :: byte] \<inter> SUPPORTED_AUTHS = {1}" by (auto simp: SUPPORTED_AUTHS_def)
  have "dataReceived ex hk (greeting (3, 8) @ [1] @ [1] @ [0, 0, 0, 1] @ [0, 0, 0, 0]) (conn_init c) =
      go ex hk (startSecurity ex hk 1 (at HandleSecurityTypes 1 ([0, 0, 0, 1] @ [0, 0, 0, 0]) ?c0))"
    unfolding greeting_38
    using types_chosen [of "[1]" 1 ex hk "[0, 0, 0, 1] @ [0, 0, 0, 0]"] types
    by (simp add: SUPPORTED_AUTHS_def)
  also have "\<dots> = go ex hk (Inr (at (PumpSecurity 1 (\<lambda>b. yield_from (k1 b) ?fin)) 4
      ([0, 0, 0, 1] @ [0, 0, 0, 0]) ?c0))"
    by (simp add: startSecurity_def security_handler_def proceed_def none_handler_def k(1)
        pump_security_def pump_def expect_def transport_write_def)
  also have "\<dots> = go ex hk (Inr (at (PumpSecurity 1 (\<lambda>b. yield_from (k2 b) ?fin)) 4 [0, 0, 0, 0] ?c0))"
    using sent_
    by (subst go_block [where block = "[0, 0, 0, 1]" and bs = "[0, 0, 0, 0]"])
      (simp_all add: pump_security_def pump_def expect_def)
  also have "\<dots> = go ex hk (Inr (at (PumpSecurity 1 (\<lambda>b. yield_from (k3 b) ?fin)) 0 [] ?c0))"
    by (subst go_block [where block = "[0, 0, 0, 0]" and bs = "[]"])
      (simp_all add: pump_security_def pump_def expect_def k(3))
  also have "\<dots> = go ex hk (Inr ?stuck)"
    using assms
    by (subst go_block [where block = "[]" and bs = "[]"])
      (simp_all add: pump_security_def pump_def expect_def k(4) lose_def send_call finishSecurity_def)
  also have "\<dots> = None"
    unfolding go_def sum.case
    by (rule stuck_never_returns) (simp_all add: runs_def turn_def pump_security_def pump_def finishSecurity_def)
  finally show ?thesis .
qed

lemma empty_reason_never_returns_witness:
  "dataReceived stored_externals (base_hooks Inr)
     (greeting (3, 8) @ [1] @ [1] @ [0, 0, 0, 1] @ [0, 0, 0, 0])
     (conn_init (rfb_init stored_externals)) = None"
  by (rule empty_reason_never_returns) (simp add: base_hooks_def)

end
