(* ===== verification/Scrubbing.thy ===== *)
theory Scrubbing
  imports Capture Handshake
begin

text \<open>
  What a capture records of a session in which the client authenticates: whole sessions fed through the
  writer in any pieces, and the recording replayed into the client's engine.
\<close>

section \<open>Sessions in pieces\<close>

text \<open>Stretches of one direction at a time, each in the pieces the proxy received.\<close>

definition exchange :: "(tap \<times> bytes list) list \<Rightarrow> capture_writer \<Rightarrow> capture_writer" where
  "exchange segs w = fold (\<lambda>(t, ds). fold (feed_tap t) ds) segs w"

definition joined :: "(tap \<times> bytes list) list \<Rightarrow> (tap \<times> bytes) list" where
  "joined segs = map (\<lambda>(t, ds). (t, concat ds)) segs"

lemma feed_tap_inv [simp]: "scrub_inv (cw_scrubber w) \<Longrightarrow> scrub_inv (cw_scrubber (feed_tap t d w))"
  using scrub_feed_inv [of "cw_scrubber w" t d]
  by (cases t) (auto simp: feed_tap_def append_to_def split: prod.splits)

lemma feed_tap_append:
  "scrub_inv (cw_scrubber w) \<Longrightarrow> feed_tap t (d1 @ d2) w = feed_tap t d2 (feed_tap t d1 w)"
  using scrub_feed_append [of "cw_scrubber w" t d1 d2]
  by (cases t) (simp_all add: feed_tap_def append_to_def split: prod.splits)

lemma feed_tap_nil [simp]: "feed_tap t [] w = w"
  by (cases t) (simp_all add: feed_tap_def append_to_def scrub_feed_nil)

lemma feed_tap_concat:
  "scrub_inv (cw_scrubber w) \<Longrightarrow>
     fold (feed_tap t) ds w = feed_tap t (concat ds) w \<and> scrub_inv (cw_scrubber (fold (feed_tap t) ds w))"
  by (induction ds arbitrary: w) (simp_all add: feed_tap_append feed_tap_inv)

lemma exchange_joined:
  "scrub_inv (cw_scrubber w) \<Longrightarrow>
     exchange segs w = fold (\<lambda>(t, d). feed_tap t d) (joined segs) w"
  by (induction segs arbitrary: w)
    (auto simp: exchange_def joined_def feed_tap_concat split: prod.splits)

lemma scrubber_init_inv [simp]: "scrub_inv (scrubber_init p)"
  by (simp add: scrub_inv_def scrubber_init_def scan_run_def)

text \<open>
  A capture does not depend on how TCP cut the session up: whatever the pieces of each stretch
  of one direction, the two recorded streams and everything the scrubber notes for the capture's
  metadata are the same.
\<close>

theorem capture_pieces_irrelevant:
  assumes "joined segs = joined segs'"
  shows "exchange segs (writer_init server (scrubber_init preserve) ts) =
    exchange segs' (writer_init server (scrubber_init preserve) ts)"
  using assms exchange_joined [of "writer_init server (scrubber_init preserve) ts"]
  by (simp add: writer_init_def)

lemma capture_pieces_irrelevant_witness:
  "exchange [(S2C, [[82], [70, 66]])] (writer_init [] (scrubber_init True) []) =
   exchange [(S2C, [[82, 70], [], [66]])] (writer_init [] (scrubber_init True) [])"
  by (rule capture_pieces_irrelevant) (simp add: joined_def)

section \<open>One stretch at a time\<close>

abbreviation writer_holding ::
  "bytes \<Rightarrow> bytes \<Rightarrow> string \<Rightarrow> string \<Rightarrow> scrub_notes \<Rightarrow> scan \<Rightarrow> bytes \<Rightarrow> bytes \<Rightarrow> capture_writer" where
  "writer_holding p q server ts nt g s2c c2s \<equiv>
     \<lparr>cw_server = server, cw_scrubber = \<lparr>sb_notes = nt, sb_scan = g, sb_s2c_pending = p, sb_c2s_pending = q\<rparr>,
      cw_s2c = s2c, cw_c2s = c2s, cw_encodings_seen = [], cw_timestamp = ts\<rparr>"

abbreviation writer :: "string \<Rightarrow> string \<Rightarrow> scrub_notes \<Rightarrow> scan \<Rightarrow> bytes \<Rightarrow> bytes \<Rightarrow> capture_writer" where
  "writer \<equiv> writer_holding [] []"

lemma feed_writer:
  "d \<noteq> [] \<Longrightarrow> waiting_on t g \<Longrightarrow> feed_tap t d (writer server ts nt g a b) =
    (case drain t g nt d [] [] of (out, g', nt', kept) \<Rightarrow>
       let flushed = (if waiting_on t g' then [] else kept); held = (if waiting_on t g' then kept else [])
       in (case t of S2C \<Rightarrow> writer_holding held [] server ts nt' g' (a @ out @ flushed) b
                   | C2S \<Rightarrow> writer_holding [] held server ts nt' g' a (b @ out @ flushed)))"
  by (cases t) (auto simp: feed_tap_def scrub_feed_def pending_def set_pending_def append_to_def Let_def
      split: prod.splits)

lemma feed_writer_through:
  "\<not> waiting_on t g \<Longrightarrow> feed_tap t d (writer server ts nt g a b) =
    (case t of S2C \<Rightarrow> writer server ts nt g (a @ d) b | C2S \<Rightarrow> writer server ts nt g a (b @ d))"
  by (cases t) (auto simp: feed_tap_def scrub_feed_def pending_def set_pending_def append_to_def)

section \<open>A session whose client authenticates\<close>

text \<open>
  What the two sides exchange after the client's choice of a security type: the challenge and the
  response of VNC Authentication; generator, key length, modulus and key of the server and the
  encrypted credentials and key of an ARD client.
\<close>

definition credential_exchange :: "nat \<Rightarrow> (tap \<times> bytes) list \<Rightarrow> bool" where
  "credential_exchange sectype xs \<longleftrightarrow>
     (sectype = 2 \<and> (\<exists>challenge response. length challenge = 16 \<and> length response = 16 \<and>
        xs = [(S2C, challenge), (C2S, response)])) \<or>
     (sectype = 30 \<and> (\<exists>head modulus server_key credentials client_key.
        length head = 4 \<and> length modulus = u16_at 2 head \<and> length server_key = u16_at 2 head \<and>
        length credentials = 128 \<and> length client_key = u16_at 2 head \<and>
        xs = [(S2C, head @ modulus @ server_key), (C2S, credentials @ client_key)]))"

lemmas session_simps = feed_writer waiting_on_def recorded_def record_as_def Let_def

lemma versions_recorded:
  assumes "length server_head = 12" "length client_head = 12"
    "py_int (pslice 4 7 client_head) = Some major" "py_int (pslice 8 11 client_head) = Some minor"
    "(3, 7) \<le> (major, minor)"
  shows "\<exists>nt. \<not> sc_preserve_auth nt \<and> sc_recording nt = None \<and> \<not> sc_in_auth nt \<and>
    feed_tap C2S client_head (feed_tap S2C server_head (writer_init server (scrubber_init False) ts)) =
      writer server ts nt (scan_types (major, minor)) server_head client_head"
proof -
  have "server_head \<noteq> []" "client_head \<noteq> []" using assms(1,2) by auto
  then show ?thesis
    using assms by (simp add: writer_init_def scrubber_init_def feed_writer scan_run_def waiting_on_def
      recorded_def scan_types_def Let_def)
qed


text \<open>Where the scrubber waits for the SecurityResult.\<close>

abbreviation result_awaited :: "int \<times> int \<Rightarrow> scan" where
  "result_awaited v \<equiv> Want S2C 4 (\<lambda>result_b.
     if be_val result_b \<noteq> 0
     then (if v < (3, 8) then Set (record_as []) Finish else Finish)
     else Set (record_as (if (3, 8) \<le> v then be_bytes 4 0 else [])) scan_init)"

lemma credentials_dropped:
  assumes nt: "\<not> sc_preserve_auth nt" "sc_recording nt = None" "\<not> sc_in_auth nt"
    and types: "types \<noteq> []" "length types < 256"
    and v: "(3, 7) \<le> v" and auth: "credential_exchange sectype xs"
  shows "\<exists>nt'. \<not> sc_preserve_auth nt' \<and> sc_recording nt' = None \<and> \<not> sc_in_auth nt' \<and>
    fold (\<lambda>(t, d). feed_tap t d) xs
      (feed_tap C2S [word_of_nat sectype]
        (feed_tap S2C ([word_of_nat (length types)] @ types) (writer server ts nt (scan_types v) a b)))
    = writer server ts nt' (result_awaited v) (a @ [1, 1]) (b @ [1])"
proof -
  let ?nt = "nt\<lparr>sc_security_types := map unat types, sc_security_type := Some sectype\<rparr>"
  from auth consider (vnc) challenge response where "sectype = 2" "length challenge = 16" "length response = 16"
      "xs = [(S2C, challenge), (C2S, response)]"
    | (ard) head modulus server_key credentials client_key where "sectype = 30" "length head = 4"
      "length modulus = u16_at 2 head" "length server_key = u16_at 2 head" "length credentials = 128"
      "length client_key = u16_at 2 head" "xs = [(S2C, head @ modulus @ server_key), (C2S, credentials @ client_key)]"
    unfolding credential_exchange_def by blast
  then show ?thesis
  proof cases
    case vnc
    then have "challenge \<noteq> []" "response \<noteq> []" by auto
    then show ?thesis
      using vnc nt types v
      by (simp add: session_simps scan_types_def scan_auth_def scan_result_def)
  next
    case ard
    then have "head \<noteq> []" "credentials \<noteq> []" by auto
    then show ?thesis
      using ard nt types v
      by (simp add: session_simps scan_types_def scan_auth_def scan_result_def ARD_CREDENTIALS_LEN_def)
  qed
qed

lemma session_recorded:
  assumes nt: "\<not> sc_preserve_auth nt" "sc_recording nt = None" "\<not> sc_in_auth nt"
    and server_init: "length init_block = 24" "u32_at 20 init_block = length name"
  shows "\<exists>nt'. feed_tap S2C (init_block @ name @ more_s)
      (feed_tap C2S [shared] (feed_tap S2C [0, 0, 0, 0] (writer server ts nt (result_awaited v) a b)))
    = writer server ts nt' Finish (a @ (if (3, 8) \<le> v then [0, 0, 0, 0] else []) @ init_block @ name @ more_s)
        (b @ [shared])"
proof -
  have "init_block \<noteq> []" "be_val [0, 0, 0, 0] = 0" "be_bytes 4 0 = ([0, 0, 0, 0] :: bytes)"
    using server_init by (auto simp: be_val_def be_bytes_numeral)
  then show ?thesis
    using nt server_init
    by (auto simp: session_simps scan_init_def)
qed


lemma plan_recorded:
  assumes version: "length server_head = 12" "length client_head = 12"
      "py_int (pslice 4 7 client_head) = Some major" "py_int (pslice 8 11 client_head) = Some minor"
      "(3, 7) \<le> (major, minor)"
    and types: "types \<noteq> []" "length types < 256"
    and auth: "credential_exchange sectype xs"
    and server_init: "length init_block = 24" "u32_at 20 init_block = length name"
    and segs: "joined segs = [(S2C, server_head), (C2S, client_head),
        (S2C, [word_of_nat (length types)] @ types), (C2S, [word_of_nat sectype])] @ xs @
        [(S2C, [0, 0, 0, 0]), (C2S, [shared]), (S2C, init_block @ name @ more_s), (C2S, more_c)]"
    and w: "w = exchange segs (writer_init server (scrubber_init False) ts)"
  shows "cw_s2c w = server_head @ [1, 1] @ (if (3, 8) \<le> (major, minor) then [0, 0, 0, 0] else []) @
      init_block @ name @ more_s"
    "cw_c2s w = client_head @ [1] @ [shared] @ more_c"
proof -
  have w: "w = fold (\<lambda>(t, d). feed_tap t d) (joined segs) (writer_init server (scrubber_init False) ts)"
    unfolding w by (rule exchange_joined) (simp add: writer_init_def)
  obtain nt1 where nt1: "\<not> sc_preserve_auth nt1" "sc_recording nt1 = None" "\<not> sc_in_auth nt1"
    and 1: "feed_tap C2S client_head (feed_tap S2C server_head (writer_init server (scrubber_init False) ts)) =
      writer server ts nt1 (scan_types (major, minor)) server_head client_head"
    using versions_recorded [OF version] by blast
  obtain nt2 where nt2: "\<not> sc_preserve_auth nt2" "sc_recording nt2 = None" "\<not> sc_in_auth nt2"
    and 2: "fold (\<lambda>(t, d). feed_tap t d) xs (feed_tap C2S [word_of_nat sectype]
        (feed_tap S2C ([word_of_nat (length types)] @ types)
          (writer server ts nt1 (scan_types (major, minor)) server_head client_head)))
      = writer server ts nt2 (result_awaited (major, minor)) (server_head @ [1, 1]) (client_head @ [1])"
    using credentials_dropped [OF nt1 types version(5) auth] by blast
  obtain nt3 where 3: "feed_tap S2C (init_block @ name @ more_s) (feed_tap C2S [shared] (feed_tap S2C [0, 0, 0, 0]
        (writer server ts nt2 (result_awaited (major, minor)) (server_head @ [1, 1]) (client_head @ [1]))))
      = writer server ts nt3 Finish ((server_head @ [1, 1]) @
          (if (3, 8) \<le> (major, minor) then [0, 0, 0, 0] else []) @ init_block @ name @ more_s)
        ((client_head @ [1]) @ [shared])"
    using session_recorded [OF nt2 server_init] by blast
  have "w = feed_tap C2S more_c (writer server ts nt3 Finish ((server_head @ [1, 1]) @
          (if (3, 8) \<le> (major, minor) then [0, 0, 0, 0] else []) @ init_block @ name @ more_s)
        ((client_head @ [1]) @ [shared]))"
    unfolding w segs
    by (simp only: fold_append fold_simps prod.case comp_def 1 2 3)
  then show "cw_s2c w = server_head @ [1, 1] @ (if (3, 8) \<le> (major, minor) then [0, 0, 0, 0] else []) @
      init_block @ name @ more_s"
    "cw_c2s w = client_head @ [1] @ [shared] @ more_c"
    by (simp_all add: feed_writer_through waiting_on_def)
qed



section \<open>The recording replays\<close>

text \<open>The None type in 3.8, up to the callback of a connected client.\<close>

lemma none_exchange:
  "go ex hk (startSecurity ex hk 1 (at p n ([0, 0, 0, 0] @ bs) c)) =
    go ex hk (Inr (at HandleServerInit 24 bs (transport_write [if fac_shared c then 1 else 0] c)))"
  if "st_version c = (3, 8)"
proof -
  obtain kr where kr: "security_result hk = Yield 4 kr" "kr [0, 0, 0, 0] = Return True"
    by (rule security_result_shape)
  let ?k = "\<lambda>block. yield_from (kr block) (\<lambda>b. Return (Proceed b))"
  have "startSecurity ex hk 1 (at p n ([0, 0, 0, 0] @ bs) c) =
      Inr (at (PumpSecurity 1 ?k) 4 ([0, 0, 0, 0] @ bs) c)"
    using that by (simp add: startSecurity_def security_handler_def proceed_def none_handler_def kr
        pump_security_def pump_def expect_def)
  moreover have "go ex hk (Inr (at (PumpSecurity 1 ?k) 4 ([0, 0, 0, 0] @ bs) c)) =
      go ex hk (Inr (at HandleServerInit 24 bs (transport_write [if fac_shared c then 1 else 0] c)))"
    by (subst go_block [where block = "[0, 0, 0, 0]" and bs = bs])
      (simp_all add: kr pump_security_def pump_def finishSecurity_def doClientInitialization_def
        with_client_def expect_def)
  ultimately show ?thesis by simp
qed




end
