(* ===== verification/Replay.thy ===== *)
theory Replay
  imports Scrubbing Complex_Main
begin

text \<open>
  \<open>vncdotool/replay.py\<close>: a capture served back at a live client. \<open>client_message_length\<close> measures the
  client's messages, \<open>saw_update_request\<close> takes them off the buffer until one asks for the framebuffer,
  and \<open>ReplayProtocol\<close> paces the recorded handshake through the scrubber's public contract.
\<close>

section \<open>Measuring the client's messages\<close>

definition NEED_MORE :: int where "NEED_MORE = - 1"
definition UNKNOWN_MESSAGE :: int where "UNKNOWN_MESSAGE = - 2"

definition client_message_length :: "bytes \<Rightarrow> int" where
  "client_message_length buffer =
     (let kind = unat (buffer ! 0)
      in if kind = 0 then 20
         else if kind = 2
         then (if length buffer < 4 then NEED_MORE else 4 + 4 * int (u16_at 2 buffer))
         else if kind = 3 then 10
         else if kind = 4 then 8
         else if kind = 5 then 6
         else if kind = 6
         then (if length buffer < 8 then NEED_MORE else 8 + int (u32_at 4 buffer))
         else if kind = 255
         then (if length buffer < 2 then NEED_MORE
               else if unat (buffer ! 1) = 0 then 12 else UNKNOWN_MESSAGE)
         else UNKNOWN_MESSAGE)"

lemma message_length_cases:
  "client_message_length buffer = NEED_MORE \<or> client_message_length buffer = UNKNOWN_MESSAGE \<or>
     client_message_length buffer \<ge> 4"
  by (simp add: client_message_length_def Let_def)

text \<open>What is left of the buffer, and whether a request was seen.\<close>

function saw_update_request :: "bytes \<Rightarrow> bytes \<times> bool" where
  "saw_update_request buffer =
     (if buffer = [] then (buffer, False)
      else
        (let n = client_message_length buffer
         in if n = UNKNOWN_MESSAGE then ([], True)
            else if n = NEED_MORE \<or> int (length buffer) < n then (buffer, False)
            else if unat (buffer ! 0) = 3 then (drop (nat n) buffer, True)
            else saw_update_request (drop (nat n) buffer)))"
  by pat_completeness auto
termination
proof (relation "measure length", goal_cases)
  case (2 buffer n)
  then show ?case using message_length_cases [of buffer] by auto
qed simp

lemmas [simp del] = saw_update_request.simps

section \<open>The protocol\<close>

record served_capture =
  cap_s2c :: bytes
  cap_negotiated_version :: "(int \<times> int) option"

record replay_factory =
  rf_capture :: served_capture
  rf_client_timeout :: "real option"
  rf_forever :: bool

record replay =
  rp_buffer :: bytes
  rp_stall :: "nat option"
  rp_pos :: nat
  rp_exhausted :: bool
  rp_awaiting_request :: bool
  rp_served :: bool
  rp_version_checked :: bool
  rp_scrubber :: scrubber
  rp_written :: "bytes list"
  rp_lost :: bool

text \<open>\<open>expect\<close> arms the stall warning; \<open>rp_stall\<close> is the pending call's argument.\<close>

definition replay_expect :: "replay_factory \<Rightarrow> nat \<Rightarrow> replay \<Rightarrow> replay" where
  "replay_expect f n p =
     (case rf_client_timeout f of
        None \<Rightarrow> p
      | Some timeout \<Rightarrow>
          if timeout \<le> 0 \<or> rp_stall p \<noteq> None then p else p\<lparr>rp_stall := Some n\<rparr>)"

definition cancel_stall :: "replay \<Rightarrow> replay" where
  "cancel_stall p = p\<lparr>rp_stall := None\<rparr>"

definition replay_write :: "bytes \<Rightarrow> replay \<Rightarrow> replay" where
  "replay_write bs p = p\<lparr>rp_written := rp_written p @ [bs]\<rparr>"

definition version_mismatch :: "replay_factory \<Rightarrow> replay \<Rightarrow> bool \<times> replay" where
  "version_mismatch f p =
     (if rp_version_checked p \<or> sc_negotiated_version (sb_notes (rp_scrubber p)) = None then (False, p)
      else
        (let p1 = p\<lparr>rp_version_checked := True\<rparr>; archived = cap_negotiated_version (rf_capture f)
         in if archived = None \<or> archived = sc_negotiated_version (sb_notes (rp_scrubber p)) then (False, p1)
            else (True, p1\<lparr>rp_lost := True, rp_exhausted := True\<rparr>)))"

definition serve_session :: "replay_factory \<Rightarrow> replay \<Rightarrow> replay" where
  "serve_session f p =
     (let s2c = cap_s2c (rf_capture f);
          handshake_done = (waiting (rp_scrubber p) = None);
          p1 = (if \<not> rp_awaiting_request p \<and> handshake_done \<and> sc_width (sb_notes (rp_scrubber p)) \<noteq> None
                then p\<lparr>rp_awaiting_request := True\<rparr> else p);
          (buffer, seen) = (if rp_awaiting_request p1 then saw_update_request (rp_buffer p1)
                            else (rp_buffer p1, True));
          p2 = p1\<lparr>rp_buffer := buffer\<rparr>
      in if rp_awaiting_request p1 \<and> \<not> seen then replay_expect f 10 p2
         else
           (let remainder = drop (rp_pos p2) s2c;
                p3 = (if remainder \<noteq> [] then (replay_write remainder p2)\<lparr>rp_pos := length s2c\<rparr> else p2)
            in p3\<lparr>rp_exhausted := True\<rparr>))"

text \<open>
  One round of the loop of \<open>advance\<close>: None where it breaks off into \<open>_serve_session\<close>, and whether the
  method returns otherwise.
\<close>

definition advance_round :: "replay_factory \<Rightarrow> replay \<Rightarrow> (bool \<times> replay) option" where
  "advance_round f p =
     (case waiting (rp_scrubber p) of
        None \<Rightarrow> None
      | Some (S2C, n) \<Rightarrow>
          (let chunk = pslice (rp_pos p) (rp_pos p + n) (cap_s2c (rf_capture f))
           in if length chunk < n then None
              else Some (False, (replay_write chunk p)\<lparr>rp_pos := rp_pos p + n,
                     rp_scrubber := snd (scrub_feed S2C chunk (rp_scrubber p))\<rparr>))
      | Some (C2S, n) \<Rightarrow>
          (if length (rp_buffer p) < n then Some (True, replay_expect f n p)
           else
             (let chunk = take n (rp_buffer p)
              in Some (version_mismatch f (p\<lparr>rp_buffer := drop n (rp_buffer p),
                   rp_scrubber := snd (scrub_feed C2S chunk (rp_scrubber p))\<rparr>)))))"

partial_function (option) advance_loop :: "replay_factory \<Rightarrow> replay \<Rightarrow> replay option" where
  "advance_loop f p =
     (case advance_round f p of
        None \<Rightarrow> Some (serve_session f p)
      | Some (finished, p') \<Rightarrow> if finished then Some p' else advance_loop f p')"

definition advance :: "replay_factory \<Rightarrow> replay \<Rightarrow> replay option" where
  "advance f p = (if rp_exhausted p then Some p else advance_loop f p)"

definition replay_connectionMade :: "replay_factory \<Rightarrow> replay option" where
  "replay_connectionMade f =
     advance f \<lparr>rp_buffer = [], rp_stall = None, rp_pos = 0, rp_exhausted = False,
       rp_awaiting_request = False, rp_served = False, rp_version_checked = False,
       rp_scrubber = scrubber_init False, rp_written = [], rp_lost = False\<rparr>"

definition replay_dataReceived :: "replay_factory \<Rightarrow> bytes \<Rightarrow> replay \<Rightarrow> replay option" where
  "replay_dataReceived f d p =
     (let p1 = (if d \<noteq> [] then p\<lparr>rp_served := True\<rparr> else p)
      in if rp_exhausted p1 then Some p1
         else advance f (cancel_stall (p1\<lparr>rp_buffer := rp_buffer p1 @ d\<rparr>)))"

text \<open>\<open>_stalled\<close>, and whether \<open>connectionLost\<close> stops the reactor.\<close>

definition stalled :: "replay \<Rightarrow> replay" where
  "stalled p = p\<lparr>rp_stall := None\<rparr>"

definition connection_finished :: "replay_factory \<Rightarrow> bool \<Rightarrow> bool \<Rightarrow> bool" where
  "connection_finished f reactor_running served = (served \<and> \<not> rf_forever f \<and> reactor_running)"

definition replay_connectionLost :: "replay_factory \<Rightarrow> bool \<Rightarrow> replay \<Rightarrow> replay \<times> bool" where
  "replay_connectionLost f reactor_running p =
     (cancel_stall p, connection_finished f reactor_running (rp_served p))"

section \<open>The client's messages are measured exactly\<close>

fun is_request :: "client_message \<Rightarrow> bool" where
  "is_request (UpdateRequest inc x y w h) \<longleftrightarrow> True"
| "is_request m \<longleftrightarrow> False"

fun is_fence :: "client_message \<Rightarrow> bool" where
  "is_fence (Fence flags payload) \<longleftrightarrow> True"
| "is_fence m \<longleftrightarrow> False"

lemma length_signed_bytes [simp]: "length (concat (map signed_bytes es)) = 4 * length es"
  by (induction es) simp_all

lemma message_measured:
  assumes "well_formed m" "\<not> is_fence m"
  shows "client_message_length (message_bytes m @ rest) = int (length (message_bytes m)) \<and>
    message_bytes m \<noteq> [] \<and> (unat (message_bytes m ! 0) = 3 \<longleftrightarrow> is_request m)"
proof (cases m)
  case (SetEncodings es)
  have "u16_at 2 ([2, 0] @ be_bytes 2 (length es) @ xs) = length es" for xs
    using SetEncodings assms(1) by (simp add: pslice_def be_val_be_bytes)
  then show ?thesis using SetEncodings by (simp add: client_message_length_def)
next
  case (CutText t)
  have "u32_at 4 ([6, 0, 0, 0] @ be_bytes 4 (length t) @ xs) = length t" for xs
    using CutText assms(1) by (simp add: pslice_def be_val_be_bytes)
  then show ?thesis using CutText by (simp add: client_message_length_def)
qed (use assms in \<open>auto simp: client_message_length_def\<close>)

lemma saw_update_request_message:
  assumes "well_formed m" "\<not> is_fence m"
  shows "saw_update_request (message_bytes m @ rest) =
    (if is_request m then (rest, True) else saw_update_request rest)"
  using message_measured [OF assms, of rest]
  by (subst saw_update_request.simps)
    (auto simp: Let_def UNKNOWN_MESSAGE_def NEED_MORE_def nth_append)

lemma saw_update_request_nil [simp]: "saw_update_request [] = ([], False)"
  by (subst saw_update_request.simps) simp

text \<open>
  the replayed session waits for the framebuffer request and for nothing else. Over any sequence of the
  messages a client operation writes, other than fences, \<open>saw_update_request\<close> takes off exactly the messages
  up to and including the first framebuffer update request, and reports whether there was one.
\<close>

theorem requests_are_found:
  assumes "list_all (\<lambda>m. well_formed m \<and> \<not> is_fence m) ms"
  shows "saw_update_request (concat (map message_bytes ms)) =
    (concat (map message_bytes (drop 1 (dropWhile (\<lambda>m. \<not> is_request m) ms))), list_ex is_request ms)"
  using assms by (induction ms) (auto simp: saw_update_request_message)

lemma requests_are_found_witness:
  "saw_update_request (concat (map message_bytes [KeyEvent True 97, UpdateRequest True 0 0 1 1, CutText [104]])) =
    (message_bytes (CutText [104]), True)"
  by (subst requests_are_found) simp_all

section \<open>The loop ends\<close>

text \<open>
  A scan asks for no bytes at all only on the tap it was last fed, where the scrubber's own loop takes the
  empty chunk at once; so \<open>advance\<close> never feeds an empty chunk, which would change nothing.
\<close>

primrec eager :: "tap option \<Rightarrow> scan \<Rightarrow> bool" where
  "eager u Finish \<longleftrightarrow> True"
| "eager u (Set f g) \<longleftrightarrow> eager u g"
| "eager u (Want t n k) \<longleftrightarrow> (n = 0 \<longrightarrow> u = Some t) \<and> (\<forall>b. length b = n \<longrightarrow> eager (Some t) (k b))"

lemma eager_init: "eager u scan_init"
  by (simp add: scan_init_def Let_def)

lemma eager_result: "eager u (scan_result v sectype)"
  by (simp add: scan_result_def eager_init)

lemma eager_auth: "eager u (scan_auth v sectype)"
  by (simp add: scan_auth_def eager_result Let_def ARD_CREDENTIALS_LEN_def)

lemma eager_run: "eager u scan_run"
proof -
  have "eager w (scan_types v)" for w v
    by (simp add: scan_types_def eager_auth Let_def)
  then show ?thesis by (simp add: scan_run_def split: option.splits)
qed

lemma advance_loop_round:
  "advance_loop f p = (case advance_round f p of
      None \<Rightarrow> Some (serve_session f p)
    | Some (finished, p') \<Rightarrow> if finished then Some p' else advance_loop f p')"
  by (rule advance_loop.simps)

lemma version_mismatch_scrubber: "rp_scrubber (snd (version_mismatch f p)) = rp_scrubber p"
  by (simp add: version_mismatch_def Let_def)

definition calm :: "scrubber \<Rightarrow> bool" where
  "calm s \<longleftrightarrow> sb_s2c_pending s = [] \<and> sb_c2s_pending s = []"

text \<open>The exact chunk is fed.\<close>

lemma drain_exhausts: "drain t g nt [] c dl = (out, g', nt', kept) \<Longrightarrow> kept = []"
proof (induction g arbitrary: nt c dl out)
  case (Want u n k)
  then show ?case
    by (cases "u = t \<and> n = 0") (auto simp: Let_def split: prod.splits dest: Want.IH [OF rangeI])
qed auto

lemma feed_exact:
  assumes "sb_scan s = Want t n k" "length d = n" "0 < n" "calm s"
    and "drain t (k d) ((sb_notes s)\<lparr>sc_recording := None\<rparr>) [] d
      (if sc_in_auth (sb_notes s) \<and> \<not> sc_preserve_auth (sb_notes s) then [] else d) = (out, g, nt, kept)"
  shows "kept = [] \<and> calm (snd (scrub_feed t d s)) \<and> sb_scan (snd (scrub_feed t d s)) = g"
proof -
  have "d \<noteq> []" using assms by auto
  then show ?thesis
    using assms drain_exhausts [OF assms(5)]
    by (cases t) (auto simp: scrub_feed_def waiting_on_def pending_def set_pending_def calm_def Let_def)
qed

lemma advance_loop_ends:
  assumes "eager (Some t) g" "drain t g nt [] c dl = (out, sb_scan (rp_scrubber p), nt', kept)"
    "calm (rp_scrubber p)"
  shows "advance_loop f p \<noteq> None"
  using assms
proof (induction g arbitrary: t nt c dl out nt' p kept)
  case Finish
  then have "waiting (rp_scrubber p) = None" by (simp add: waiting_def)
  then show ?case by (simp add: advance_loop_round [of f p] advance_round_def)
next
  case (Set h g)
  then show ?case by simp
next
  case (Want u n k)
  show ?case
  proof (cases "u = t \<and> n = 0")
    case True
    with Want.prems obtain fc out0 where
      "drain t (k []) (nt\<lparr>sc_recording := None\<rparr>) [] [] fc = (out0, sb_scan (rp_scrubber p), nt', kept)"
      by (auto simp: Let_def split: prod.splits)
    then show ?thesis by (rule Want.IH [OF rangeI, rotated]) (use Want.prems True in auto)
  next
    case False
    with Want.prems have scan: "sb_scan (rp_scrubber p) = Want u n k" and n: "0 < n"
      by (auto simp: Let_def split: if_splits)
    have fed: "advance_loop f p' \<noteq> None"
      if "length d = n" "rp_scrubber p' = snd (scrub_feed u d (rp_scrubber p))" for p' d
    proof -
      let ?nt = "(sb_notes (rp_scrubber p))\<lparr>sc_recording := None\<rparr>"
      let ?fc = "if sc_in_auth (sb_notes (rp_scrubber p)) \<and> \<not> sc_preserve_auth (sb_notes (rp_scrubber p)) then [] else d"
      obtain out1 g1 nt1 kept1 where d: "drain u (k d) ?nt [] d ?fc = (out1, g1, nt1, kept1)"
        by (cases "drain u (k d) ?nt [] d ?fc") auto
      note after = feed_exact [OF scan that(1) n Want.prems(3) d]
      show ?thesis
        by (rule Want.IH [OF rangeI, where t = u and x1 = d])
          (use Want.prems(1) that d after in auto)
    qed
    show ?thesis
    proof (cases "advance_round f p")
      case None
      then show ?thesis by (simp add: advance_loop_round [of f p])
    next
      case (Some r)
      obtain finished p' where r: "r = (finished, p')" by force
      show ?thesis
      proof (cases finished)
        case True
        then show ?thesis using Some r by (simp add: advance_loop_round [of f p])
      next
        case not: False
        have "\<exists>d. length d = n \<and> rp_scrubber p' = snd (scrub_feed u d (rp_scrubber p))"
        proof (cases u)
          case S2C
          then show ?thesis
            using Some r not scan
            by (intro exI [of _ "pslice (rp_pos p) (rp_pos p + n) (cap_s2c (rf_capture f))"])
              (auto simp: advance_round_def waiting_def Let_def split: if_splits)
        next
          case C2S
          have "rp_scrubber p' = snd (scrub_feed u (take n (rp_buffer p)) (rp_scrubber p))"
            using Some r not scan C2S
              version_mismatch_scrubber [of f "p\<lparr>rp_buffer := drop n (rp_buffer p),
                rp_scrubber := snd (scrub_feed C2S (take n (rp_buffer p)) (rp_scrubber p))\<rparr>"]
            by (auto simp: advance_round_def waiting_def Let_def split: if_splits)
          moreover have "length (take n (rp_buffer p)) = n"
            using Some r not scan C2S by (auto simp: advance_round_def waiting_def split: if_splits)
          ultimately show ?thesis by blast
        qed
        then show ?thesis using Some r not fed by (auto simp: advance_loop_round [of f p])
      qed
    qed
  qed
qed

section \<open>What a replay sends\<close>

definition settled :: "scrubber \<Rightarrow> bool" where
  "settled s \<longleftrightarrow> calm s \<and> eager None (sb_scan s) \<and> (\<forall>h g. sb_scan s \<noteq> Set h g)"

lemma drain_settled:
  "eager (Some t) g \<Longrightarrow> drain t g nt [] c dl = (out, g', nt', kept) \<Longrightarrow> eager None g'"
proof (induction g arbitrary: nt c dl out)
  case (Want u n k)
  then show ?case
    by (cases "u = t \<and> n = 0") (auto simp: Let_def split: prod.splits dest: Want.IH [OF rangeI, rotated])
qed auto

lemma settled_fed:
  assumes "settled s" "sb_scan s = Want t n k" "length d = n"
  shows "settled (snd (scrub_feed t d s))"
proof -
  let ?fc = "if sc_in_auth (sb_notes s) \<and> \<not> sc_preserve_auth (sb_notes s) then [] else d"
  obtain out g nt kept where d: "drain t (k d) ((sb_notes s)\<lparr>sc_recording := None\<rparr>) [] d ?fc = (out, g, nt, kept)"
    by (cases "drain t (k d) ((sb_notes s)\<lparr>sc_recording := None\<rparr>) [] d ?fc") auto
  have "0 < n" "eager (Some t) (k d)" using assms by (auto simp: settled_def)
  with feed_exact [OF assms(2,3) _ _ d] drain_settled [OF _ d] drain_stops [OF d] assms(1)
  show ?thesis by (auto simp: settled_def)
qed

definition replay_ok :: "replay_factory \<Rightarrow> replay \<Rightarrow> bool" where
  "replay_ok f p \<longleftrightarrow> settled (rp_scrubber p) \<and> rp_pos p \<le> length (cap_s2c (rf_capture f)) \<and>
     concat (rp_written p) = take (rp_pos p) (cap_s2c (rf_capture f)) \<and>
     (rp_exhausted p \<longrightarrow> rp_lost p \<or> rp_pos p = length (cap_s2c (rf_capture f)))"

lemma replay_ok_expect [simp]: "replay_ok f (replay_expect f n p) = replay_ok f p"
  by (simp add: replay_expect_def replay_ok_def split: option.splits)

lemma replay_ok_mismatch:
  "replay_ok f p \<Longrightarrow> \<not> rp_exhausted p \<Longrightarrow> version_mismatch f p = (fin, p') \<Longrightarrow>
     replay_ok f p' \<and> (rp_exhausted p' \<longrightarrow> fin)"
  by (auto simp: version_mismatch_def replay_ok_def Let_def split: if_splits)

lemma replay_ok_serve:
  assumes "replay_ok f p" "\<not> rp_exhausted p"
  shows "replay_ok f (serve_session f p)"
proof -
  define p1 where "p1 = (if \<not> rp_awaiting_request p \<and> waiting (rp_scrubber p) = None \<and>
      sc_width (sb_notes (rp_scrubber p)) \<noteq> None then p\<lparr>rp_awaiting_request := True\<rparr> else p)"
  obtain buffer seen where seen: "(if rp_awaiting_request p1 then saw_update_request (rp_buffer p1)
      else (rp_buffer p1, True)) = (buffer, seen)" by fastforce
  define p2 where "p2 = p1\<lparr>rp_buffer := buffer\<rparr>"
  have p2: "replay_ok f p2" "\<not> rp_exhausted p2"
    using assms by (simp_all add: p2_def p1_def replay_ok_def)
  have eq: "serve_session f p = (if rp_awaiting_request p1 \<and> \<not> seen then replay_expect f 10 p2
      else (if drop (rp_pos p2) (cap_s2c (rf_capture f)) \<noteq> []
            then (replay_write (drop (rp_pos p2) (cap_s2c (rf_capture f))) p2)\<lparr>rp_pos := length (cap_s2c (rf_capture f))\<rparr>
            else p2)\<lparr>rp_exhausted := True\<rparr>)"
    unfolding serve_session_def Let_def p1_def [symmetric] seen prod.case p2_def [symmetric] by simp
  show ?thesis
  proof (cases "rp_awaiting_request p1 \<and> \<not> seen")
    case True
    then show ?thesis using p2 by (simp add: eq)
  next
    case False
    then show ?thesis using p2 by (auto simp: eq replay_ok_def replay_write_def)
  qed
qed

lemma replay_ok_round:
  assumes "replay_ok f p" "advance_round f p = Some (fin, p')" "\<not> rp_exhausted p"
  shows "replay_ok f p' \<and> (rp_exhausted p' \<longrightarrow> fin)"
proof (cases "sb_scan (rp_scrubber p)")
  case (Want u n k)
  have fed: "settled (snd (scrub_feed u d (rp_scrubber p)))" if "length d = n" for d
    using settled_fed [OF _ Want that] assms(1) by (simp add: replay_ok_def)
  show ?thesis
  proof (cases u)
    case S2C
    let ?s2c = "cap_s2c (rf_capture f)"
    let ?chunk = "pslice (rp_pos p) (rp_pos p + n) ?s2c"
    have len: "length ?chunk = n" and p': "p' = (replay_write ?chunk p)\<lparr>rp_pos := rp_pos p + n,
        rp_scrubber := snd (scrub_feed S2C ?chunk (rp_scrubber p))\<rparr>"
      using assms(2) S2C Want by (auto simp: advance_round_def waiting_def Let_def split: if_splits)
    have "take (rp_pos p + n) ?s2c = take (rp_pos p) ?s2c @ ?chunk"
      by (simp add: pslice_def take_add)
    moreover have "rp_pos p + n \<le> length ?s2c" using len assms(1) by (auto simp: replay_ok_def)
    ultimately show ?thesis
      using assms(1,3) fed [OF len] S2C by (simp add: p' replay_ok_def replay_write_def)
  next
    case C2S
    show ?thesis
    proof (cases "length (rp_buffer p) < n")
      case True
      then show ?thesis using assms C2S Want by (auto simp: advance_round_def waiting_def)
    next
      case False
      let ?q = "p\<lparr>rp_buffer := drop n (rp_buffer p),
          rp_scrubber := snd (scrub_feed C2S (take n (rp_buffer p)) (rp_scrubber p))\<rparr>"
      have "replay_ok f ?q" using assms(1) fed [of "take n (rp_buffer p)"] False C2S by (simp add: replay_ok_def)
      moreover have "version_mismatch f ?q = (fin, p')"
        using assms(2) C2S Want False by (simp add: advance_round_def waiting_def Let_def)
      moreover have "\<not> rp_exhausted ?q" using assms(3) by simp
      ultimately show ?thesis using replay_ok_mismatch by blast
    qed
  qed
qed (use assms(2) in \<open>simp_all add: advance_round_def waiting_def\<close>)

lemma advance_loop_ok:
  assumes "advance_loop f p = Some p'" "replay_ok f p" "\<not> rp_exhausted p"
  shows "replay_ok f p'"
proof -
  have "advance_loop f p = Some p' \<Longrightarrow> replay_ok f p \<and> \<not> rp_exhausted p \<longrightarrow> replay_ok f p'" for f p p'
  proof (erule advance_loop.raw_induct [rotated], rule impI, elim conjE)
    fix loop :: "replay_factory \<Rightarrow> replay \<Rightarrow> replay option" and f p p'
    assume IH: "\<And>f p p'. loop f p = Some p' \<Longrightarrow> replay_ok f p \<and> \<not> rp_exhausted p \<longrightarrow> replay_ok f p'"
      and step: "(case advance_round f p of None \<Rightarrow> Some (serve_session f p)
        | Some (finished, p') \<Rightarrow> if finished then Some p' else loop f p') = Some p'"
      and ok: "replay_ok f p" "\<not> rp_exhausted p"
    show "replay_ok f p'"
    proof (cases "advance_round f p")
      case None
      then show ?thesis using step replay_ok_serve [OF ok] by simp
    next
      case (Some r)
      obtain fin q where r: "r = (fin, q)" by force
      then have "replay_ok f q \<and> (rp_exhausted q \<longrightarrow> fin)"
        using replay_ok_round [OF ok(1) _ ok(2)] Some by simp
      then show ?thesis using step Some r IH [of f q p'] by (auto split: if_splits)
    qed
  qed
  then show ?thesis using assms by blast
qed

lemma advance_ok:
  assumes "replay_ok f p"
  shows "\<exists>p'. advance f p = Some p' \<and> replay_ok f p'"
proof (cases "rp_exhausted p")
  case False
  let ?s = "rp_scrubber p"
  have "\<exists>t out nt kept. drain t (sb_scan ?s) (sb_notes ?s) [] [] [] = (out, sb_scan ?s, nt, kept) \<and>
      eager (Some t) (sb_scan ?s)"
    using assms by (cases "sb_scan ?s") (auto simp: replay_ok_def settled_def)
  then obtain t out nt kept where "drain t (sb_scan ?s) (sb_notes ?s) [] [] [] = (out, sb_scan ?s, nt, kept)"
    "eager (Some t) (sb_scan ?s)" by blast
  then have "advance_loop f p \<noteq> None"
    using assms by (intro advance_loop_ends) (auto simp: replay_ok_def settled_def)
  then show ?thesis using advance_loop_ok [OF _ assms False] False by (auto simp: advance_def)
qed (simp add: advance_def assms)

text \<open>A replayed connection: accepted, then everything the client delivers, in its pieces.\<close>

definition replay_run :: "replay_factory \<Rightarrow> bytes list \<Rightarrow> replay option" where
  "replay_run f ds =
     foldl (\<lambda>r d. case r of None \<Rightarrow> None | Some p \<Rightarrow> replay_dataReceived f d p) (replay_connectionMade f) ds"

lemma replay_start_ok: "\<exists>p. replay_connectionMade f = Some p \<and> replay_ok f p"
  unfolding replay_connectionMade_def
  by (rule advance_ok)
    (simp add: replay_ok_def settled_def calm_def scrubber_init_def eager_run, simp add: scan_run_def)

lemma replay_received_ok: "replay_ok f p \<Longrightarrow> \<exists>p'. replay_dataReceived f d p = Some p' \<and> replay_ok f p'"
  unfolding replay_dataReceived_def Let_def
  by (auto intro!: advance_ok simp: cancel_stall_def) (simp_all add: replay_ok_def)

text \<open>
  C11: a replay sends its capture and nothing else, and every delivery is handled in finitely many steps.
  Whatever capture is served and whatever the client sends, in whatever pieces, the connection is always
  left waiting; what has been written is the capture's server stream up to the current position, which is
  its end once the capture is used up, unless the client's version did not fit and the connection was
  closed.
\<close>

theorem replay_serves_capture:
  "\<exists>p. replay_run f ds = Some p \<and>
     concat (rp_written p) = take (rp_pos p) (cap_s2c (rf_capture f)) \<and>
     rp_pos p = (if rp_exhausted p \<and> \<not> rp_lost p then length (cap_s2c (rf_capture f)) else rp_pos p)"
proof -
  have "\<exists>p. replay_run f ds = Some p \<and> replay_ok f p"
  proof (induction ds rule: rev_induct)
    case Nil
    then show ?case using replay_start_ok [of f] by (simp add: replay_run_def)
  next
    case (snoc d ds)
    then show ?case using replay_received_ok by (auto simp: replay_run_def)
  qed
  then show ?thesis by (auto simp: replay_ok_def)
qed

end
