(* ===== verification/ProxyServer.thy ===== *)
theory ProxyServer
  imports Keys Replay
begin

text \<open>
  \<open>vncdotool/loggingproxy.py\<close>: \<open>RFBServer\<close>, which reads the client's half of a session, and the proxy around
  it, which captures, observes and forwards both directions and records the client's input as a script.
\<close>

section \<open>Reading the client\<close>

datatype server_error = ServerRaised exn | ServerProtocolError nat

datatype server_parked =
    AwaitVersion
  | AwaitSecurity
  | AwaitVNCAuthResponse
  | AwaitClientInit
  | AwaitProtocol nat
  | AwaitCutText nat
  | AwaitQemuKey

text \<open>The \<open>handle_\<close> methods a subclass overrides, as what they are called with.\<close>

datatype server_event =
    ClientInit
  | GotPixelFormat pixel_format
  | GotEncodings "int list"
  | GotUpdateRequest nat nat nat nat nat
  | GotKeyEvent nat nat
  | GotPointerEvent nat nat nat
  | GotCutText bytes
  | GotFence nat bytes

record 'p rfb_server =
  rs_buffer :: bytes
  rs_parked :: server_parked
  rs_lost :: bool
  rs_app :: 'p

type_synonym 'p handlers = "server_event \<Rightarrow> 'p \<Rightarrow> server_error option \<times> 'p"
type_synonym 'p served = "server_error option \<times> 'p rfb_server"

definition TYPE_LEN :: "(nat \<times> nat) list" where
  "TYPE_LEN = [(0, 20), (2, 4), (3, 10), (4, 8), (5, 6), (6, 8), (255, 2), (248, 9)]"

definition type_len :: "nat \<Rightarrow> nat" where
  "type_len ptype = (case map_of TYPE_LEN ptype of None \<Rightarrow> 0 | Some n \<Rightarrow> n)"

definition threshold :: "server_parked \<Rightarrow> nat" where
  "threshold p = (case p of AwaitVersion \<Rightarrow> 12 | AwaitSecurity \<Rightarrow> 1 | AwaitVNCAuthResponse \<Rightarrow> 16
     | AwaitClientInit \<Rightarrow> 1 | AwaitProtocol n \<Rightarrow> n | AwaitCutText n \<Rightarrow> n | AwaitQemuKey \<Rightarrow> 10)"

definition server_init :: "'p \<Rightarrow> 'p rfb_server" where
  "server_init app = \<lparr>rs_buffer = [], rs_parked = AwaitVersion, rs_lost = False, rs_app = app\<rparr>"

definition eat :: "nat \<Rightarrow> 'p rfb_server \<Rightarrow> 'p rfb_server" where
  "eat n s = s\<lparr>rs_buffer := drop n (rs_buffer s)\<rparr>"

definition park :: "server_parked \<Rightarrow> 'p rfb_server \<Rightarrow> 'p rfb_server" where
  "park p s = s\<lparr>rs_parked := p\<rparr>"

definition emit :: "'p handlers \<Rightarrow> server_event \<Rightarrow> 'p rfb_server \<Rightarrow> ('p rfb_server \<Rightarrow> 'p served) \<Rightarrow> 'p served" where
  "emit h ev s k =
     (case h ev (rs_app s) of
        (None, a) \<Rightarrow> k (s\<lparr>rs_app := a\<rparr>)
      | (Some e, a) \<Rightarrow> (Some e, s\<lparr>rs_app := a\<rparr>))"

text \<open>
  The check of the greeting reads \<open>(not startswith) and endswith\<close>; the connection it loses goes on being
  parsed.
\<close>

definition handle_version :: "bool \<Rightarrow> 'p rfb_server \<Rightarrow> 'p served" where
  "handle_version password_required s =
     (let msg = take 12 (rs_buffer s); s1 = eat 12 s;
          s2 = (if take 8 msg \<noteq> [82, 70, 66, 32, 48, 48, 51, 46] \<and> drop 11 msg = [10]
                then s1\<lparr>rs_lost := True\<rparr> else s1);
          version = pslice 8 11 msg
      in (None,
          if version = [48, 48, 51] \<or> version = [48, 48, 53]
          then park (if password_required then AwaitVNCAuthResponse else AwaitClientInit) s2
          else if version = [48, 48, 55] \<or> version = [48, 48, 56] then park AwaitSecurity s2
          else s2))"

definition handle_security :: "'p rfb_server \<Rightarrow> 'p served" where
  "handle_security s =
     (None, park (if unat (rs_buffer s ! 0) = 2 then AwaitVNCAuthResponse else AwaitClientInit) (eat 1 s))"

definition handle_VNCAuthResponse :: "'p rfb_server \<Rightarrow> 'p served" where
  "handle_VNCAuthResponse s = (None, park AwaitClientInit (eat 16 s))"

text \<open>The base class's method, and then the proxy's, which starts the observer.\<close>

definition handle_clientInit :: "'p handlers \<Rightarrow> 'p rfb_server \<Rightarrow> 'p served" where
  "handle_clientInit h s = emit h ClientInit (park (AwaitProtocol 1) (eat 1 s)) (\<lambda>s. (None, s))"

definition signed_at :: "bytes \<Rightarrow> nat \<Rightarrow> int" where
  "signed_at bs i = s32_of (u32_at (4 * i) bs)"

definition handle_protocol :: "'p handlers \<Rightarrow> 'p rfb_server \<Rightarrow> 'p served" where
  "handle_protocol h s =
     (if rs_buffer s = [] then (Some (ServerRaised StructError), s)
      else
        (let ptype = unat (rs_buffer s ! 0); nbytes = type_len ptype
         in if length (rs_buffer s) < nbytes then (None, park (AwaitProtocol nbytes) s)
            else
              (let block = pslice 1 nbytes (rs_buffer s); s1 = eat nbytes s;
                   call = (\<lambda>ev s. emit h ev s (\<lambda>s. (None, s)))
               in if ptype = 0 then call (GotPixelFormat (from_bytes (pslice 3 19 block))) s1
                  else if ptype = 2
                  then (let n = u16_at 1 block
                        in if length (rs_buffer s1) < 4 * n then (Some (ServerRaised StructError), s1)
                           else call (GotEncodings (map (signed_at (rs_buffer s1)) [0..<n])) (eat (4 * n) s1))
                  else if ptype = 3
                  then call (GotUpdateRequest (u16_at 1 block) (u16_at 3 block) (u16_at 5 block) (u16_at 7 block)
                               (unat (block ! 0))) s1
                  else if ptype = 4 then call (GotKeyEvent (u32_at 3 block) (unat (block ! 0))) s1
                  else if ptype = 5
                  then call (GotPointerEvent (u16_at 1 block) (u16_at 3 block) (unat (block ! 0))) s1
                  else if ptype = 6 then (None, park (AwaitCutText (u32_at 3 block)) s1)
                  else if ptype = 248
                  then (let n = unat (block ! 7)
                        in call (GotFence (u32_at 3 block) (take n (rs_buffer s1))) (eat n s1))
                  else if ptype = 255
                  then (if unat (block ! 0) = 0 then (None, park AwaitQemuKey s1)
                        else (Some (ServerProtocolError (unat (block ! 0))), s1))
                  else (Some (ServerProtocolError ptype), s1))))"

definition handle_clientCutText :: "'p handlers \<Rightarrow> nat \<Rightarrow> 'p rfb_server \<Rightarrow> 'p served" where
  "handle_clientCutText h n s =
     emit h (GotCutText (take n (rs_buffer s))) (eat n s) (\<lambda>s. (None, park (AwaitProtocol 1) s))"

text \<open>Ten bytes are read, and up to twelve deleted.\<close>

definition handle_qemuExtendedKeyEvent :: "'p handlers \<Rightarrow> 'p rfb_server \<Rightarrow> 'p served" where
  "handle_qemuExtendedKeyEvent h s =
     emit h (GotKeyEvent (u32_at 2 (rs_buffer s)) (u16_at 0 (rs_buffer s))) (eat 12 s)
       (\<lambda>s. (None, park (AwaitProtocol 1) s))"

definition server_turn :: "'p handlers \<Rightarrow> bool \<Rightarrow> 'p rfb_server \<Rightarrow> 'p served" where
  "server_turn h password_required s =
     (case rs_parked s of
        AwaitVersion \<Rightarrow> handle_version password_required s
      | AwaitSecurity \<Rightarrow> handle_security s
      | AwaitVNCAuthResponse \<Rightarrow> handle_VNCAuthResponse s
      | AwaitClientInit \<Rightarrow> handle_clientInit h s
      | AwaitProtocol n \<Rightarrow> handle_protocol h s
      | AwaitCutText n \<Rightarrow> handle_clientCutText h n s
      | AwaitQemuKey \<Rightarrow> handle_qemuExtendedKeyEvent h s)"

definition server_ready :: "'p rfb_server \<Rightarrow> bool" where
  "server_ready s \<longleftrightarrow> threshold (rs_parked s) \<le> length (rs_buffer s)"

text \<open>What is left to do: bytes, then a cut text that may be empty, then one look at the head of a message.\<close>

definition server_work :: "'p rfb_server \<Rightarrow> nat" where
  "server_work s = 3 * length (rs_buffer s) +
     (case rs_parked s of AwaitCutText n \<Rightarrow> 2 | _ \<Rightarrow> if server_ready s then 1 else 0)"

lemma emit_cases:
  assumes "emit h ev s k = (None, s')"
  obtains a where "k (s\<lparr>rs_app := a\<rparr>) = (None, s')"
  using assms by (auto simp: emit_def split: prod.splits option.splits)

lemma server_work_le: "server_work s \<le> 3 * length (rs_buffer s) + 2"
  by (cases "rs_parked s") (simp_all add: server_work_def)

lemma work_after_protocol:
  assumes "handle_protocol h s = (None, s')" "server_ready s" "rs_parked s = AwaitProtocol n"
  shows "server_work s' < server_work s"
proof -
  let ?t = "unat (rs_buffer s ! 0)"
  let ?n = "type_len ?t"
  have ne: "rs_buffer s \<noteq> []" using assms(1) by (auto simp: handle_protocol_def)
  show ?thesis
  proof (cases "length (rs_buffer s) < ?n")
    case True
    then show ?thesis
      using assms ne by (auto simp: handle_protocol_def Let_def park_def server_work_def server_ready_def threshold_def)
  next
    case False
    have known: "?t \<in> {0, 2, 3, 4, 5, 6, 248, 255}"
      using assms(1) ne False by (auto simp: handle_protocol_def Let_def split: if_splits)
    then have "2 \<le> ?n" by (auto simp: type_len_def TYPE_LEN_def)
    moreover have "length (rs_buffer s') \<le> length (rs_buffer s) - ?n"
      using assms(1) ne False
      by (auto simp: handle_protocol_def Let_def eat_def park_def elim!: emit_cases split: if_splits)
    ultimately have "length (rs_buffer s') < length (rs_buffer s)" using False ne by simp
    then show ?thesis
      using server_work_le [of s'] by (simp add: server_work_def [of s])
  qed
qed

lemma server_turn_works:
  assumes "server_turn h pw s = (None, s')" "server_ready s"
  shows "server_work s' < server_work s"
proof (cases "rs_parked s")
  case (AwaitProtocol n)
  then show ?thesis using work_after_protocol assms by (simp add: server_turn_def)
next
  case (AwaitCutText n)
  then have "length (rs_buffer s') \<le> length (rs_buffer s) \<and> rs_parked s' = AwaitProtocol 1"
    using assms(1) by (auto simp: server_turn_def handle_clientCutText_def eat_def park_def elim!: emit_cases)
  then show ?thesis using AwaitCutText by (auto simp: server_work_def)
qed (use assms server_work_le [of s'] in \<open>auto simp: server_turn_def handle_version_def handle_security_def
    handle_VNCAuthResponse_def handle_clientInit_def handle_qemuExtendedKeyEvent_def eat_def park_def Let_def
    server_work_def [of s] server_ready_def threshold_def elim!: emit_cases\<close>)

function serve_client :: "'p handlers \<Rightarrow> bool \<Rightarrow> 'p rfb_server \<Rightarrow> 'p served" where
  "serve_client h password_required s =
     (if server_ready s
      then (case server_turn h password_required s of
              (Some e, s') \<Rightarrow> (Some e, s')
            | (None, s') \<Rightarrow> serve_client h password_required s')
      else (None, s))"
  by pat_completeness auto
termination
  by (relation "measure (\<lambda>(h, pw, s). server_work s)") (auto dest: server_turn_works [OF sym])

lemmas [simp del] = serve_client.simps

definition server_dataReceived :: "'p handlers \<Rightarrow> bool \<Rightarrow> bytes \<Rightarrow> 'p rfb_server \<Rightarrow> 'p served" where
  "server_dataReceived h password_required d s =
     serve_client h password_required (s\<lparr>rs_buffer := rs_buffer s @ d\<rparr>)"

text \<open>What every handler keeps, reading a delivery keeps.\<close>

lemma emit_keeps:
  assumes "\<And>ev a. P a \<Longrightarrow> P (snd (h ev a))" "P (rs_app s)" "\<And>s. P (rs_app s) \<Longrightarrow> P (rs_app (snd (k s)))"
  shows "P (rs_app (snd (emit h ev s k)))"
  using assms(1) [OF assms(2), of ev] assms(3) by (auto simp: emit_def split: prod.splits option.splits)

lemma server_turn_keeps:
  assumes h: "\<And>ev a. P a \<Longrightarrow> P (snd (h ev a))" and "P (rs_app s)"
  shows "P (rs_app (snd (server_turn h pw s)))"
  using assms(2)
  by (cases "rs_parked s")
    (auto simp: server_turn_def handle_version_def handle_security_def handle_VNCAuthResponse_def handle_clientInit_def
      handle_protocol_def handle_clientCutText_def handle_qemuExtendedKeyEvent_def park_def eat_def Let_def
      intro!: emit_keeps [of P h, OF h])

lemma server_dataReceived_keeps:
  assumes h: "\<And>ev a. P a \<Longrightarrow> P (snd (h ev a))" and "P (rs_app s)"
  shows "P (rs_app (snd (server_dataReceived h pw d s)))"
proof -
  have "P (rs_app s) \<Longrightarrow> P (rs_app (snd (serve_client h pw s)))" for s
  proof (induction "server_work s" arbitrary: s rule: less_induct)
    case less
    show ?case
    proof (cases "server_ready s")
      case True
      obtain e s' where t: "server_turn h pw s = (e, s')" by force
      have "P (rs_app s')" using server_turn_keeps [of P h s pw, OF h less.prems] t by simp
      then show ?thesis
        using True t less.hyps [of s'] server_turn_works [of h pw s s'] by (subst serve_client.simps) (cases e; simp)
    qed (use less.prems in \<open>simp add: serve_client.simps [of h pw s]\<close>)
  qed
  then show ?thesis using assms(2) by (simp add: server_dataReceived_def)
qed

section \<open>It reads what clients write\<close>

text \<open>A subclass that only keeps what it is called with.\<close>

definition collect :: "server_event list handlers" where
  "collect ev es = (None, es @ [ev])"

fun event_of :: "client_message \<Rightarrow> server_event" where
  "event_of (SetPixelFormat pf) = GotPixelFormat pf"
| "event_of (SetEncodings es) = GotEncodings es"
| "event_of (UpdateRequest inc x y w h) = GotUpdateRequest x y w h (of_bool inc)"
| "event_of (KeyEvent down key) = GotKeyEvent key (of_bool down)"
| "event_of (PointerEvent buttons x y) = GotPointerEvent x y buttons"
| "event_of (CutText t) = GotCutText t"
| "event_of (Fence flags payload) = GotFence flags payload"

lemma s32_of_mod:
  assumes "- 2147483648 \<le> e" "e < 2147483648"
  shows "s32_of (nat (e mod 4294967296)) = e"
proof (cases "0 \<le> e")
  case True
  then have "e mod 4294967296 = e" using assms(2) by simp
  then show ?thesis using True assms(2) by (simp add: s32_of_def)
next
  case False
  then have "(e + 4294967296) mod 4294967296 = e + 4294967296" using assms(1) by (intro mod_pos_pos_trivial) simp_all
  then have "e mod 4294967296 = e + 4294967296" unfolding mod_add_self2 .
  then show ?thesis using False assms(1) by (simp add: s32_of_def)
qed

lemma signed_at_head:
  "- 2147483648 \<le> e \<Longrightarrow> e < 2147483648 \<Longrightarrow> signed_at (signed_bytes e @ xs) 0 = e"
proof -
  assume e: "- 2147483648 \<le> e" "e < 2147483648"
  have "nat (e mod 4294967296) < 256 ^ 4" by (simp add: nat_less_iff)
  then show ?thesis using s32_of_mod [OF e] by (simp add: signed_at_def pslice_def be_val_be_bytes)
qed

lemma signed_at_tail: "signed_at (signed_bytes e @ xs) (Suc i) = signed_at xs i"
  by (simp add: signed_at_def pslice_def)

lemma signed_fields:
  "list_all (\<lambda>e. - 2147483648 \<le> e \<and> e < 2147483648) es \<Longrightarrow>
     map (signed_at (concat (map signed_bytes es) @ rest)) [0..<length es] = es"
proof (induction es)
  case (Cons e es)
  then show ?case
    by (simp add: upt_rec [of 0] map_Suc_upt [symmetric] signed_at_head signed_at_tail comp_def del: upt_Suc)
qed simp

lemma length_signed [simp]: "length (concat (map signed_bytes es)) = 4 * length es"
  by (induction es) simp_all

lemma protocol_message:
  assumes "well_formed m" "rs_buffer s = message_bytes m @ rest" "rs_parked s = AwaitProtocol 1"
    and h: "h (event_of m) (rs_app s) = (None, app)"
  shows "serve_client h pw s = serve_client h pw (s\<lparr>rs_buffer := rest, rs_app := app\<rparr>)"
proof -
  have ready: "server_ready s"
    using assms(2,3) by (cases m) (simp_all add: server_ready_def threshold_def)
  show ?thesis
  proof (cases "\<exists>t. m = CutText t")
    case False
    have "server_turn h pw s = (None, s\<lparr>rs_buffer := rest, rs_app := app\<rparr>)"
    proof (cases m)
      case (SetEncodings es)
      have "u16_at 1 (0 # be_bytes 2 (length es)) = length es"
        using SetEncodings assms(1) by (simp add: pslice_def be_val_be_bytes)
      then show ?thesis
        using assms SetEncodings signed_fields [of es rest]
        by (simp add: server_turn_def handle_protocol_def Let_def type_len_def TYPE_LEN_def eat_def emit_def
            pslice_def)
    next
      case (UpdateRequest inc x y w h)
      then show ?thesis
        using assms by (cases inc) (simp_all add: server_turn_def handle_protocol_def Let_def type_len_def TYPE_LEN_def
            eat_def emit_def pslice_def be_val_be_bytes nth_append)
    next
      case (KeyEvent down key)
      then show ?thesis
        using assms by (cases down) (simp_all add: server_turn_def handle_protocol_def Let_def type_len_def TYPE_LEN_def
            eat_def emit_def pslice_def be_val_be_bytes nth_append)
    qed (use assms False in \<open>simp_all add: server_turn_def handle_protocol_def Let_def type_len_def TYPE_LEN_def
        eat_def emit_def pslice_def be_val_be_bytes from_bytes_to_bytes nth_append unat_byte_of_nat\<close>)
    then show ?thesis by (subst serve_client.simps) (simp add: ready)
  next
    case True
    then obtain t where m: "m = CutText t" ..
    have same: "s\<lparr>rs_buffer := rest, rs_app := es, rs_parked := AwaitProtocol (Suc 0)\<rparr> =
        s\<lparr>rs_buffer := rest, rs_app := es\<rparr>" for es
      using assms(3) by (cases s) simp
    let ?s1 = "s\<lparr>rs_buffer := t @ rest, rs_parked := AwaitCutText (length t)\<rparr>"
    have "server_turn h pw s = (None, ?s1)"
      using assms m by (simp add: server_turn_def handle_protocol_def Let_def type_len_def TYPE_LEN_def
          eat_def park_def pslice_def be_val_be_bytes)
    then have "serve_client h pw s = serve_client h pw ?s1"
      by (subst serve_client.simps) (simp add: ready)
    also have "\<dots> = serve_client h pw (s\<lparr>rs_buffer := rest, rs_app := app\<rparr>)"
      using m same h
      by (subst serve_client.simps)
        (simp add: server_ready_def threshold_def server_turn_def handle_clientCutText_def emit_def
          eat_def park_def)
    finally show ?thesis .
  qed
qed

text \<open>
  C18: the proxy reads what clients write. A run of messages, each written by a client operation, that arrives
  together is read as exactly those messages, with every field as it was written, fences, clipboard
  texts and lists of encodings included, and leaves the reader at the start of the next message.
\<close>

theorem proxy_reads_messages:
  assumes "list_all well_formed ms" "rs_buffer s = []" "rs_parked s = AwaitProtocol 1"
  shows "server_dataReceived collect pw (concat (map message_bytes ms)) s =
    (None, s\<lparr>rs_app := rs_app s @ map event_of ms\<rparr>)"
proof -
  have "serve_client collect pw (s\<lparr>rs_buffer := concat (map message_bytes ms), rs_app := es\<rparr>) =
      (None, s\<lparr>rs_app := es @ map event_of ms\<rparr>)" for es
    using assms(1)
  proof (induction ms arbitrary: es)
    case Nil
    then show ?case using assms(2,3) by (subst serve_client.simps) (simp add: server_ready_def threshold_def)
  next
    case (Cons m ms)
    then show ?case
      using protocol_message [of m "s\<lparr>rs_buffer := concat (map message_bytes (m # ms)), rs_app := es\<rparr>"
          "concat (map message_bytes ms)" collect "es @ [event_of m]" pw] assms(3)
      by (simp add: collect_def [of "event_of m"])
  qed
  from this [of "rs_app s"] show ?thesis using assms(2) by (simp add: server_dataReceived_def)
qed

lemma proxy_reads_messages_witness:
  "rs_app (snd (server_dataReceived collect False
     (concat (map message_bytes [CutText [104, 105], KeyEvent True 65293, SetEncodings [0, - 239]]))
     ((server_init [])\<lparr>rs_parked := AwaitProtocol 1\<rparr>))) =
   [GotCutText [104, 105], GotKeyEvent 65293 1, GotEncodings [0, - 239]]"
  by (subst proxy_reads_messages) (simp_all add: server_init_def)

text \<open>
  An extended key event of QEMU followed by another message: with the two in one chunk the reader deletes the
  first two bytes of the second, whose event is lost; in two chunks both are read.
\<close>

lemma qemu_key_eats_next_message:
  defines "key \<equiv> [255, 0, 0, 1, 0, 0, 0, 97, 0, 0, 0, 30] :: bytes"
    and "start \<equiv> (server_init [])\<lparr>rs_parked := AwaitProtocol 1\<rparr> :: server_event list rfb_server"
  shows "rs_app (snd (server_dataReceived collect False (key @ message_bytes (PointerEvent 0 1 2)) start)) =
      [GotKeyEvent 97 1]"
    "rs_app (snd (server_dataReceived collect False (message_bytes (PointerEvent 0 1 2))
        (snd (server_dataReceived collect False key start)))) = [GotKeyEvent 97 1, GotPointerEvent 1 2 0]"
  unfolding key_def start_def by code_simp+

end
