(* ===== verification/Proxy.thy ===== *)
theory Proxy
  imports ProxyServer
begin

text \<open>
  \<open>vncdotool/loggingproxy.py\<close>, the proxy: what it records of the client's input, and how it captures,
  observes and forwards both directions. The observer, a client of its own that decodes the server's half
  and whose failures the proxy swallows, is a parameter.
\<close>

section \<open>The recorded script\<close>

text \<open>\<open>shlex.quote\<close>: the characters a shell word may have unquoted are the ASCII \<open>[\w@%+=:,./-]\<close>.\<close>

definition safe_char :: "nat \<Rightarrow> bool" where
  "safe_char p \<longleftrightarrow> 48 \<le> p \<and> p \<le> 57 \<or> 65 \<le> p \<and> p \<le> 90 \<or> 97 \<le> p \<and> p \<le> 122 \<or>
     p \<in> set (uni ''_@%+=:,./-'')"

definition shlex_quote :: "unicode \<Rightarrow> unicode" where
  "shlex_quote s =
     (if s = [] then [39, 39]
      else if list_all safe_char s then s
      else [39] @ concat (map (\<lambda>p. if p = 39 then [39, 34, 39, 34, 39] else [p]) s) @ [39])"

text \<open>\<open>" ".join(words)\<close>.\<close>

fun join :: "unicode list \<Rightarrow> unicode" where
  "join [] = []"
| "join [w] = w"
| "join (w # v # ws) = w @ [32] @ join (v # ws)"

text \<open>
  \<open>ap_lines\<close> is what the recorder was called with; \<open>clock n\<close> is the text \<open>"%.4f"\<close> makes of the time between the
  events recorded before and as line \<open>n\<close>. \<open>chr\<close> is called for every key, also for one that has a name.
\<close>

record 'o proxy_app =
  ap_lines :: "unicode list"
  ap_mouse :: "(nat \<times> nat) option"
  ap_observer :: "'o option"

type_synonym clock = "nat \<Rightarrow> unicode"

definition record_line :: "clock \<Rightarrow> unicode list \<Rightarrow> 'o proxy_app \<Rightarrow> 'o proxy_app" where
  "record_line clock words a =
     a\<lparr>ap_lines := ap_lines a @ [join ([uni ''pause'', clock (length (ap_lines a))] @ words @ [[10]])]\<rparr>"

definition proxy_keyEvent :: "clock \<Rightarrow> nat \<Rightarrow> nat \<Rightarrow> 'o proxy_app \<Rightarrow> server_error option \<times> 'o proxy_app" where
  "proxy_keyEvent clock key down a =
     (if key \<ge> 0x110000 then (Some (ServerRaised ValueError), a)
      else
        (let rev_name = shlex_quote (case REVERSE_MAP key of Some name \<Rightarrow> name | None \<Rightarrow> [key])
         in (None, record_line clock [uni (if down \<noteq> 0 then ''keydown'' else ''keyup''), rev_name] a)))"

definition proxy_pointerEvent :: "clock \<Rightarrow> nat \<Rightarrow> nat \<Rightarrow> nat \<Rightarrow> 'o proxy_app \<Rightarrow> server_error option \<times> 'o proxy_app" where
  "proxy_pointerEvent clock x y buttonmask a =
     (let moved = (ap_mouse a \<noteq> Some (x, y));
          move = (if moved then [join [uni ''move'', dec_text x, dec_text y]] else []);
          clicks = map (\<lambda>b. join [uni ''click'', dec_text b])
            (filter (\<lambda>b. buttonmask div 2 ^ (b - 1) mod 2 = 1) [1..<9])
      in (None, (record_line clock (move @ clicks) a)\<lparr>ap_mouse := (if moved then Some (x, y) else ap_mouse a)\<rparr>))"

section \<open>The observer\<close>

text \<open>
  \<open>VNCLoggingClient\<close>: what \<open>startLogging\<close> makes, what it does with the server's bytes (an exception is caught
  and the observer kept), with a pixel format the client asks for, and with the encodings it offers; and the
  encodings it has handed to \<open>capture.note_encoding\<close> so far.  Theory \<open>Observer\<close> gives the model's own.
\<close>

record 'o observer =
  ob_start :: 'o
  ob_data :: "bytes \<Rightarrow> 'o \<Rightarrow> 'o"
  ob_format :: "pixel_format \<Rightarrow> 'o \<Rightarrow> exn option \<times> 'o"
  ob_offered :: "int list \<Rightarrow> 'o \<Rightarrow> 'o"
  ob_noted :: "'o \<Rightarrow> int list"

definition proxy_setPixelFormat :: "'o observer \<Rightarrow> pixel_format \<Rightarrow> 'o proxy_app \<Rightarrow> server_error option \<times> 'o proxy_app" where
  "proxy_setPixelFormat ob pf a =
     (case ap_observer a of
        None \<Rightarrow> (None, a)
      | Some v \<Rightarrow> (case ob_format ob pf v of (raised, v') \<Rightarrow>
                    (map_option ServerRaised raised, a\<lparr>ap_observer := Some v'\<rparr>)))"

definition proxy_setEncodings :: "'o observer \<Rightarrow> int list \<Rightarrow> 'o proxy_app \<Rightarrow> server_error option \<times> 'o proxy_app" where
  "proxy_setEncodings ob encodings a =
     (case ap_observer a of
        None \<Rightarrow> (None, a)
      | Some v \<Rightarrow>
          (let named = filter (\<lambda>e. case encoding_lookup e of Member n v \<Rightarrow> True | Unknown v \<Rightarrow> False) encodings
           in (None, a\<lparr>ap_observer := Some (ob_offered ob named v)\<rparr>)))"

definition proxy_handlers :: "clock \<Rightarrow> 'o observer \<Rightarrow> 'o proxy_app handlers" where
  "proxy_handlers clock ob ev a =
     (case ev of
        ClientInit \<Rightarrow> (None, a\<lparr>ap_observer := Some (ob_start ob)\<rparr>)
      | GotPixelFormat pf \<Rightarrow> proxy_setPixelFormat ob pf a
      | GotEncodings es \<Rightarrow> proxy_setEncodings ob es a
      | GotKeyEvent key down \<Rightarrow> proxy_keyEvent clock key down a
      | GotPointerEvent x y buttonmask \<Rightarrow> proxy_pointerEvent clock x y buttonmask a
      | _ \<Rightarrow> (None, a))"

section \<open>The connection\<close>

record proxy_factory =
  pf_one_shot :: bool
  pf_session_taken :: bool
  pf_capture_path :: "string option"
  pf_preserve_auth :: bool
  pf_capture_failed :: bool
  pf_password_required :: bool
  pf_server_address :: string
  pf_finished :: bool
  pf_archives :: "(string \<times> capture_writer) list"

record 'o proxy =
  px_factory :: proxy_factory
  px_server :: "'o proxy_app rfb_server"
  px_capture :: "capture_writer option"
  px_saw_bytes :: bool
  px_refused :: bool
  px_took_session :: bool
  px_to_server :: "bytes list"
  px_to_client :: "bytes list"
  px_lost :: bool

definition proxy_connectionMade :: "string \<Rightarrow> proxy_factory \<Rightarrow> 'o proxy" where
  "proxy_connectionMade timestamp f =
     (let refused = (pf_one_shot f \<and> pf_session_taken f);
          fresh = \<lparr>px_factory = f,
            px_server = server_init \<lparr>ap_lines = [], ap_mouse = None, ap_observer = None\<rparr>, px_capture = None,
            px_saw_bytes = False, px_refused = refused, px_took_session = False,
            px_to_server = [], px_to_client = [], px_lost = refused\<rparr>
      in if refused then fresh
         else
           fresh\<lparr>px_factory := (if pf_one_shot f then f\<lparr>pf_session_taken := True\<rparr> else f),
             px_took_session := pf_one_shot f,
             px_capture := (case pf_capture_path f of
                None \<Rightarrow> None
              | Some path \<Rightarrow>
                  if path = [] then None
                  else Some (writer_init (pf_server_address f) (scrubber_init (pf_preserve_auth f)) timestamp))\<rparr>)"

text \<open>\<open>_abortCapture\<close>.\<close>

definition abort_capture :: "'o proxy \<Rightarrow> 'o proxy" where
  "abort_capture p =
     p\<lparr>px_factory := (px_factory p)\<lparr>pf_capture_failed := True\<rparr>, px_capture := None, px_lost := True\<rparr>"

text \<open>A captured stretch, and whether the capture has to be given up.\<close>

definition capture_data :: "tap \<Rightarrow> bytes \<Rightarrow> 'o proxy \<Rightarrow> bool \<times> 'o proxy" where
  "capture_data t d p =
     (case px_capture p of
        None \<Rightarrow> (False, p)
      | Some w \<Rightarrow>
          (let w' = feed_tap t d w; p' = p\<lparr>px_capture := Some w'\<rparr>
           in if sc_abort_reason (sb_notes (cw_scrubber w')) \<noteq> None then (True, abort_capture p')
              else (False, p')))"

definition client_data :: "clock \<Rightarrow> 'o observer \<Rightarrow> bytes \<Rightarrow> 'o proxy \<Rightarrow> 'o proxy" where
  "client_data clock ob d p =
     (if px_refused p then p
      else
        (case capture_data C2S d (if d \<noteq> [] then p\<lparr>px_saw_bytes := True\<rparr> else p) of
           (True, p1) \<Rightarrow> p1
         | (False, p1) \<Rightarrow>
             p1\<lparr>px_server := snd (server_dataReceived (proxy_handlers clock ob)
                    (pf_password_required (px_factory p1)) d (px_server p1)),
                px_to_server := px_to_server p1 @ [d]\<rparr>))"

text \<open>The observer tallies into the capture that is being written.\<close>

definition tally :: "'o observer \<Rightarrow> 'o \<Rightarrow> 'o \<Rightarrow> capture_writer \<Rightarrow> capture_writer" where
  "tally ob before now w = fold note_encoding (drop (length (ob_noted ob before)) (ob_noted ob now)) w"

definition observe :: "'o observer \<Rightarrow> bytes \<Rightarrow> 'o proxy \<Rightarrow> 'o proxy" where
  "observe ob d p =
     (let a = rs_app (px_server p)
      in case ap_observer a of
           None \<Rightarrow> p
         | Some v \<Rightarrow>
             p\<lparr>px_server := (px_server p)\<lparr>rs_app := a\<lparr>ap_observer := Some (ob_data ob d v)\<rparr>\<rparr>,
                px_capture := map_option (tally ob v (ob_data ob d v)) (px_capture p)\<rparr>)"

definition server_data :: "'o observer \<Rightarrow> bytes \<Rightarrow> 'o proxy \<Rightarrow> 'o proxy" where
  "server_data ob d p =
     (case capture_data S2C d (if d \<noteq> [] then p\<lparr>px_saw_bytes := True\<rparr> else p) of
        (True, p1) \<Rightarrow> p1
      | (False, p1) \<Rightarrow>
          (let p2 = observe ob d p1 in p2\<lparr>px_to_client := px_to_client p2 @ [d]\<rparr>))"

text \<open>
  \<open>connectionLost\<close>: whether the archive could be written is an argument; \<open>write_archive\<close> flushes the writer
  first.
\<close>

definition proxy_connectionLost :: "bool \<Rightarrow> 'o proxy \<Rightarrow> 'o proxy" where
  "proxy_connectionLost writable p =
     (if px_refused p then p
      else if px_saw_bytes p
      then
        (let p1 = (case (px_capture p, pf_capture_path (px_factory p)) of
               (Some w, Some path) \<Rightarrow>
                 if writable
                 then p\<lparr>px_factory := (px_factory p)\<lparr>pf_archives := pf_archives (px_factory p) @ [(path, writer_flush w)]\<rparr>,
                        px_capture := None\<rparr>
                 else p\<lparr>px_factory := (px_factory p)\<lparr>pf_capture_failed := True\<rparr>\<rparr>
             | (Some w, None) \<Rightarrow> p\<lparr>px_factory := (px_factory p)\<lparr>pf_capture_failed := True\<rparr>\<rparr>
             | _ \<Rightarrow> p)
         in if pf_one_shot (px_factory p1)
            then p1\<lparr>px_factory := (px_factory p1)\<lparr>pf_finished := True\<rparr>\<rparr> else p1)
      else
        (let p1 = (if px_took_session p then p\<lparr>px_factory := (px_factory p)\<lparr>pf_session_taken := False\<rparr>\<rparr> else p)
         in p1\<lparr>px_capture := None\<rparr>))"

section \<open>What reaches the two sides\<close>

definition proxy_step :: "clock \<Rightarrow> 'o observer \<Rightarrow> tap \<times> bytes \<Rightarrow> 'o proxy \<Rightarrow> 'o proxy" where
  "proxy_step clock ob x p =
     (case x of (S2C, d) \<Rightarrow> server_data ob d p | (C2S, d) \<Rightarrow> client_data clock ob d p)"

definition proxy_run :: "clock \<Rightarrow> 'o observer \<Rightarrow> (tap \<times> bytes) list \<Rightarrow> 'o proxy \<Rightarrow> 'o proxy" where
  "proxy_run clock ob xs p = fold (proxy_step clock ob) xs p"

definition arrived :: "tap \<Rightarrow> (tap \<times> bytes) list \<Rightarrow> bytes list" where
  "arrived t xs = map snd (filter (\<lambda>x. fst x = t) xs)"

text \<open>The invariant: forwarded so far is what arrived so far, unless the capture was aborted.\<close>

definition proxy_ok :: "(string \<times> capture_writer) list \<Rightarrow> (tap \<times> bytes) list \<Rightarrow> 'o proxy \<Rightarrow> bool" where
  "proxy_ok archives xs p \<longleftrightarrow> \<not> px_refused p \<and> pf_archives (px_factory p) = archives \<and>
     (if px_lost p then px_capture p = None \<and> pf_capture_failed (px_factory p)
      else px_to_server p = arrived C2S xs \<and> px_to_client p = arrived S2C xs)"

lemma observe_sel [simp]:
  "px_factory (observe ob d p) = px_factory p" "px_refused (observe ob d p) = px_refused p"
  "px_lost (observe ob d p) = px_lost p" "px_saw_bytes (observe ob d p) = px_saw_bytes p"
  "px_to_server (observe ob d p) = px_to_server p" "px_to_client (observe ob d p) = px_to_client p"
  "px_capture (observe ob d p) = None \<longleftrightarrow> px_capture p = None"
  by (simp_all add: observe_def Let_def split: option.splits)

lemma capture_data_ok:
  assumes "capture_data t d p = (aborted, p1)" "proxy_ok archives xs p"
  shows "if aborted then proxy_ok archives ys p1
    else proxy_ok archives xs p1 \<and> px_to_server p1 = px_to_server p \<and> px_to_client p1 = px_to_client p"
  using assms by (auto simp: capture_data_def abort_capture_def proxy_ok_def Let_def split: option.splits if_splits)

lemma saw_ok: "proxy_ok archives xs (p\<lparr>px_saw_bytes := b\<rparr>) = proxy_ok archives xs p"
  by (simp add: proxy_ok_def)

lemma proxy_step_ok:
  assumes "proxy_ok archives xs p"
  shows "proxy_ok archives (xs @ [x]) (proxy_step clock ob x p)"
proof -
  obtain t d where x: "x = (t, d)" by force
  let ?q = "if d \<noteq> [] then p\<lparr>px_saw_bytes := True\<rparr> else p"
  obtain aborted p1 where c: "capture_data t d ?q = (aborted, p1)" by force
  have q: "proxy_ok archives xs ?q" using assms by (simp add: saw_ok)
  have p1: "if aborted then proxy_ok archives (xs @ [x]) p1 else proxy_ok archives xs p1"
    using capture_data_ok [OF c q, of "xs @ [x]"] by (auto split: if_splits)
  have "\<not> px_refused p" using assms by (simp add: proxy_ok_def)
  then show ?thesis
    using c p1 by (cases t; cases aborted)
      (auto simp: x proxy_step_def server_data_def client_data_def proxy_ok_def arrived_def Let_def split: if_splits)
qed

lemma proxy_run_ok:
  "proxy_ok archives [] p \<Longrightarrow> proxy_ok archives xs (proxy_run clock ob xs p)"
proof (induction xs rule: rev_induct)
  case (snoc x xs)
  then show ?case using proxy_step_ok by (simp add: proxy_run_def)
qed (simp add: proxy_run_def)

lemma capture_data_refused:
  "capture_data t d p = (aborted, p1) \<Longrightarrow> px_refused p1 = px_refused p \<and> px_to_server p1 = px_to_server p"
  by (auto simp: capture_data_def abort_capture_def Let_def split: option.splits if_splits)

lemma refused_run:
  "px_refused p \<Longrightarrow> px_refused (proxy_run clock ob xs p) \<and> px_to_server (proxy_run clock ob xs p) = px_to_server p"
proof (induction xs rule: rev_induct)
  case (snoc x xs)
  obtain t d where x: "x = (t, d)" by force
  show ?case
    using snoc
    by (cases t) (auto simp: x proxy_run_def proxy_step_def server_data_def client_data_def Let_def
        split: prod.splits bool.splits dest: capture_data_refused)
qed (simp add: proxy_run_def)


text \<open>A Unicode keysym of X11, such as the Euro sign's, is beyond \<open>chr\<close> and is not recorded.\<close>

lemma unicode_keysym_not_recorded:
  "proxy_keyEvent clock 0x10020AC down a = (Some (ServerRaised ValueError), a)"
  by (simp add: proxy_keyEvent_def)

end
