(* ===== verification/Command.thy ===== *)
theory Command
  imports Driving Proxy Complex_Main
begin

text \<open>
  \<open>vncdotool/command.py\<close>: scripts and the command line. How a script is split into words (the standard library's
  \<open>shlex\<close> with \<open>posix\<close> and \<open>whitespace_split\<close>), which client operations its commands become, how the options are
  checked, and which outcome decides the exit status.
\<close>

section \<open>Splitting a script\<close>

datatype lex_state =
    Blank
  | Word
  | InQuote nat
  | Escaped "nat option"
  | Comment

definition lex_whitespace :: "nat \<Rightarrow> bool" where
  "lex_whitespace p \<longleftrightarrow> p = 32 \<or> p = 9 \<or> p = 13 \<or> p = 10"

definition lex_quote_char :: "nat \<Rightarrow> bool" where
  "lex_quote_char p \<longleftrightarrow> p = 39 \<or> p = 34"

definition emit_token :: "unicode \<Rightarrow> bool \<Rightarrow> exn + unicode list \<Rightarrow> exn + unicode list" where
  "emit_token token quoted r =
     (if token \<noteq> [] \<or> quoted then (case r of Inl e \<Rightarrow> Inl e | Inr ts \<Rightarrow> Inr (token # ts)) else r)"

text \<open>
  \<open>list(lex)\<close>, a character at a time: the state, the token so far and whether a quote was read in it. An
  escape inside double quotes stays unless it escapes a quote or itself.
\<close>

fun lex :: "lex_state \<Rightarrow> unicode \<Rightarrow> bool \<Rightarrow> unicode \<Rightarrow> exn + unicode list" where
  "lex Blank token quoted [] = Inr []"
| "lex Blank token quoted (p # ps) =
     (if lex_whitespace p then lex Blank [] False ps
      else if p = 35 then lex Comment [] False ps
      else if p = 92 then lex (Escaped None) [] False ps
      else if lex_quote_char p then lex (InQuote p) [] False ps
      else lex Word [p] False ps)"
| "lex Comment token quoted [] = Inr []"
| "lex Comment token quoted (p # ps) = lex (if p = 10 then Blank else Comment) [] False ps"
| "lex (InQuote q) token quoted [] = Inl ValueError"
| "lex (InQuote q) token quoted (p # ps) =
     (if p = q then lex Word token True ps
      else if p = 92 \<and> q = 34 then lex (Escaped (Some q)) token True ps
      else lex (InQuote q) (token @ [p]) True ps)"
| "lex (Escaped back) token quoted [] = Inl ValueError"
| "lex (Escaped back) token quoted (p # ps) =
     (case back of
        None \<Rightarrow> lex Word (token @ [p]) quoted ps
      | Some q \<Rightarrow>
          if p \<noteq> 92 \<and> p \<noteq> q then lex (InQuote q) (token @ [92, p]) quoted ps
          else lex (InQuote q) (token @ [p]) quoted ps)"
| "lex Word token quoted [] = emit_token token quoted (Inr [])"
| "lex Word token quoted (p # ps) =
     (if lex_whitespace p then emit_token token quoted (lex Blank [] False ps)
      else if p = 35 then emit_token token quoted (lex Comment [] False ps)
      else if lex_quote_char p then lex (InQuote p) token quoted ps
      else if p = 92 then lex (Escaped None) token quoted ps
      else lex Word (token @ [p]) quoted ps)"

definition split_script :: "unicode \<Rightarrow> exn + unicode list" where
  "split_script s = lex Blank [] False s"

section \<open>Commands\<close>

text \<open>\<open>float\<close>: a number, an infinity, or not a number.\<close>

datatype pyfloat = Finite real | Infinite | NaN

datatype action =
    KeyPress unicode
  | KeyDown unicode
  | KeyUp unicode
  | MouseMove int int
  | MousePress int
  | MouseDown int
  | MouseUp int
  | MouseDrag int int
  | Pause pyfloat
  | Paste unicode
  | CaptureScreen unicode bool
  | CaptureRegion unicode int int int int
  | ExpectScreen unicode "int option"
  | ExpectRegion unicode int int "int option"
  | StableScreen pyfloat "int option"
  | StableRegion pyfloat int int int int "int option"

datatype command_error =
    UnsupportedFormat unicode
  | BadFuzz unicode
  | UnknownCommand unicode
  | CommandRaised exn
  | OverflowRaised
  | ZeroDivisionRaised
  | FileNotFound unicode

text \<open>
  What a run depends on: numbers written with non-ASCII digits, \<open>float\<close>, the readable files with their text as
  \<open>open().read()\<close> gives it, standard input, and the options. Dividing a duration by the warp factor is
  \<open>warped\<close>; it raises for a factor of zero.
\<close>

record command_env =
  foreign_int :: "unicode \<Rightarrow> int option"
  parse_float :: "unicode \<Rightarrow> pyfloat option"
  warped :: "pyfloat \<Rightarrow> pyfloat option"
  file_text :: "unicode \<Rightarrow> unicode option"
  stdin_text :: unicode
  ce_delay :: int
  ce_incremental :: bool

definition parse_int :: "command_env \<Rightarrow> unicode \<Rightarrow> int option" where
  "parse_int env s =
     (if list_all (\<lambda>p. p < 128) s then py_int (map word_of_nat s) else foreign_int env s)"

type_synonym 'a parsed = "command_error + 'a \<times> unicode list"

text \<open>\<open>args.pop(0)\<close>, as it is and through \<open>int\<close> and \<open>float\<close>.\<close>

definition pop :: "unicode list \<Rightarrow> unicode parsed" where
  "pop args = (case args of [] \<Rightarrow> Inl (CommandRaised IndexError) | a # rest \<Rightarrow> Inr (a, rest))"

definition pop_int :: "command_env \<Rightarrow> unicode list \<Rightarrow> int parsed" where
  "pop_int env args =
     (case pop args of
        Inl e \<Rightarrow> Inl e
      | Inr (a, rest) \<Rightarrow>
          (case parse_int env a of None \<Rightarrow> Inl (CommandRaised ValueError) | Some n \<Rightarrow> Inr (n, rest)))"

fun pop_ints :: "command_env \<Rightarrow> nat \<Rightarrow> unicode list \<Rightarrow> int list parsed" where
  "pop_ints env 0 args = Inr ([], args)"
| "pop_ints env (Suc n) args =
     (case pop_int env args of
        Inl e \<Rightarrow> Inl e
      | Inr (v, rest) \<Rightarrow>
          (case pop_ints env n rest of Inl e \<Rightarrow> Inl e | Inr (vs, rest') \<Rightarrow> Inr (v # vs, rest')))"

definition pop_float :: "command_env \<Rightarrow> unicode list \<Rightarrow> pyfloat parsed" where
  "pop_float env args =
     (case pop args of
        Inl e \<Rightarrow> Inl e
      | Inr (a, rest) \<Rightarrow>
          (case parse_float env a of None \<Rightarrow> Inl (CommandRaised ValueError) | Some x \<Rightarrow> Inr (x, rest)))"

text \<open>A fuzz that is no number is the next command; \<open>int()\<close> of an infinity or of no number raises.\<close>

definition trailing_fuzz :: "command_env \<Rightarrow> unicode list \<Rightarrow> int option parsed" where
  "trailing_fuzz env args =
     (case args of
        [] \<Rightarrow> Inr (None, [])
      | a # rest \<Rightarrow>
          (case parse_float env a of
             None \<Rightarrow> Inr (None, args)
           | Some NaN \<Rightarrow> Inl (CommandRaised ValueError)
           | Some Infinite \<Rightarrow> Inl OverflowRaised
           | Some (Finite r) \<Rightarrow>
               if r \<noteq> of_int \<lfloor>r\<rfloor> \<or> \<not> (0 \<le> r \<and> r \<le> 255) then Inl (BadFuzz a)
               else Inr (Some \<lfloor>r\<rfloor>, rest)))"

text \<open>\<open>os.path.splitext(filename)[1][1:]\<close>: after the last dot of the last component, leading dots aside.\<close>

definition image_format :: "unicode \<Rightarrow> unicode" where
  "image_format filename =
     (let base = rev (takeWhile (\<lambda>p. p \<noteq> 47) (rev filename));
          name = dropWhile (\<lambda>p. p = 46) base
      in if 46 \<in> set name then rev (takeWhile (\<lambda>p. p \<noteq> 46) (rev name)) else [])"

definition SUPPORTED_FORMATS :: "unicode list" where
  "SUPPORTED_FORMATS = map uni [''png'', ''jpg'', ''jpeg'', ''gif'', ''bmp'']"

text \<open>The delay in seconds, and the pause that follows a key or a command when there is one.\<close>

definition delay_pause :: "command_env \<Rightarrow> action list" where
  "delay_pause env = (if ce_delay env \<noteq> 0 then [Pause (Finite (real_of_int (ce_delay env) / 1000))] else [])"

definition typed :: "command_env \<Rightarrow> unicode \<Rightarrow> action list" where
  "typed env chars = concat (map (\<lambda>p. KeyPress (if p = 45 then uni ''minus'' else [p]) # delay_pause env) chars)"

definition type_file :: "command_env \<Rightarrow> unicode \<Rightarrow> action list" where
  "type_file env chars =
     concat (map (\<lambda>p.
       if p = 13 then []
       else KeyPress (if p = 10 then uni ''enter'' else if p = 9 then uni ''tab''
                      else if p = 45 then uni ''minus'' else [p]) # delay_pause env) chars)"

fun crlf_to_lf :: "unicode \<Rightarrow> unicode" where
  "crlf_to_lf (p # q # ps) = (if p = 13 \<and> q = 10 then 10 # crlf_to_lf ps else p # crlf_to_lf (q # ps))"
| "crlf_to_lf ps = ps"

definition read_file :: "command_env \<Rightarrow> unicode \<Rightarrow> command_error + unicode" where
  "read_file env filename =
     (if filename = [45] then Inr (stdin_text env)
      else (case file_text env filename of None \<Rightarrow> Inl (FileNotFound filename) | Some t \<Rightarrow> Inr t))"

definition andthen :: "'a parsed \<Rightarrow> ('a \<Rightarrow> unicode list \<Rightarrow> 'b parsed) \<Rightarrow> 'b parsed" where
  "andthen r f = (case r of Inl e \<Rightarrow> Inl e | Inr (a, rest) \<Rightarrow> f a rest)"

definition act :: "action \<Rightarrow> unicode list \<Rightarrow> action list parsed" where
  "act a rest = Inr ([a], rest)"

definition named :: "unicode \<Rightarrow> string list \<Rightarrow> bool" where
  "named cmd names \<longleftrightarrow> cmd \<in> set (map uni names)"

definition captured :: "unicode \<Rightarrow> action list parsed \<Rightarrow> action list parsed" where
  "captured filename r =
     (if image_format filename \<in> set SUPPORTED_FORMATS then r
      else Inl (UnsupportedFormat (image_format filename)))"

text \<open>
  One command with its arguments: the callbacks it adds and the words that are left. A file's words take the
  place of its name.
\<close>

definition command_step :: "command_env \<Rightarrow> unicode \<Rightarrow> unicode list \<Rightarrow> action list parsed" where
  "command_step env cmd args =
     (if named cmd [''key''] then andthen (pop args) (\<lambda>k. act (KeyPress k))
      else if named cmd [''kdown'', ''keydown''] then andthen (pop args) (\<lambda>k. act (KeyDown k))
      else if named cmd [''kup'', ''keyup''] then andthen (pop args) (\<lambda>k. act (KeyUp k))
      else if named cmd [''move'', ''mousemove'']
      then andthen (pop_ints env 2 args) (\<lambda>v. act (MouseMove (v ! 0) (v ! 1)))
      else if named cmd [''click''] then andthen (pop_int env args) (\<lambda>b. act (MousePress b))
      else if named cmd [''mdown'', ''mousedown''] then andthen (pop_int env args) (\<lambda>b. act (MouseDown b))
      else if named cmd [''mup'', ''mouseup''] then andthen (pop_int env args) (\<lambda>b. act (MouseUp b))
      else if named cmd [''type''] then andthen (pop args) (\<lambda>t rest. Inr (typed env t, rest))
      else if named cmd [''typefile'']
      then andthen (pop args) (\<lambda>f rest. case read_file env f of Inl e \<Rightarrow> Inl e | Inr t \<Rightarrow> Inr (type_file env t, rest))
      else if named cmd [''pastefile'']
      then andthen (pop args) (\<lambda>f rest. case read_file env f of Inl e \<Rightarrow> Inl e
             | Inr t \<Rightarrow> Inr ([Paste (crlf_to_lf t)], rest))
      else if named cmd [''capture'']
      then andthen (pop args) (\<lambda>f rest. captured f (act (CaptureScreen f (ce_incremental env)) rest))
      else if named cmd [''expect'']
      then andthen (pop args) (\<lambda>f rest. andthen (trailing_fuzz env rest) (\<lambda>z. act (ExpectScreen f z)))
      else if named cmd [''rcapture'']
      then andthen (pop args) (\<lambda>f rest. andthen (pop_ints env 4 rest) (\<lambda>v rest'.
             captured f (act (CaptureRegion f (v ! 0) (v ! 1) (v ! 2) (v ! 3)) rest')))
      else if named cmd [''rexpect'']
      then andthen (pop args) (\<lambda>f rest. andthen (pop_ints env 2 rest) (\<lambda>v rest'.
             andthen (trailing_fuzz env rest') (\<lambda>z. act (ExpectRegion f (v ! 0) (v ! 1) z))))
      else if named cmd [''stable'']
      then andthen (pop_float env args) (\<lambda>t rest. andthen (trailing_fuzz env rest) (\<lambda>z. act (StableScreen t z)))
      else if named cmd [''rstable'']
      then andthen (pop_float env args) (\<lambda>t rest. andthen (pop_ints env 4 rest) (\<lambda>v rest'.
             andthen (trailing_fuzz env rest') (\<lambda>z. act (StableRegion t (v ! 0) (v ! 1) (v ! 2) (v ! 3) z))))
      else if named cmd [''pause'', ''sleep'']
      then andthen (pop_float env args) (\<lambda>t rest. case warped env t of
             None \<Rightarrow> Inl ZeroDivisionRaised | Some t' \<Rightarrow> act (Pause t') rest)
      else if named cmd [''drag'']
      then andthen (pop_ints env 2 args) (\<lambda>v. act (MouseDrag (v ! 0) (v ! 1)))
      else
        (case file_text env cmd of
           None \<Rightarrow> Inl (UnknownCommand cmd)
         | Some script \<Rightarrow>
             (case split_script script of Inl e \<Rightarrow> Inl (CommandRaised e) | Inr ws \<Rightarrow> Inr ([], ws @ args))))"

text \<open>A script that names itself never ends, which is the value None.\<close>

partial_function (option) build_from ::
  "command_env \<Rightarrow> unicode list \<Rightarrow> action list \<Rightarrow> (command_error + action list) option" where
  "build_from env args acts =
     (case args of
        [] \<Rightarrow> Some (Inr acts)
      | cmd # rest \<Rightarrow>
          (case command_step env cmd rest of
             Inl e \<Rightarrow> Some (Inl e)
           | Inr (new, rest') \<Rightarrow>
               build_from env rest' (acts @ new @ (if rest' \<noteq> [] then delay_pause env else []))))"

definition build_command_list :: "command_env \<Rightarrow> unicode list \<Rightarrow> (command_error + action list) option" where
  "build_command_list env args = build_from env args []"

section \<open>Running a script\<close>

text \<open>
  The callbacks that need no answer from the server, on the client; a pause only passes time. The callbacks
  of captures and comparisons are the operations of the same names, with the images \<open>Image.open\<close> gives.
\<close>

definition run_action ::
  "('i, 'k) imaging \<Rightarrow> (unicode \<Rightarrow> bool) \<Rightarrow> (unicode \<Rightarrow> 'i option) \<Rightarrow> action \<Rightarrow> ('z, 'i, 'k) vnc_state \<Rightarrow>
     exn + ('z, 'i, 'k) vnc_state" where
  "run_action im upper open_image a c =
     (case a of
        KeyPress k \<Rightarrow> keyPress upper k c
      | KeyDown k \<Rightarrow> keyDown upper k c
      | KeyUp k \<Rightarrow> keyUp upper k c
      | MouseMove x y \<Rightarrow> mouseMove x y c
      | MousePress b \<Rightarrow> mousePress b c
      | MouseDown b \<Rightarrow> mouseDown b c
      | MouseUp b \<Rightarrow> mouseUp b c
      | MouseDrag x y \<Rightarrow> mouseDrag x y 1 c
      | Pause t \<Rightarrow> Inr c
      | Paste t \<Rightarrow> paste t c
      | CaptureScreen f incremental \<Rightarrow> captureScreen im f incremental None c
      | CaptureRegion f x y w h \<Rightarrow> captureRegion im f x y w h False c
      | ExpectScreen f z \<Rightarrow>
          (case open_image f of None \<Rightarrow> Inl ValueError | Some t \<Rightarrow> expectFramebuffer im t 0 0 z None c)
      | ExpectRegion f x y z \<Rightarrow>
          (case open_image f of None \<Rightarrow> Inl ValueError | Some t \<Rightarrow> expectFramebuffer im t x y z None c)
      | StableScreen t z \<Rightarrow> stableScreen im z None c
      | StableRegion t x y w h z \<Rightarrow> stableRegion im x y w h z None c)"

end
