(* ===== verification/Websocket.thy ===== *)
theory Websocket
  imports Keys
begin

text \<open>
  \<open>vncdotool/websocket.py\<close>: the addresses. How a ws:// or wss:// URL is normalised, split again to connect, and shown
  in a log. \<open>urllib.parse\<close> is modelled as far as it is used; what Python's \<open>str.lower\<close> makes of other than ASCII
  characters, and what \<open>urllib\<close> accepts of a bracketed or non-ASCII host, are arguments. Tunnelling the
  stream is autobahn's.
\<close>

section \<open>urllib.parse\<close>

record url_env =
  ue_lower :: "unicode \<Rightarrow> unicode"
  ue_host_ok :: "unicode \<Rightarrow> bool"

text \<open>\<open>str.partition\<close>: what is before the separator and, if there is one, what is after it.\<close>

fun partition_at :: "unicode \<Rightarrow> unicode \<Rightarrow> unicode \<times> unicode option" where
  "partition_at sep [] = ([], if sep = [] then Some [] else None)"
| "partition_at sep (p # ps) =
     (if take (length sep) (p # ps) = sep then ([], Some (drop (length sep) (p # ps)))
      else (case partition_at sep ps of (before, after) \<Rightarrow> (p # before, after)))"

definition before :: "nat \<Rightarrow> unicode \<Rightarrow> unicode" where
  "before p s = takeWhile (\<lambda>q. q \<noteq> p) s"

definition after :: "nat \<Rightarrow> unicode \<Rightarrow> unicode" where
  "after p s = drop 1 (dropWhile (\<lambda>q. q \<noteq> p) s)"

definition after_last :: "nat \<Rightarrow> unicode \<Rightarrow> unicode" where
  "after_last p s = rev (before p (rev s))"

definition lower_ascii :: "unicode \<Rightarrow> unicode" where
  "lower_ascii = map (\<lambda>p. if 65 \<le> p \<and> p \<le> 90 then p + 32 else p)"

definition ascii :: "unicode \<Rightarrow> bool" where
  "ascii s \<longleftrightarrow> list_all (\<lambda>p. p < 128) s"

definition lower_text :: "url_env \<Rightarrow> unicode \<Rightarrow> unicode" where
  "lower_text env s = (if ascii s then lower_ascii s else ue_lower env s)"

definition letter :: "nat \<Rightarrow> bool" where
  "letter p \<longleftrightarrow> 65 \<le> p \<and> p \<le> 90 \<or> 97 \<le> p \<and> p \<le> 122"

definition digit :: "nat \<Rightarrow> bool" where
  "digit p \<longleftrightarrow> 48 \<le> p \<and> p \<le> 57"

definition scheme_char :: "nat \<Rightarrow> bool" where
  "scheme_char p \<longleftrightarrow> letter p \<or> digit p \<or> p \<in> {43, 45, 46}"

record split_result =
  us_scheme :: unicode
  us_netloc :: unicode
  us_path :: unicode
  us_query :: unicode

definition clean_url :: "unicode \<Rightarrow> unicode" where
  "clean_url url = filter (\<lambda>p. p \<notin> {9, 10, 13}) (dropWhile (\<lambda>p. p \<le> 32) url)"

definition split_scheme :: "unicode \<Rightarrow> unicode \<times> unicode" where
  "split_scheme url =
     (let s = before 58 url
      in if 58 \<in> set url \<and> s \<noteq> [] \<and> letter (hd s) \<and> list_all scheme_char s
         then (lower_ascii s, after 58 url) else ([], url))"

definition netloc_end :: "nat \<Rightarrow> bool" where
  "netloc_end p \<longleftrightarrow> p \<in> {47, 63, 35}"

definition split_netloc :: "unicode \<Rightarrow> unicode \<times> unicode" where
  "split_netloc url =
     (if take 2 url = [47, 47]
      then (takeWhile (\<lambda>p. \<not> netloc_end p) (drop 2 url), dropWhile (\<lambda>p. \<not> netloc_end p) (drop 2 url))
      else ([], url))"

definition netloc_ok :: "url_env \<Rightarrow> unicode \<Rightarrow> bool" where
  "netloc_ok env netloc \<longleftrightarrow> (91 \<in> set netloc) = (93 \<in> set netloc) \<and>
     (if ascii netloc \<and> 91 \<notin> set netloc then True else ue_host_ok env netloc)"

text \<open>\<open>urlsplit\<close>, its fragment dropped.\<close>

definition urlsplit :: "url_env \<Rightarrow> unicode \<Rightarrow> exn + split_result" where
  "urlsplit env s =
     (case split_scheme (clean_url s) of (scheme, u1) \<Rightarrow>
      (case split_netloc u1 of (netloc, u2) \<Rightarrow>
         if netloc_ok env netloc
         then Inr \<lparr>us_scheme = scheme, us_netloc = netloc, us_path = before 63 (before 35 u2),
                us_query = after 63 (before 35 u2)\<rparr>
         else Inl ValueError))"

definition hostinfo :: "unicode \<Rightarrow> unicode \<times> unicode" where
  "hostinfo netloc =
     (let info = after_last 64 netloc
      in if 91 \<in> set info
         then (before 93 (after 91 info), after 58 (after 93 (after 91 info)))
         else (before 58 info, after 58 info))"

definition hostname :: "url_env \<Rightarrow> split_result \<Rightarrow> unicode option" where
  "hostname env parts =
     (let h = fst (hostinfo (us_netloc parts))
      in if h = [] then None
         else Some (lower_text env (before 37 h) @ dropWhile (\<lambda>p. p \<noteq> 37) h))"

definition number :: "unicode \<Rightarrow> nat" where
  "number ds = foldl (\<lambda>n p. 10 * n + (p - 48)) 0 ds"

definition url_port :: "split_result \<Rightarrow> exn + nat option" where
  "url_port parts =
     (let p = snd (hostinfo (us_netloc parts))
      in if p = [] then Inr None
         else if list_all digit p \<and> number p \<le> 65535 then Inr (Some (number p))
         else Inl ValueError)"

text \<open>\<open>urlunsplit\<close> for a scheme that has a netloc, as ws and wss do.\<close>

definition urlunsplit :: "unicode \<Rightarrow> unicode \<Rightarrow> unicode \<Rightarrow> unicode \<Rightarrow> unicode" where
  "urlunsplit scheme netloc path query =
     scheme @ [58, 47, 47] @ netloc @ (if path \<noteq> [] \<and> hd path \<noteq> 47 then 47 # path else path) @
     (if query \<noteq> [] then 63 # query else [])"

section \<open>Addresses\<close>

definition DEFAULT_PORTS :: "(unicode \<times> nat) list" where
  "DEFAULT_PORTS = [(uni ''ws'', 80), (uni ''wss'', 443)]"

definition is_websocket_url :: "unicode \<Rightarrow> bool" where
  "is_websocket_url server =
     (case partition_at (uni ''://'') server of (scheme, rest) \<Rightarrow>
        rest \<noteq> None \<and> lower_ascii scheme \<in> set (map fst DEFAULT_PORTS))"

text \<open>\<open>parts.port or DEFAULT_PORTS[scheme]\<close>.\<close>

definition port_of :: "nat option \<Rightarrow> nat \<Rightarrow> nat" where
  "port_of given dflt = (case given of None \<Rightarrow> dflt | Some p \<Rightarrow> if p = 0 then dflt else p)"

definition parse_url :: "url_env \<Rightarrow> unicode \<Rightarrow> exn + unicode \<times> nat" where
  "parse_url env server =
     (case urlsplit env server of
        Inl e \<Rightarrow> Inl e
      | Inr parts \<Rightarrow>
          (case map_of DEFAULT_PORTS (us_scheme parts) of
             None \<Rightarrow> Inl ValueError
           | Some dflt \<Rightarrow>
               (case hostname env parts of
                  None \<Rightarrow> Inl ValueError
                | Some host \<Rightarrow>
                    (case url_port parts of
                       Inl e \<Rightarrow> Inl e
                     | Inr given \<Rightarrow>
                         (let port = port_of given dflt;
                              path = (if us_path parts = [] then [47] else us_path parts)
                          in Inr (urlunsplit (us_scheme parts) (host @ 58 # dec_text port) path (us_query parts), port))))))"

definition http_origin :: "url_env \<Rightarrow> unicode \<Rightarrow> exn + unicode" where
  "http_origin env url =
     (case urlsplit env url of
        Inl e \<Rightarrow> Inl e
      | Inr parts \<Rightarrow>
          (case map_of [(uni ''ws'', uni ''http''), (uni ''wss'', uni ''https'')] (us_scheme parts) of
             None \<Rightarrow> Inl KeyError
           | Some scheme \<Rightarrow> Inr (scheme @ [58, 47, 47] @ us_netloc parts)))"

definition redact :: "url_env \<Rightarrow> unicode \<Rightarrow> exn + unicode" where
  "redact env address =
     (if \<not> is_websocket_url address then Inr address
      else
        (case urlsplit env address of
           Inl e \<Rightarrow> Inl e
         | Inr parts \<Rightarrow>
             Inr (urlunsplit (us_scheme parts) (us_netloc parts) (us_path parts) [] @
               (if us_query parts \<noteq> [] then uni ''?<redacted>'' else []))))"

text \<open>\<open>connect\<close>: the host and the port that are dialled, and whether with TLS.\<close>

definition ws_endpoint :: "url_env \<Rightarrow> unicode \<Rightarrow> exn + unicode \<times> nat \<times> bool" where
  "ws_endpoint env url =
     (case urlsplit env url of
        Inl e \<Rightarrow> Inl e
      | Inr parts \<Rightarrow>
          (case hostname env parts of
             None \<Rightarrow> Inl AssertionError
           | Some host \<Rightarrow>
               (case url_port parts of
                  Inl e \<Rightarrow> Inl e
                | Inr (Some p) \<Rightarrow>
                    if p \<noteq> 0 then Inr (host, p, us_scheme parts = uni ''wss'')
                    else (case map_of DEFAULT_PORTS (us_scheme parts) of
                            None \<Rightarrow> Inl KeyError | Some d \<Rightarrow> Inr (host, d, us_scheme parts = uni ''wss''))
                | Inr None \<Rightarrow>
                    (case map_of DEFAULT_PORTS (us_scheme parts) of
                       None \<Rightarrow> Inl KeyError | Some d \<Rightarrow> Inr (host, d, us_scheme parts = uni ''wss'')))))"

section \<open>Lemmas on splitting\<close>

lemma before_after [simp]:
  "p \<notin> set a \<Longrightarrow> before p (a @ p # b) = a"
  "p \<notin> set a \<Longrightarrow> after p (a @ p # b) = b"
  "p \<notin> set a \<Longrightarrow> before p a = a"
  "p \<notin> set a \<Longrightarrow> after p a = []"
  by (induction a) (auto simp: before_def after_def)

lemma before_notin [simp]: "p \<notin> set (before p a)"
  by (auto simp: before_def dest: set_takeWhileD)

lemma set_before: "set (before p a) \<subseteq> set a"
  by (auto simp: before_def dest: set_takeWhileD)

lemma set_after: "set (after p a) \<subseteq> set a"
  by (auto simp: after_def dest: in_set_dropD set_dropWhileD)

lemma after_last_notin [simp]: "p \<notin> set a \<Longrightarrow> after_last p a = a"
  by (simp add: after_last_def)

lemma after_last_props: "p \<notin> set (after_last p a)" "set (after_last p a) \<subseteq> set a"
  using set_before [of p "rev a"] by (auto simp: after_last_def)

lemma lower_ascii_special: "p \<in> set (lower_ascii s) \<Longrightarrow> \<not> letter p \<Longrightarrow> p \<in> set s"
  by (auto simp: lower_ascii_def letter_def split: if_splits)

lemma lower_ascii_idem [simp]: "lower_ascii (lower_ascii s) = lower_ascii s"
  by (auto simp: lower_ascii_def)

lemma ascii_lower_ascii [simp]: "ascii (lower_ascii s) = ascii s"
  by (auto simp: ascii_def lower_ascii_def list_all_iff)

section \<open>Decimal numbers\<close>

lemma number_snoc: "number (ds @ [d]) = 10 * number ds + (d - 48)"
  by (simp add: number_def)

lemma decimal_digit: "n < 10 \<Longrightarrow> of_char (digit_char n) = 48 + n"
  by (simp add: digit_char_def take_bit_nat_eq_self)

lemma dec_text_reads: "number (dec_text n) = n \<and> list_all digit (dec_text n) \<and> dec_text n \<noteq> []"
proof (induction n rule: less_induct)
  case (less n)
  show ?case
  proof (cases "n < 10")
    case True
    then show ?thesis
      by (simp add: dec_text_def uni_def show_base.simps [of 10 n] decimal_digit number_def digit_def)
  next
    case False
    have step: "dec_text n = dec_text (n div 10) @ [48 + n mod 10]"
      using False by (simp add: dec_text_def uni_def show_base.simps [of 10 n] decimal_digit)
    have "n div 10 < n" using False by simp
    then show ?thesis using less.IH [of "n div 10"] by (simp add: step number_snoc digit_def)
  qed
qed

section \<open>A normal address\<close>

text \<open>Characters that survive cleaning.\<close>

definition kept :: "nat \<Rightarrow> bool" where
  "kept p \<longleftrightarrow> p \<notin> {9, 10, 13}"

lemma set_clean: "p \<in> set (clean_url s) \<Longrightarrow> kept p \<and> p \<in> set s"
  by (auto simp: clean_url_def kept_def dest: set_dropWhileD)

text \<open>A URL put together of a scheme, a netloc, a path and a query in order is split into them again.\<close>

lemma split_scheme_built:
  "scheme \<in> set (map fst DEFAULT_PORTS) \<Longrightarrow> split_scheme (scheme @ 58 # u) = (scheme, u)"
  by (auto simp: split_scheme_def DEFAULT_PORTS_def uni_def lower_ascii_def letter_def scheme_char_def before_def after_def)

lemma split_netloc_built:
  assumes "list_all (\<lambda>p. \<not> netloc_end p) netloc" "netloc_end p"
  shows "split_netloc (47 # 47 # netloc @ p # rest) = (netloc, p # rest)"
  using assms by (simp add: split_netloc_def list_all_iff takeWhile_append2 dropWhile_append2)

lemma scheme_kept:
  "scheme \<in> set (map fst DEFAULT_PORTS) \<Longrightarrow> list_all kept scheme \<and> scheme \<noteq> [] \<and> 32 < hd scheme"
  by (auto simp: DEFAULT_PORTS_def uni_def kept_def)

lemma urlsplit_built:
  assumes scheme: "scheme \<in> set (map fst DEFAULT_PORTS)"
    and netloc: "list_all (\<lambda>p. kept p \<and> \<not> netloc_end p) netloc" "netloc_ok env netloc"
    and path: "list_all (\<lambda>p. kept p \<and> p \<noteq> 63 \<and> p \<noteq> 35) path"
    and query: "list_all (\<lambda>p. kept p \<and> p \<noteq> 35) query"
  shows "urlsplit env (urlunsplit scheme netloc (47 # path) query) =
    Inr \<lparr>us_scheme = scheme, us_netloc = netloc, us_path = 47 # path, us_query = query\<rparr>"
proof -
  let ?tail = "47 # path @ (if query \<noteq> [] then 63 # query else [])"
  let ?url = "urlunsplit scheme netloc (47 # path) query"
  have built: "?url = scheme @ 58 # 47 # 47 # netloc @ ?tail" by (simp add: urlunsplit_def)
  have "list_all kept [58, 47, 47, 63]" by (simp add: kept_def)
  then have "list_all kept ?url"
    using scheme_kept [OF scheme] netloc(1) path query unfolding built by (auto simp: list_all_iff)
  moreover have "?url \<noteq> [] \<and> 32 < hd ?url"
    using scheme_kept [OF scheme] unfolding built by simp
  ultimately have clean: "clean_url ?url = ?url"
    by (cases ?url) (auto simp: clean_url_def list_all_iff kept_def filter_id_conv)
  have "split_netloc (47 # 47 # netloc @ ?tail) = (netloc, ?tail)"
    using netloc split_netloc_built [of netloc 47] by (simp add: list_all_iff netloc_end_def)
  moreover have "before 35 ?tail = ?tail"
    using path query by (intro before_after) (auto simp: list_all_iff)
  moreover have "before 63 ?tail = 47 # path \<and> after 63 ?tail = query"
    using path before_after(1,2) [of 63 "47 # path" query] before_after(3,4) [of 63 "47 # path"]
    by (auto simp: list_all_iff)
  moreover have "split_scheme (clean_url ?url) = (scheme, 47 # 47 # netloc @ ?tail)"
    unfolding clean unfolding built by (rule split_scheme_built [OF scheme])
  ultimately show ?thesis
    using netloc(2) by (simp add: urlsplit_def del: before_after split: if_split)
qed

text \<open>What an ASCII address without brackets is split into.\<close>

lemma split_netloc_parts:
  assumes "split_netloc u = (netloc, rest)"
  shows "set netloc \<subseteq> set u" "set rest \<subseteq> set u" "list_all (\<lambda>p. \<not> netloc_end p) netloc"
    "netloc \<noteq> [] \<Longrightarrow> rest = [] \<or> netloc_end (hd rest)"
proof -
  show "set netloc \<subseteq> set u" "set rest \<subseteq> set u" "list_all (\<lambda>p. \<not> netloc_end p) netloc"
    using assms
    by (auto simp: split_netloc_def list_all_iff dest: set_takeWhileD in_set_dropD set_dropWhileD split: if_splits)
  have "ps = [] \<or> netloc_end (hd ps)" if "ps = dropWhile (\<lambda>p. \<not> netloc_end p) v" for ps v
    using that by (induction v) auto
  moreover have "netloc \<noteq> [] \<Longrightarrow> rest = dropWhile (\<lambda>p. \<not> netloc_end p) (drop 2 u)"
    using assms by (auto simp: split_netloc_def split: if_splits)
  ultimately show "netloc \<noteq> [] \<Longrightarrow> rest = [] \<or> netloc_end (hd rest)" by blast
qed

lemma split_scheme_parts:
  "split_scheme u = (scheme, rest) \<Longrightarrow> set rest \<subseteq> set u"
  using set_after [of 58 u] by (auto simp: split_scheme_def Let_def split: if_splits)

lemma urlsplit_parts:
  assumes "urlsplit env s = Inr parts"
  shows "set (us_netloc parts) \<subseteq> set (clean_url s)" "list_all (\<lambda>p. \<not> netloc_end p) (us_netloc parts)"
    "netloc_ok env (us_netloc parts)"
    "list_all (\<lambda>p. kept p \<and> p \<noteq> 63 \<and> p \<noteq> 35) (us_path parts)"
    "list_all (\<lambda>p. kept p \<and> p \<noteq> 35) (us_query parts)"
    "us_netloc parts \<noteq> [] \<Longrightarrow> us_path parts = [] \<or> hd (us_path parts) = 47"
proof -
  obtain scheme u1 where sch: "split_scheme (clean_url s) = (scheme, u1)" by force
  obtain netloc u2 where net: "split_netloc u1 = (netloc, u2)" by force
  have parts: "us_netloc parts = netloc" "us_path parts = before 63 (before 35 u2)"
    "us_query parts = after 63 (before 35 u2)" "netloc_ok env netloc"
    using assms by (auto simp: urlsplit_def sch net split: if_splits)
  note sub = split_netloc_parts [OF net] split_scheme_parts [OF sch]
  have kept: "\<forall>p \<in> set u2. kept p"
    using sub(2) sub(5) set_clean [of _ s] by blast
  show "set (us_netloc parts) \<subseteq> set (clean_url s)" using sub(1) sub(5) parts(1) by blast
  show "list_all (\<lambda>p. \<not> netloc_end p) (us_netloc parts)" "netloc_ok env (us_netloc parts)"
    using sub(3) parts by simp_all
  have cut: "set (before 35 u2) \<subseteq> set u2" "35 \<notin> set (before 35 u2)"
    by (auto intro: set_before [THEN subsetD])
  show "list_all (\<lambda>p. kept p \<and> p \<noteq> 63 \<and> p \<noteq> 35) (us_path parts)"
    using cut kept set_before [of 63 "before 35 u2"] before_notin [of 63 "before 35 u2"]
    unfolding parts list_all_iff by blast
  show "list_all (\<lambda>p. kept p \<and> p \<noteq> 35) (us_query parts)"
    using cut kept set_after [of 63 "before 35 u2"] unfolding parts list_all_iff by blast
  show "us_netloc parts \<noteq> [] \<Longrightarrow> us_path parts = [] \<or> hd (us_path parts) = 47"
    using sub(4) unfolding parts by (cases u2) (auto simp: before_def netloc_end_def)
qed

text \<open>The host and the port of a netloc that was put together of them.\<close>

lemma hostinfo_built:
  assumes "64 \<notin> set host" "91 \<notin> set host" "58 \<notin> set host" "list_all digit ds"
  shows "hostinfo (host @ 58 # ds) = (host, ds)"
proof -
  have "64 \<notin> set (host @ 58 # ds)" "91 \<notin> set (host @ 58 # ds)"
    using assms by (auto simp: list_all_iff digit_def)
  then show ?thesis
    using assms(3) by (simp add: hostinfo_def Let_def del: set_append set_simps)
qed

text \<open>The host of an ASCII netloc without brackets.\<close>

lemma before_hd:
  "p \<notin> set a \<Longrightarrow> b = [] \<or> hd b = p \<Longrightarrow> before p (a @ b) = a \<and> dropWhile (\<lambda>q. q \<noteq> p) (a @ b) = b"
  by (induction a) (cases b; auto simp: before_def)+

lemma hostname_plain:
  assumes "ascii (us_netloc parts)" "91 \<notin> set (us_netloc parts)" "hostname env parts = Some host"
  shows "\<forall>p \<in> set host. p \<in> set (us_netloc parts) \<or> letter p" "64 \<notin> set host" "58 \<notin> set host" "ascii host" "host \<noteq> []"
    "lower_text env (before 37 host) @ dropWhile (\<lambda>p. p \<noteq> 37) host = host"
proof -
  let ?info = "after_last 64 (us_netloc parts)"
  let ?h = "before 58 ?info"
  let ?low = "lower_ascii (before 37 ?h)" and ?zone = "dropWhile (\<lambda>p. p \<noteq> 37) ?h"
  have info: "set ?info \<subseteq> set (us_netloc parts)" "64 \<notin> set ?info"
    by (rule after_last_props)+
  have h: "set ?h \<subseteq> set (us_netloc parts)" "64 \<notin> set ?h" "58 \<notin> set ?h"
    using info set_before [of 58 ?info] by auto
  have "fst (hostinfo (us_netloc parts)) = ?h"
    using info assms(2) by (auto simp: hostinfo_def Let_def)
  moreover have "ascii (before 37 ?h)" "ascii ?h"
    using assms(1) h(1) set_before [of 37 ?h] unfolding ascii_def list_all_iff by blast+
  ultimately have host: "host = ?low @ ?zone" "?h \<noteq> []"
    using assms(3) by (auto simp: hostname_def lower_text_def Let_def split: if_splits)
  have chars: "p \<in> set ?h \<or> letter p" if "p \<in> set host" for p
    using that lower_ascii_special [of p "before 37 ?h"] set_before [of 37 ?h] set_dropWhileD [of p "\<lambda>p. p \<noteq> 37" ?h]
    unfolding host by auto
  show "\<forall>p \<in> set host. p \<in> set (us_netloc parts) \<or> letter p" using chars h(1) by blast
  show "64 \<notin> set host" "58 \<notin> set host"
    using chars [of 64] chars [of 58] h(2,3) by (auto simp: letter_def)
  show "ascii host"
    using chars \<open>ascii ?h\<close> unfolding ascii_def list_all_iff letter_def by fastforce
  show "host \<noteq> []"
  proof -
    have "length host = length (before 37 ?h @ ?zone)" by (simp add: host(1) lower_ascii_def)
    also have "before 37 ?h @ ?zone = ?h" by (simp add: before_def)
    finally show ?thesis using host(2) by auto
  qed
  have low: "37 \<notin> set ?low"
    using lower_ascii_special [of 37 "before 37 ?h"] by (auto simp: letter_def)
  have "?zone = [] \<or> hd ?zone = 37"
    using hd_dropWhile [of "\<lambda>p. p \<noteq> 37" ?h] by auto
  then have "before 37 host = ?low \<and> dropWhile (\<lambda>p. p \<noteq> 37) host = ?zone"
    unfolding host(1) by (rule before_hd [OF low])
  then show "lower_text env (before 37 host) @ dropWhile (\<lambda>p. p \<noteq> 37) host = host"
    using \<open>ascii (before 37 ?h)\<close> by (simp add: lower_text_def host(1))
qed

lemma partition_built:
  "scheme \<in> set (map fst DEFAULT_PORTS) \<Longrightarrow> is_websocket_url (scheme @ 58 # 47 # 47 # rest)"
  by (auto simp: is_websocket_url_def DEFAULT_PORTS_def uni_def lower_ascii_def)


lemma dec_text_6080: "dec_text 6080 = uni ''6080''"
  by (simp add: dec_text_def uni_def show_base.simps digit_char_def)

lemmas url_defs = uni_def urlsplit_def clean_url_def split_scheme_def before_def after_def after_last_def letter_def
  digit_def scheme_char_def lower_ascii_def lower_text_def ascii_def split_netloc_def netloc_end_def netloc_ok_def
  DEFAULT_PORTS_def hostinfo_def hostname_def number_def url_port_def port_of_def urlunsplit_def dec_text_6080 Let_def


text \<open>An IPv6 host loses its brackets, and then no host is found in the URL that is dialled.\<close>

lemma ipv6_url_not_dialled:
  "parse_url \<lparr>ue_lower = id, ue_host_ok = (\<lambda>_. True)\<rparr> (uni ''ws://[::1]:6080/'') = Inr (uni ''ws://::1:6080/'', 6080)"
  "ws_endpoint \<lparr>ue_lower = id, ue_host_ok = (\<lambda>_. True)\<rparr> (uni ''ws://::1:6080/'') = Inl AssertionError"
  by (simp_all add: parse_url_def ws_endpoint_def url_defs)

section \<open>Secrets in addresses\<close>

lemma partition_at_first: "58 \<notin> set a \<Longrightarrow> partition_at (58 # sep) (a @ 58 # sep @ b) = (a, Some b)"
  by (induction a) auto

lemma before_past: "p \<notin> set a \<Longrightarrow> before p (a @ b) = a @ before p b"
  by (induction a) (auto simp: before_def)

lemma while_append:
  "\<not> P q \<Longrightarrow> takeWhile P (a @ q # b) = takeWhile P a"
  "\<not> P q \<Longrightarrow> dropWhile P (a @ q # b) = dropWhile P a @ q # b"
  by (induction a) auto

lemma websocket_scheme:
  assumes "lower_ascii scheme \<in> set (map fst DEFAULT_PORTS)"
  shows "scheme \<noteq> [] \<and> list_all letter scheme"
proof -
  have "list_all letter (lower_ascii scheme)" "lower_ascii scheme \<noteq> []"
    using assms by (auto simp: DEFAULT_PORTS_def uni_def letter_def)
  then show ?thesis
    by (auto simp: lower_ascii_def list_all_iff letter_def split: if_splits)
qed

lemma redact_form:
  assumes scheme: "lower_ascii scheme \<in> set (map fst DEFAULT_PORTS)"
    and rest: "63 \<notin> set rest" "35 \<notin> set rest" and p: "kept p" "p \<noteq> 35"
  shows "redact env (scheme @ uni ''://'' @ rest @ 63 # p # secret) =
    (let r = filter kept rest; netloc = takeWhile (\<lambda>p. \<not> netloc_end p) r
     in if netloc_ok env netloc
        then Inr (urlunsplit (lower_ascii scheme) netloc (dropWhile (\<lambda>p. \<not> netloc_end p) r) [] @ uni ''?<redacted>'')
        else Inl ValueError)"
proof -
  let ?url = "scheme @ uni ''://'' @ rest @ 63 # p # secret"
  let ?r = "filter kept rest" and ?s = "filter kept secret"
  let ?d = "dropWhile (\<lambda>p. \<not> netloc_end p) ?r" and ?n = "takeWhile (\<lambda>p. \<not> netloc_end p) ?r"
  have letters: "scheme \<noteq> []" "list_all letter scheme" using websocket_scheme [OF scheme] by auto
  then have plain: "58 \<notin> set scheme" "filter kept scheme = scheme" "32 < hd scheme" "letter (hd scheme)"
    "list_all scheme_char scheme"
    by (cases scheme; auto simp: list_all_iff letter_def kept_def scheme_char_def filter_id_conv)+
  have "is_websocket_url ?url"
    using scheme partition_at_first [OF plain(1), of "[47, 47]" "rest @ 63 # p # secret"]
    by (simp add: is_websocket_url_def uni_def)
  moreover have clean: "clean_url ?url = scheme @ 58 # 47 # 47 # ?r @ 63 # p # ?s"
  proof -
    have "dropWhile (\<lambda>p. p \<le> 32) ?url = ?url" using letters(1) plain(3) by (cases scheme) auto
    then show ?thesis
      using plain(2) p(1) by (simp add: clean_url_def kept_def [abs_def] uni_def)
  qed
  have "split_scheme (clean_url ?url) = (lower_ascii scheme, 47 # 47 # ?r @ 63 # p # ?s)"
    using letters(1) plain unfolding clean by (simp add: split_scheme_def)
  moreover have "split_netloc (47 # 47 # ?r @ 63 # p # ?s) = (?n, ?d @ 63 # p # ?s)"
    by (simp add: split_netloc_def while_append netloc_end_def)
  moreover have d: "63 \<notin> set ?d" "35 \<notin> set ?d"
    using rest by (auto dest!: set_dropWhileD)
  have "before 35 (?d @ 63 # p # ?s) = ?d @ 63 # p # before 35 ?s"
    using p(2) by (simp add: before_past [OF d(2)]) (simp add: before_def)
  ultimately show ?thesis
    using d(1) by (simp add: redact_def urlsplit_def Let_def)
qed

text \<open>
  an address in a log does not show what its query carries. Two websocket addresses that differ in their queries
  only are redacted to the same text, or refused alike, whatever the queries are, a password in them included.
\<close>

theorem redact_hides_query:
  assumes "lower_ascii scheme \<in> set (map fst DEFAULT_PORTS)" "63 \<notin> set rest" "35 \<notin> set rest"
    and "kept p" "p \<noteq> 35" "kept q" "q \<noteq> 35"
  shows "redact env (scheme @ uni ''://'' @ rest @ 63 # p # secret) =
    redact env (scheme @ uni ''://'' @ rest @ 63 # q # other)"
  using assms by (simp add: redact_form)

lemma redact_hides_query_witness:
  "redact \<lparr>ue_lower = id, ue_host_ok = (\<lambda>_. True)\<rparr> (uni ''wss'' @ uni ''://'' @ uni ''host/vnc'' @ 63 # 112 # uni ''assword=secret'') =
   redact \<lparr>ue_lower = id, ue_host_ok = (\<lambda>_. True)\<rparr> (uni ''wss'' @ uni ''://'' @ uni ''host/vnc'' @ 63 # 120 # [])"
  by (rule redact_hides_query) (simp_all add: DEFAULT_PORTS_def uni_def lower_ascii_def kept_def)

end
