(* ===== verification/CommandLine.thy ===== *)
theory CommandLine
  imports Command Websocket
begin

text \<open>
  \<open>vncdotool/command.py\<close>, around the scripts: the server's address, the options and the checks they go through, the
  arguments a replay runs with, and the exit status. \<open>parser.error\<close> is the left side of the results.
\<close>

section \<open>The exit status\<close>

datatype exit_status =
    SUCCESS | ERROR | USAGE | AUTHENTICATION_FAILED | CONNECTION_FAILED | CONNECTION_LOST
  | PROTOCOL_ERROR | COMMAND_FAILED | TIMEOUT

definition exit_code :: "exit_status \<Rightarrow> int" where
  "exit_code s = (case s of SUCCESS \<Rightarrow> 0 | ERROR \<Rightarrow> 1 | USAGE \<Rightarrow> 2 | AUTHENTICATION_FAILED \<Rightarrow> 3
     | CONNECTION_FAILED \<Rightarrow> 10 | CONNECTION_LOST \<Rightarrow> 11 | PROTOCOL_ERROR \<Rightarrow> 20 | COMMAND_FAILED \<Rightarrow> 30 | TIMEOUT \<Rightarrow> 40)"

text \<open>What a \<open>Failure\<close> may be checked for; anything else is \<open>OtherFailure\<close>.\<close>

datatype failure_kind =
    AuthenticationFailure | ProtocolFailure | TimeoutFailure | ConnectFailure | DNSLookupFailure
  | ConnectionClosedFailure | OtherFailure

definition EXIT_STATUS_FOR_ERROR :: "(failure_kind \<times> exit_status) list" where
  "EXIT_STATUS_FOR_ERROR =
     [(AuthenticationFailure, AUTHENTICATION_FAILED), (ProtocolFailure, PROTOCOL_ERROR), (TimeoutFailure, TIMEOUT),
      (ConnectFailure, CONNECTION_FAILED), (DNSLookupFailure, CONNECTION_FAILED),
      (ConnectionClosedFailure, CONNECTION_LOST)]"

definition status_for :: "failure_kind \<Rightarrow> exit_status \<Rightarrow> exit_status" where
  "status_for reason dflt =
     (case map_of EXIT_STATUS_FOR_ERROR reason of None \<Rightarrow> dflt | Some status \<Rightarrow> status)"

text \<open>\<open>reactor.exit_status\<close> and whether the reactor was told to stop.\<close>

record cli_run =
  cli_status :: "exit_status option"
  cli_stopping :: bool

definition cli_done :: "exit_status \<Rightarrow> cli_run \<Rightarrow> cli_run" where
  "cli_done code r =
     (if cli_status r \<noteq> None then r else r\<lparr>cli_status := Some code, cli_stopping := True\<rparr>)"

definition cli_error :: "failure_kind \<Rightarrow> exit_status \<Rightarrow> cli_run \<Rightarrow> cli_run" where
  "cli_error reason dflt r = (if cli_status r \<noteq> None then r else cli_done (status_for reason dflt) r)"

text \<open>\<open>clientConnectionLost\<close>, \<open>clientConnectionFailed\<close>, a command's failure, the time-out and the last callback.\<close>

datatype cli_event =
    ConnectionLost failure_kind
  | ConnectionFailed failure_kind
  | CommandError failure_kind
  | TimedOut
  | Finished

definition cli_step :: "cli_event \<Rightarrow> cli_run \<Rightarrow> cli_run" where
  "cli_step ev r =
     (case ev of
        ConnectionLost reason \<Rightarrow> cli_error reason CONNECTION_LOST r
      | ConnectionFailed reason \<Rightarrow> cli_error reason CONNECTION_FAILED r
      | CommandError reason \<Rightarrow> cli_error reason COMMAND_FAILED r
      | TimedOut \<Rightarrow> cli_error TimeoutFailure COMMAND_FAILED r
      | Finished \<Rightarrow> cli_done SUCCESS r)"

text \<open>\<open>sys.exit(ERROR if reactor.exit_status is None else reactor.exit_status)\<close>.\<close>

definition vncdo_exit :: "cli_run \<Rightarrow> int" where
  "vncdo_exit r = (case cli_status r of None \<Rightarrow> exit_code ERROR | Some s \<Rightarrow> exit_code s)"

section \<open>The server's address\<close>

datatype family = FamWebsocket | FamUnspec | FamInet | FamInet6 | FamUnix

text \<open>What \<open>urllib\<close> and \<open>ipaddress\<close> make of hosts, \<open>int\<close>, and the file system.\<close>

record address_env =
  ae_url :: url_env
  ae_ipv4 :: "unicode \<Rightarrow> bool"
  ae_ipv6 :: "unicode \<Rightarrow> bool"
  ae_exists :: "unicode \<Rightarrow> bool"
  ae_has_unix :: bool
  ae_int :: "unicode \<Rightarrow> int option"

definition server_port :: "address_env \<Rightarrow> unicode list \<Rightarrow> int option" where
  "server_port env parts =
     (if length parts = 3 then ae_int env (parts ! 2)
      else if length parts = 2 then map_option (\<lambda>n. n + 5900) (ae_int env (parts ! 1))
      else if length parts = 1 then Some 5900
      else None)"

text \<open>None is a \<open>ValueError\<close>; the address of an IPv6 server stands in brackets.\<close>

definition parse_server :: "address_env \<Rightarrow> unicode \<Rightarrow> (family \<times> unicode \<times> int) option" where
  "parse_server env server =
     (if is_websocket_url server
      then (case parse_url (ae_url env) server of Inl e \<Rightarrow> None | Inr (url, port) \<Rightarrow> Some (FamWebsocket, url, int port))
      else if take 1 server = uni ''[''
      then
        (let inner = drop 1 server
         in if 93 \<notin> set inner \<or> \<not> ae_ipv6 env (before 93 inner) then None
            else map_option (\<lambda>port. (FamInet6, before 93 inner, port)) (server_port env (split_on 58 (after 93 inner))))
      else
        (let parts = split_on 58 server;
             host = (if parts ! 0 = [] then uni ''127.0.0.1'' else parts ! 0);
             fam = (if ae_has_unix env \<and> ae_exists env host then FamUnix
                    else if ae_ipv4 env host then FamInet else FamUnspec)
         in map_option (\<lambda>port. (fam, host, port)) (server_port env parts)))"

text \<open>The address as the log shows it.\<close>

definition format_address :: "url_env \<Rightarrow> unicode \<Rightarrow> unicode \<Rightarrow> exn + unicode" where
  "format_address env host port =
     (if is_websocket_url host then redact env host else Inr (host @ 58 # port))"

text \<open>\<open>factory_connect\<close>: what is dialled, and the name a certificate has to be issued for.\<close>

datatype dial = DialWebsocket unicode | DialHost unicode int | DialUnix unicode

definition factory_connect :: "family \<Rightarrow> unicode \<Rightarrow> int \<Rightarrow> dial \<times> unicode option" where
  "factory_connect fam host port =
     (case fam of
        FamWebsocket \<Rightarrow> (DialWebsocket host, None)
      | FamUnix \<Rightarrow> (DialUnix host, None)
      | _ \<Rightarrow> (DialHost host port, Some host))"

definition trailing_args :: "unicode list \<Rightarrow> unicode list" where
  "trailing_args args = (if args \<noteq> [] \<and> hd args = uni ''--'' then tl args else args)"

section \<open>Options\<close>

datatype usage_error =
    NoCommand | NoArchive | BadArchive unicode | NoSession | CommandsForServer
  | FlagsContradict | CursorContradicts cursor_mode unicode
  | UnknownEncoding unicode | BadJpegQuality int | JpegNeedsTight | BadFuzzOption int | BadBlur int
  | WebsocketServer | FilePerClientOneShot | OutputImplied | TargetRefused target_error
  | UnsafeNeedsCapture | WrongArguments | NotADirectory

definition resolve_cursor_mode :: "cursor_mode option \<Rightarrow> bool \<Rightarrow> bool \<Rightarrow> usage_error + cursor_mode" where
  "resolve_cursor_mode cursor localcursor nocursor =
     (let asked = (if localcursor then [(uni ''--localcursor'', LOCAL)] else []) @
                  (if nocursor then [(uni ''--nocursor'', OMIT)] else [])
      in case asked of
           [] \<Rightarrow> Inr (case cursor of Some m \<Rightarrow> m | None \<Rightarrow> OMIT)
         | (flag, mode) # more_flags \<Rightarrow>
             if more_flags \<noteq> [] then Inl FlagsContradict
             else (case cursor of
                     None \<Rightarrow> Inr mode
                   | Some m \<Rightarrow> if m = mode then Inr mode else Inl (CursorContradicts m flag)))"

record vncdo_options =
  vo_cursor :: "cursor_mode option"
  vo_localcursor :: bool
  vo_nocursor :: bool
  vo_disable_desktop_resizing :: bool
  vo_force_caps :: bool
  vo_encodings :: "unicode option"
  vo_pixel_format :: "string option"
  vo_jpeg_quality :: "int option"
  vo_fuzz :: "int option"
  vo_blur :: "int option"

record client_config =
  cc_cursor :: cursor_mode
  cc_pseudodesktop :: bool
  cc_force_caps :: bool
  cc_encodings :: "int list option"
  cc_pixel_format :: "pixel_format option"
  cc_jpeg_quality :: "nat option"
  cc_fuzz :: "int option"
  cc_blur :: int

definition LOSSY_BLUR :: int where "LOSSY_BLUR = 2"

text \<open>\<open>str.strip\<close> of the ASCII blanks.\<close>

definition strip_text :: "unicode \<Rightarrow> unicode" where
  "strip_text s =
     (let blank = (\<lambda>p. p = 32 \<or> 9 \<le> p \<and> p \<le> 13 \<or> 28 \<le> p \<and> p \<le> 31)
      in rev (dropWhile blank (rev (dropWhile blank s))))"

definition encoding_named :: "unicode \<Rightarrow> int option" where
  "encoding_named name = map_of (map (\<lambda>(n, v). (uni n, v)) encoding_names) name"

fun encodings_named :: "unicode list \<Rightarrow> usage_error + int list" where
  "encodings_named [] = Inr []"
| "encodings_named (n # ns) =
     (case encoding_named (strip_text n) of
        None \<Rightarrow> Inl (UnknownEncoding (strip_text n))
      | Some v \<Rightarrow> (case encodings_named ns of Inl e \<Rightarrow> Inl e | Inr vs \<Rightarrow> Inr (v # vs)))"

definition chosen_encodings :: "unicode option \<Rightarrow> usage_error + int list option" where
  "chosen_encodings given =
     (case given of
        None \<Rightarrow> Inr None
      | Some s \<Rightarrow>
          if s = [] then Inr None
          else (case encodings_named (split_on 44 s) of Inl e \<Rightarrow> Inl e | Inr vs \<Rightarrow> Inr (Some vs)))"

definition chosen_jpeg :: "int list option \<Rightarrow> int option \<Rightarrow> usage_error + nat option" where
  "chosen_jpeg encodings level =
     (case level of
        None \<Rightarrow> Inr None
      | Some q \<Rightarrow>
          if \<not> (0 \<le> q \<and> q < int (length jpeg_quality_encodings)) then Inl (BadJpegQuality q)
          else if TIGHT \<notin> set (case encodings of
                 None \<Rightarrow> default_encodings | Some es \<Rightarrow> if es = [] then default_encodings else es)
          then Inl JpegNeedsTight
          else Inr (Some (nat q)))"

definition chosen_fuzz :: "int option \<Rightarrow> usage_error + int option" where
  "chosen_fuzz f =
     (case f of None \<Rightarrow> Inr None | Some n \<Rightarrow> if 0 \<le> n \<and> n \<le> 255 then Inr (Some n) else Inl (BadFuzzOption n))"

definition chosen_blur :: "int option \<Rightarrow> int option \<Rightarrow> usage_error + int" where
  "chosen_blur jpeg_quality b =
     (case b of
        None \<Rightarrow> Inr (if jpeg_quality \<noteq> None then LOSSY_BLUR else 0)
      | Some n \<Rightarrow> if n < 0 then Inl (BadBlur n) else Inr n)"

text \<open>From \<open>resolve_cursor_mode\<close> to the blur, in the order in which the errors are reported.\<close>

definition configure :: "vncdo_options \<Rightarrow> usage_error + client_config" where
  "configure opts =
     (case resolve_cursor_mode (vo_cursor opts) (vo_localcursor opts) (vo_nocursor opts) of
        Inl e \<Rightarrow> Inl e
      | Inr cursor \<Rightarrow>
      (case chosen_encodings (vo_encodings opts) of
        Inl e \<Rightarrow> Inl e
      | Inr encodings \<Rightarrow>
      (case chosen_jpeg encodings (vo_jpeg_quality opts) of
        Inl e \<Rightarrow> Inl e
      | Inr jpeg \<Rightarrow>
      (case chosen_fuzz (vo_fuzz opts) of
        Inl e \<Rightarrow> Inl e
      | Inr fuzz \<Rightarrow>
      (case chosen_blur (vo_jpeg_quality opts) (vo_blur opts) of
        Inl e \<Rightarrow> Inl e
      | Inr blur \<Rightarrow>
          Inr \<lparr>cc_cursor = cursor, cc_pseudodesktop = \<not> vo_disable_desktop_resizing opts,
            cc_force_caps = vo_force_caps opts, cc_encodings = encodings,
            cc_pixel_format = (case vo_pixel_format opts of None \<Rightarrow> None | Some n \<Rightarrow> map_of pixel_formats n),
            cc_jpeg_quality = jpeg, cc_fuzz = fuzz, cc_blur = blur\<rparr>)))))"

text \<open>\<open>buildProtocol\<close>: the client a factory with this configuration makes.\<close>

definition build_client ::
  "('i, 'k) imaging \<Rightarrow> 'z externals \<Rightarrow> client_config \<Rightarrow> ('z, 'i, 'k) vnc_state" where
  "build_client im ex cfg =
     (vnc_init im ex)\<lparr>vc_requested_encodings := cc_encodings cfg, vc_requested_pixfmt := cc_pixel_format cfg,
       vc_requested_jpeg := cc_jpeg_quality cfg, vc_fuzz := cc_fuzz cfg, vc_blur := cc_blur cfg,
       fac_cursor := cc_cursor cfg, fac_pseudodesktop := cc_pseudodesktop cfg, fac_force_caps := cc_force_caps cfg\<rparr>"

section \<open>The library\<close>

text \<open>\<open>CursorMode(cursor)\<close>, and \<open>api.connect\<close>: a factory with its defaults and the cursor that is asked for, and what it dials.\<close>

definition cursor_named :: "unicode \<Rightarrow> exn + cursor_mode" where
  "cursor_named name =
     (if name = uni ''none'' then Inr OMIT
      else if name = uni ''server'' then Inr SERVER
      else if name = uni ''local'' then Inr LOCAL
      else Inl ValueError)"

definition factory_defaults :: client_config where
  "factory_defaults =
     \<lparr>cc_cursor = OMIT, cc_pseudodesktop = True, cc_force_caps = False, cc_encodings = None, cc_pixel_format = None,
      cc_jpeg_quality = None, cc_fuzz = None, cc_blur = 0\<rparr>"

definition api_connect :: "address_env \<Rightarrow> unicode \<Rightarrow> unicode \<Rightarrow> exn + client_config \<times> dial \<times> unicode option" where
  "api_connect env server cursor =
     (case cursor_named cursor of
        Inl e \<Rightarrow> Inl e
      | Inr mode \<Rightarrow>
          (case parse_server env server of
             None \<Rightarrow> Inl ValueError
           | Some (fam, host, port) \<Rightarrow> Inr (factory_defaults\<lparr>cc_cursor := mode\<rparr>, factory_connect fam host port)))"

section \<open>The tool\<close>

text \<open>A command list of just a dash is read from standard input; a command that cannot be parsed is a usage error.\<close>

definition tool_args :: "command_env \<Rightarrow> unicode list \<Rightarrow> exn + unicode list" where
  "tool_args env args = (if args = [[45]] then split_script (stdin_text env) else Inr args)"

definition is_parse_error :: "command_error \<Rightarrow> bool" where
  "is_parse_error e = (case e of UnsupportedFormat f \<Rightarrow> True | BadFuzz f \<Rightarrow> True | UnknownCommand c \<Rightarrow> True | _ \<Rightarrow> False)"

datatype tool_outcome = Tool "action list" | ToolExit exit_status | ToolRaises command_error

definition build_tool :: "command_env \<Rightarrow> unicode list \<Rightarrow> tool_outcome option" where
  "build_tool env args =
     (case tool_args env args of
        Inl e \<Rightarrow> Some (ToolRaises (CommandRaised e))
      | Inr ws \<Rightarrow>
          map_option (\<lambda>r. case r of
              Inl e \<Rightarrow> if is_parse_error e then ToolExit USAGE else ToolRaises e
            | Inr acts \<Rightarrow> Tool acts)
            (build_command_list env ws))"

text \<open>
  \<open>vncdo\<close> up to the reactor: the commands are parsed and the server is dialled before the options are checked.
\<close>

datatype vncdo_outcome =
    VncdoUsage usage_error
  | BadAddress unicode
  | VncdoExit exit_status
  | VncdoRaises command_error
  | Vncdo "action list" "dial \<times> unicode option" client_config

definition vncdo :: "command_env \<Rightarrow> address_env \<Rightarrow> vncdo_options \<Rightarrow> unicode \<Rightarrow> unicode list \<Rightarrow> vncdo_outcome option" where
  "vncdo env addr opts server rest =
     (let args = trailing_args rest
      in if args = [] then Some (VncdoUsage NoCommand)
         else
           (case parse_server addr server of
              None \<Rightarrow> Some (BadAddress server)
            | Some (fam, host, port) \<Rightarrow>
                map_option (\<lambda>tool. case tool of
                    ToolExit s \<Rightarrow> VncdoExit s
                  | ToolRaises e \<Rightarrow> VncdoRaises e
                  | Tool acts \<Rightarrow>
                      (case configure opts of
                         Inl e \<Rightarrow> VncdoUsage e
                       | Inr cfg \<Rightarrow> Vncdo acts (factory_connect fam host port) cfg))
                  (build_tool env args)))"

section \<open>The recorder's options\<close>

datatype 'c log_target = CaptureTo "'c list" bool | PerClient unicode | ToStdout | ToFile unicode

text \<open>
  \<open>vnclog\<close>: what it records to. The address's family, what \<open>check_capture_target\<close> says of the archive and which
  paths are directories are arguments.
\<close>

definition given :: "'a list option \<Rightarrow> 'a list option" where
  "given option = (if option = Some [] then None else option)"

definition vnclog_target ::
  "family \<Rightarrow> bool \<Rightarrow> bool \<Rightarrow> 'c list option \<Rightarrow> bool \<Rightarrow> unicode list \<Rightarrow> ('c list \<Rightarrow> target_error option) \<Rightarrow>
     (unicode \<Rightarrow> bool) \<Rightarrow> usage_error + 'c log_target" where
  "vnclog_target fam one_shot file_per_client capture_raw unsafe args check is_dir =
     (if fam = FamWebsocket then Inl WebsocketServer
      else if (one_shot \<or> given capture_raw \<noteq> None) \<and> file_per_client then Inl FilePerClientOneShot
      else
        (case given capture_raw of
           Some path \<Rightarrow>
             if args \<noteq> [] then Inl OutputImplied
             else (case check path of Some e \<Rightarrow> Inl (TargetRefused e) | None \<Rightarrow> Inr (CaptureTo path unsafe))
         | None \<Rightarrow>
             if unsafe then Inl UnsafeNeedsCapture
             else
               (case args of
                  [out] \<Rightarrow>
                    if file_per_client then (if is_dir out then Inr (PerClient out) else Inl NotADirectory)
                    else if out = [45] then Inr ToStdout
                    else Inr (ToFile out)
                | _ \<Rightarrow> Inl WrongArguments)))"

definition vnclog_one_shot :: "bool \<Rightarrow> 'c list option \<Rightarrow> bool" where
  "vnclog_one_shot one_shot capture_raw = (one_shot \<or> given capture_raw \<noteq> None)"

text \<open>
  The exit status of \<open>vnclog\<close>: one of success becomes a failure when the capture failed.
\<close>

definition vnclog_exit :: "bool \<Rightarrow> int \<Rightarrow> int" where
  "vnclog_exit capture_failed status =
     (if capture_failed \<and> status = 0 then exit_code COMMAND_FAILED else status)"

section \<open>Replaying an archive\<close>

text \<open>The arguments \<open>_replay_client\<close> hands to \<open>vncdo\<close>; \<open>script\<close> is where the recorded session was written.\<close>

definition replay_argv ::
  "unicode \<Rightarrow> unicode option \<Rightarrow> bytes \<Rightarrow> unicode \<Rightarrow> unicode list \<Rightarrow> usage_error + unicode list" where
  "replay_argv server password session_vdo script extra =
     (let recorded = (strip_blanks session_vdo \<noteq> [])
      in if \<not> recorded \<and> extra = [] then Inl NoSession
         else
           Inr ([uni ''-s'', server] @
             (case password of None \<Rightarrow> [] | Some pw \<Rightarrow> if pw = [] then [] else [uni ''-p'', pw]) @
             (if recorded then [script] else []) @ extra))"

text \<open>\<open>vncdo_replay\<close>; \<open>load\<close> is the recorded session of a capture that can be loaded.\<close>

datatype replay_mode = Serve unicode | Drive "unicode list"

definition vncdo_replay ::
  "(unicode \<Rightarrow> bytes option) \<Rightarrow> bool \<Rightarrow> unicode \<Rightarrow> unicode option \<Rightarrow> unicode \<Rightarrow> unicode list \<Rightarrow>
     usage_error + replay_mode" where
  "vncdo_replay load serve server password script args =
     (case args of
        [] \<Rightarrow> Inl NoArchive
      | archive # extra \<Rightarrow>
          (case load archive of
             None \<Rightarrow> Inl (BadArchive archive)
           | Some session_vdo \<Rightarrow>
               if serve then (if extra \<noteq> [] then Inl CommandsForServer else Inr (Serve archive))
               else (case replay_argv server password session_vdo script extra of
                       Inl e \<Rightarrow> Inl e | Inr argv \<Rightarrow> Inr (Drive argv))))"

section \<open>What the checks are for\<close>

lemma chosen_jpeg_level:
  "chosen_jpeg encodings level = Inr (Some q) \<Longrightarrow> q < length jpeg_quality_encodings"
  by (auto simp: chosen_jpeg_def split: option.splits if_splits)

text \<open>
  Options that pass the checks make a client that can offer its encodings: the level it asks for exists and
  Tight, which it applies to, is among the encodings; and a shape of the cursor is asked for unless the
  server is to paint it.
\<close>

lemma configured_client_offers:
  assumes "configure opts = Inr cfg"
  shows "\<exists>es. offered_encodings (build_client im ex cfg) = Inr es \<and>
    (PSEUDO_CURSOR \<in> set es \<or> cc_cursor cfg = SERVER) \<and> (cc_jpeg_quality cfg = None \<or> TIGHT \<in> set es)"
  using assms
  by (auto simp: configure_def offered_encodings_def build_client_def Let_def chosen_jpeg_def
      split: sum.splits option.splits if_splits)

text \<open>The status each outcome stands for, when it is the first.\<close>

definition first_status :: "cli_event \<Rightarrow> exit_status" where
  "first_status ev =
     (case ev of
        ConnectionLost reason \<Rightarrow> status_for reason CONNECTION_LOST
      | ConnectionFailed reason \<Rightarrow> status_for reason CONNECTION_FAILED
      | CommandError reason \<Rightarrow> status_for reason COMMAND_FAILED
      | TimedOut \<Rightarrow> TIMEOUT
      | Finished \<Rightarrow> SUCCESS)"

definition cli_start :: cli_run where
  "cli_start = \<lparr>cli_status = None, cli_stopping = False\<rparr>"

lemma decided_stays: "cli_status r \<noteq> None \<Longrightarrow> cli_status (fold cli_step evs r) = cli_status r"
  by (induction evs arbitrary: r)
    (auto simp: cli_step_def cli_error_def cli_done_def split: cli_event.splits)

lemma step_decides: "cli_status r = None \<Longrightarrow> cli_status (cli_step ev r) = Some (first_status ev)"
  by (auto simp: cli_step_def cli_error_def cli_done_def first_status_def status_for_def EXIT_STATUS_FOR_ERROR_def
      split: cli_event.splits)

lemma exit_code_0: "exit_code s = 0 \<longleftrightarrow> s = SUCCESS"
  by (cases s) (simp_all add: exit_code_def)

lemma status_for_failure: "dflt \<noteq> SUCCESS \<Longrightarrow> status_for reason dflt \<noteq> SUCCESS"
  by (cases reason) (simp_all add: status_for_def EXIT_STATUS_FOR_ERROR_def)

lemma success_is_finished: "exit_code (first_status ev) = 0 \<longleftrightarrow> ev = Finished"
  by (cases ev) (simp_all add: first_status_def exit_code_0 status_for_failure)

text \<open>
  C19: the first outcome decides the exit status. Whatever sequence of lost or refused connections, failed commands, a
  timeout and the last callback a run goes through, \<open>vncdo\<close> exits 0 exactly when the last callback came
  first, and otherwise with the status of the first cause; later outcomes change nothing. With no outcome
  at all it exits 1.
\<close>

theorem first_outcome_decides:
  "let status = vncdo_exit (fold cli_step evs cli_start)
   in status = (case evs of [] \<Rightarrow> 1 | ev # evs' \<Rightarrow> exit_code (first_status ev)) \<and>
      (status = 0 \<longleftrightarrow> take 1 evs = [Finished])"
proof (cases evs)
  case Nil
  then show ?thesis by (simp add: cli_start_def vncdo_exit_def exit_code_def)
next
  case (Cons ev evs2)
  have "cli_status (fold cli_step evs cli_start) = Some (first_status ev)"
    using step_decides [of cli_start ev] decided_stays [of "cli_step ev cli_start" evs2]
    by (simp add: Cons cli_start_def)
  then show ?thesis using success_is_finished [of ev] by (simp add: Cons vncdo_exit_def)
qed

end
