(* ===== verification/Options.thy ===== *)
theory Options
  imports CommandLine
begin

text \<open>
  The command lines of \<open>command.py\<close>: the options \<open>vncdo\<close>, \<open>vnclog\<close> and \<open>vncdo-replay\<close> declare, and how the standard
  library's \<open>argparse\<close> (as in CPython 3.11) reads a command line by such declarations.  Values have the type
  their declaration says; what follows the first positional argument of \<open>vncdo\<close> is left alone; and the command line
  a replay builds for \<open>vncdo\<close> is read as it was meant.
\<close>

section \<open>Declarations\<close>

datatype option_value =
    NoValue
  | Flag bool
  | Number int
  | Decimal pyfloat
  | Text unicode
  | Cursor cursor_mode

text \<open>
  \<open>action\<close>, \<open>type\<close> and \<open>choices\<close> of a declaration. \<open>Help\<close> is what \<open>ArgumentParser\<close> adds itself.
\<close>

datatype option_kind =
    StoreText
  | StoreInt
  | StoreFloat
  | StoreChoice "string list"
  | StoreCursor
  | StoreTrue
  | Count
  | Help
  | Version

record option_spec =
  os_flags :: "string list"
  os_dest :: string
  os_kind :: option_kind
  os_default :: option_value

definition opt :: "string list \<Rightarrow> string \<Rightarrow> option_kind \<Rightarrow> option_value \<Rightarrow> option_spec" where
  "opt flags dest kind dflt = \<lparr>os_flags = flags, os_dest = dest, os_kind = kind, os_default = dflt\<rparr>"

datatype positional = Remainder | ZeroOrMore

record parser =
  pa_options :: "option_spec list"
  pa_args :: positional

definition help_option :: option_spec where
  "help_option = opt [''-h'', ''--help''] ''help'' Help NoValue"

definition version_option :: option_spec where
  "version_option = opt [''--version''] ''version'' Version NoValue"

definition standard_options :: "option_spec list" where
  "standard_options =
     [opt [''-p'', ''--password''] ''password'' StoreText NoValue,
      opt [''-u'', ''--username''] ''username'' StoreText NoValue,
      opt [''-s'', ''--server''] ''server'' StoreText (Text (uni ''127.0.0.1'')),
      opt [''--logfile''] ''logfile'' StoreText NoValue,
      opt [''-v'', ''--verbose''] ''verbose'' Count (Number 0)]"

definition vnclog_parser :: parser where
  "vnclog_parser =
     \<lparr>pa_options = [help_option, version_option] @ standard_options @
        [opt [''--listen''] ''listen'' StoreInt (Number 5902),
         opt [''--file-per-client''] ''file_per_client'' StoreTrue (Flag False),
         opt [''--viewer''] ''viewer'' StoreText NoValue,
         opt [''--password-required''] ''password_required'' StoreTrue (Flag False),
         opt [''--one-shot''] ''one_shot'' StoreTrue (Flag False),
         opt [''--capture-raw''] ''capture_raw'' StoreText NoValue,
         opt [''--capture-raw-unsafe''] ''capture_raw_unsafe'' StoreTrue (Flag False)],
      pa_args = Remainder\<rparr>"

text \<open>The default of \<open>--delay\<close> is the environment's \<open>VNCDOTOOL_DELAY\<close> where that is set.\<close>

definition vncdo_parser :: "unicode option \<Rightarrow> parser" where
  "vncdo_parser environ_delay =
     \<lparr>pa_options = [help_option, version_option] @ standard_options @
        [opt [''--delay''] ''delay'' StoreInt (case environ_delay of None \<Rightarrow> Number 10 | Some s \<Rightarrow> Text s),
         opt [''--dialect''] ''dialect'' (StoreChoice [''kasmvnc'', ''standard'', ''vmware'']) (Text (uni ''standard'')),
         opt [''--force-caps''] ''force_caps'' StoreTrue (Flag False),
         opt [''--cursor''] ''cursor'' StoreCursor NoValue,
         opt [''--localcursor''] ''localcursor'' StoreTrue (Flag False),
         opt [''--nocursor''] ''nocursor'' StoreTrue (Flag False),
         opt [''--disable-desktop-resizing''] ''disable_desktop_resizing'' StoreTrue (Flag False),
         opt [''-t'', ''--timeout''] ''timeout'' StoreFloat NoValue,
         opt [''-w'', ''--warp''] ''warp'' StoreFloat (Decimal (Finite 1)),
         opt [''--encodings''] ''encodings'' StoreText NoValue,
         opt [''--pixel-format''] ''pixel_format'' (StoreChoice (map fst pixel_formats)) NoValue,
         opt [''--jpeg-quality''] ''jpeg_quality'' StoreInt NoValue,
         opt [''--fuzz''] ''fuzz'' StoreInt NoValue,
         opt [''--blur''] ''blur'' StoreInt NoValue,
         opt [''--tls-ca-cert''] ''tls_ca_cert'' StoreText NoValue,
         opt [''--tls-insecure-skip-verify''] ''tls_insecure_skip_verify'' StoreTrue (Flag False),
         opt [''-i'', ''--incremental-refreshes''] ''incremental_refreshes'' StoreTrue (Flag False)],
      pa_args = Remainder\<rparr>"

text \<open>The defaults of \<open>vncdo-replay\<close> are \<open>replay.py\<close>'s.\<close>

definition DEFAULT_PORT :: int where "DEFAULT_PORT = 5999"
definition DEFAULT_BIND :: string where "DEFAULT_BIND = ''127.0.0.1''"
definition DEFAULT_SERVER :: unicode where
  "DEFAULT_SERVER = uni DEFAULT_BIND @ uni ''::'' @ uni (show_int DEFAULT_PORT)"
definition DEFAULT_CLIENT_TIMEOUT :: real where "DEFAULT_CLIENT_TIMEOUT = 30"

definition replay_parser :: parser where
  "replay_parser =
     \<lparr>pa_options = [help_option, version_option,
         opt [''--server''] ''server'' StoreTrue (Flag False),
         opt [''-s'', ''--connect''] ''connect'' StoreText (Text DEFAULT_SERVER),
         opt [''-p'', ''--password''] ''password'' StoreText NoValue,
         opt [''--listen''] ''listen'' StoreInt (Number DEFAULT_PORT),
         opt [''--bind''] ''bind'' StoreText (Text (uni DEFAULT_BIND)),
         opt [''--client-timeout''] ''client_timeout'' StoreFloat (Decimal (Finite DEFAULT_CLIENT_TIMEOUT)),
         opt [''--forever''] ''forever'' StoreTrue (Flag False),
         opt [''-v'', ''--verbose''] ''verbose'' StoreTrue (Flag False)],
      pa_args = ZeroOrMore\<rparr>"

section \<open>Which strings are options\<close>

text \<open>\<open>\d\<close> of a regular expression is a digit of any script, which is the argument \<open>decimal\<close>.\<close>

record arg_env =
  ag_env :: command_env
  ag_digit :: "nat \<Rightarrow> bool"

text \<open>
  \<open>_parse_optional\<close>: what one string is, with the flag that was found and the argument attached to it, after an
  equals sign or directly.
\<close>

type_synonym attached = "(bool \<times> unicode) option"

datatype token =
    Plain
  | DashDash
  | Option option_spec unicode attached
  | UnknownOption

datatype arg_error =
    Ambiguous unicode
  | ExpectedArgument option_spec
  | IgnoredArgument option_spec unicode
  | InvalidValue option_spec unicode
  | InvalidChoice option_spec unicode
  | Unrecognized "unicode list"

definition all_flags :: "option_spec list \<Rightarrow> (unicode \<times> option_spec) list" where
  "all_flags specs = concat (map (\<lambda>sp. map (\<lambda>f. (uni f, sp)) (os_flags sp)) specs)"

definition starts_with :: "unicode \<Rightarrow> unicode \<Rightarrow> bool" where
  "starts_with pre s \<longleftrightarrow> take (length pre) s = pre"

text \<open>\<open>_get_option_tuples\<close>: the flags a string may abbreviate, or to which an argument is attached.\<close>

definition option_tuples :: "option_spec list \<Rightarrow> unicode \<Rightarrow> (option_spec \<times> unicode \<times> attached) list" where
  "option_tuples specs s =
     (if starts_with [45, 45] s
      then (case partition_at [61] s of (pre, explicit) \<Rightarrow>
              map (\<lambda>(f, sp). (sp, f, map_option (Pair True) explicit))
                (filter (\<lambda>(f, sp). starts_with pre f) (all_flags specs)))
      else concat (map (\<lambda>(f, sp).
              if f = take 2 s then [(sp, f, Some (False, drop 2 s))]
              else if starts_with s f then [(sp, f, None)] else []) (all_flags specs)))"

text \<open>\<open>^-\d+$|^-\d*\.\d+$\<close>, where \<open>$\<close> also matches before a line feed at the end.\<close>

definition negative_number :: "(nat \<Rightarrow> bool) \<Rightarrow> unicode \<Rightarrow> bool" where
  "negative_number decimal s =
     (let body = drop 1 s;
          t = (if body \<noteq> [] \<and> last body = 10 then butlast body else body);
          whole = takeWhile decimal t; rest = dropWhile decimal t
      in whole \<noteq> [] \<and> rest = [] \<or>
         (case rest of p # ds \<Rightarrow> p = 46 \<and> ds \<noteq> [] \<and> list_all decimal ds | [] \<Rightarrow> False))"

definition parse_optional :: "arg_env \<Rightarrow> option_spec list \<Rightarrow> unicode \<Rightarrow> arg_error + token" where
  "parse_optional env specs s =
     (if s = [] \<or> hd s \<noteq> 45 then Inr Plain
      else
        (case map_of (all_flags specs) s of
           Some sp \<Rightarrow> Inr (Option sp s None)
         | None \<Rightarrow>
             if length s = 1 then Inr Plain
             else
               (case partition_at [61] s of (pre, explicit) \<Rightarrow>
                  (case (explicit, map_of (all_flags specs) pre) of
                     (Some e, Some sp) \<Rightarrow> Inr (Option sp pre (Some (True, e)))
                   | _ \<Rightarrow>
                       (case option_tuples specs s of
                          [] \<Rightarrow> Inr (if negative_number (ag_digit env) s \<or> 32 \<in> set s then Plain else UnknownOption)
                        | [(sp, f, e)] \<Rightarrow> Inr (Option sp f e)
                        | _ \<Rightarrow> Inl (Ambiguous s))))))"

text \<open>The whole line is looked at before any of it is read, up to a double dash.\<close>

fun classify :: "arg_env \<Rightarrow> option_spec list \<Rightarrow> unicode list \<Rightarrow> arg_error + (unicode \<times> token) list" where
  "classify env specs [] = Inr []"
| "classify env specs (s # ss) =
     (if s = [45, 45] then Inr ((s, DashDash) # map (\<lambda>t. (t, Plain)) ss)
      else
        (case parse_optional env specs s of
           Inl e \<Rightarrow> Inl e
         | Inr t \<Rightarrow> (case classify env specs ss of Inl e \<Rightarrow> Inl e | Inr ts \<Rightarrow> Inr ((s, t) # ts))))"

section \<open>Reading options\<close>

definition takes_argument :: "option_kind \<Rightarrow> bool" where
  "takes_argument k \<longleftrightarrow> (case k of
     StoreText \<Rightarrow> True | StoreInt \<Rightarrow> True | StoreFloat \<Rightarrow> True | StoreChoice c \<Rightarrow> True | StoreCursor \<Rightarrow> True | _ \<Rightarrow> False)"

text \<open>
  \<open>consume_optional\<close>: the options in one string, which are several where flags of one letter are joined, each with its
  argument; whether the last one's is the next string; and what was no option.
\<close>

function cluster ::
  "option_spec list \<Rightarrow> option_spec \<Rightarrow> unicode \<Rightarrow> bool \<Rightarrow> unicode \<Rightarrow>
     arg_error + (option_spec \<times> unicode option) list \<times> option_spec option \<times> unicode list" where
  "cluster specs sp flag sep e =
     (if takes_argument (os_kind sp) then Inr ([(sp, Some e)], None, [])
      else if starts_with [45, 45] flag \<or> e = [] then Inl (IgnoredArgument sp e)
      else if sep \<or> hd e = 45 then Inl (IgnoredArgument sp e)
      else
        (let flag' = [45, hd e]; e' = tl e
         in case map_of (all_flags specs) flag' of
              None \<Rightarrow> Inr ([(sp, None)], None, [45 # e])
            | Some sp' \<Rightarrow>
                (case (if e' = [] then Inr ([], Some sp', [])
                       else if hd e' = 61 then cluster specs sp' flag' True (tl e')
                       else cluster specs sp' flag' False e') of
                   Inl err \<Rightarrow> Inl err
                 | Inr (taken, next, extras) \<Rightarrow> Inr ((sp, None) # taken, next, extras))))"
  by pat_completeness auto
termination
  by (relation "measure (\<lambda>(specs, sp, flag, sep, e). length e)") (auto simp: neq_Nil_conv)

lemmas [simp del] = cluster.simps

text \<open>The options read at the head of a line, how many strings after it they take, and what was not recognised.\<close>

definition consume_optional ::
  "option_spec list \<Rightarrow> option_spec \<Rightarrow> unicode \<Rightarrow> attached \<Rightarrow> (unicode \<times> token) list \<Rightarrow>
     arg_error + (option_spec \<times> unicode option) list \<times> nat \<times> unicode list" where
  "consume_optional specs sp flag attached rest =
     (case (case attached of None \<Rightarrow> Inr ([], Some sp, []) | Some (sep, e) \<Rightarrow> cluster specs sp flag sep e) of
        Inl err \<Rightarrow> Inl err
      | Inr (taken, None, extras) \<Rightarrow> Inr (taken, 0, extras)
      | Inr (taken, Some sp', extras) \<Rightarrow>
          if \<not> takes_argument (os_kind sp') then Inr (taken @ [(sp', None)], 0, extras)
          else
            (case rest of
               (s, Plain) # rest' \<Rightarrow> Inr (taken @ [(sp', Some s)], 1, extras)
             | _ \<Rightarrow> Inl (ExpectedArgument sp')))"

section \<open>Values\<close>

type_synonym namespace = "string \<Rightarrow> option_value"

datatype parser_stop = UsageError arg_error | Exits

definition get_value :: "arg_env \<Rightarrow> option_spec \<Rightarrow> unicode \<Rightarrow> arg_error + option_value" where
  "get_value env sp s =
     (case os_kind sp of
        StoreInt \<Rightarrow> (case parse_int (ag_env env) s of None \<Rightarrow> Inl (InvalidValue sp s) | Some n \<Rightarrow> Inr (Number n))
      | StoreFloat \<Rightarrow> (case parse_float (ag_env env) s of None \<Rightarrow> Inl (InvalidValue sp s) | Some x \<Rightarrow> Inr (Decimal x))
      | StoreCursor \<Rightarrow> (case cursor_named s of Inl e \<Rightarrow> Inl (InvalidValue sp s) | Inr m \<Rightarrow> Inr (Cursor m))
      | StoreChoice choices \<Rightarrow> if s \<in> uni ` set choices then Inr (Text s) else Inl (InvalidChoice sp s)
      | _ \<Rightarrow> Inr (Text s))"

definition count_up :: "option_value \<Rightarrow> option_value" where
  "count_up v = (case v of Number n \<Rightarrow> Number (n + 1) | _ \<Rightarrow> Number 1)"

text \<open>The actions; \<open>--help\<close> and \<open>--version\<close> print and exit.\<close>

fun take_actions ::
  "arg_env \<Rightarrow> (option_spec \<times> unicode option) list \<Rightarrow> namespace \<Rightarrow> parser_stop + namespace" where
  "take_actions env [] ns = Inr ns"
| "take_actions env ((sp, arg) # rest) ns =
     (if os_kind sp = Help \<or> os_kind sp = Version then Inl Exits
      else if os_kind sp = StoreTrue then take_actions env rest (ns(os_dest sp := Flag True))
      else if os_kind sp = Count then take_actions env rest (ns(os_dest sp := count_up (ns (os_dest sp))))
      else
        (case get_value env sp (case arg of None \<Rightarrow> [] | Some s \<Rightarrow> s) of
           Inl e \<Rightarrow> Inl (UsageError e)
         | Inr v \<Rightarrow> take_actions env rest (ns(os_dest sp := v))))"

section \<open>The command line\<close>

definition defaults :: "option_spec list \<Rightarrow> namespace" where
  "defaults specs = (\<lambda>dest. case find (\<lambda>sp. os_dest sp = dest) specs of None \<Rightarrow> NoValue | Some sp \<Rightarrow> os_default sp)"

text \<open>A default that is a string goes through the option's type at the end, unless the option was given.\<close>

fun convert_defaults :: "arg_env \<Rightarrow> option_spec list \<Rightarrow> namespace \<Rightarrow> arg_error + namespace" where
  "convert_defaults env [] ns = Inr ns"
| "convert_defaults env (sp # specs) ns =
     (case (os_kind sp, ns (os_dest sp)) of
        (StoreInt, Text s) \<Rightarrow>
          (case get_value env sp s of Inl e \<Rightarrow> Inl e | Inr v \<Rightarrow> convert_defaults env specs (ns(os_dest sp := v)))
      | _ \<Rightarrow> convert_defaults env specs ns)"

text \<open>
  The loop of \<open>_parse_known_args\<close>. The positional takes, where the first string that is no option stands, all that
  follows or the strings up to the next option, but only once; \<open>--\<close> is dropped from the latter.
\<close>

definition is_positional :: "unicode \<times> token \<Rightarrow> bool" where
  "is_positional st \<longleftrightarrow> (case snd st of Plain \<Rightarrow> True | DashDash \<Rightarrow> True | _ \<Rightarrow> False)"

function parse_loop ::
  "arg_env \<Rightarrow> parser \<Rightarrow> (unicode \<times> token) list \<Rightarrow> unicode list option \<Rightarrow> unicode list \<Rightarrow> namespace \<Rightarrow>
     parser_stop + unicode list \<times> unicode list \<times> namespace" where
  "parse_loop env pa toks args extras ns =
     (case toks of
        [] \<Rightarrow> Inr (case args of None \<Rightarrow> [] | Some ws \<Rightarrow> ws, extras, ns)
      | (s, Option sp flag attached) # rest \<Rightarrow>
          (case consume_optional (pa_options pa) sp flag attached rest of
             Inl e \<Rightarrow> Inl (UsageError e)
           | Inr (taken, n, unread) \<Rightarrow>
               (case take_actions env taken ns of
                  Inl stop \<Rightarrow> Inl stop
                | Inr ns' \<Rightarrow> parse_loop env pa (drop n rest) args (extras @ unread) ns'))
      | (s, UnknownOption) # rest \<Rightarrow> parse_loop env pa rest args (extras @ [s]) ns
      | _ \<Rightarrow>
          (if args = None
           then
             (case pa_args pa of
                Remainder \<Rightarrow> Inr (map fst toks, extras, ns)
              | ZeroOrMore \<Rightarrow>
                  parse_loop env pa (dropWhile is_positional toks)
                    (Some (remove1 [45, 45] (map fst (takeWhile is_positional toks)))) extras ns)
           else
             parse_loop env pa (dropWhile is_positional toks) args
               (extras @ map fst (takeWhile is_positional toks)) ns))"
  by pat_completeness auto
termination
  by (relation "measure (\<lambda>(env, pa, toks, args, extras, ns). length toks)")
    (auto simp: is_positional_def less_Suc_eq_le length_dropWhile_le)

lemmas [simp del] = parse_loop.simps

lemma parse_loop_simps [simp]:
  "parse_loop env pa [] args extras ns = Inr (case args of None \<Rightarrow> [] | Some ws \<Rightarrow> ws, extras, ns)"
  "parse_loop env pa ((s, UnknownOption) # rest) args extras ns = parse_loop env pa rest args (extras @ [s]) ns"
  "parse_loop env pa ((s, Option sp flag attached) # rest) args extras ns =
     (case consume_optional (pa_options pa) sp flag attached rest of
        Inl e \<Rightarrow> Inl (UsageError e)
      | Inr (taken, n, unread) \<Rightarrow>
          (case take_actions env taken ns of
             Inl stop \<Rightarrow> Inl stop
           | Inr ns' \<Rightarrow> parse_loop env pa (drop n rest) args (extras @ unread) ns'))"
  by (subst parse_loop.simps; simp)+

lemma parse_loop_words:
  assumes "is_positional st"
  shows "parse_loop env pa (st # rest) args extras ns =
    (let toks = st # rest
     in if args = None
        then
          (case pa_args pa of
             Remainder \<Rightarrow> Inr (map fst toks, extras, ns)
           | ZeroOrMore \<Rightarrow>
               parse_loop env pa (dropWhile is_positional rest)
                 (Some (remove1 [45, 45] (map fst (takeWhile is_positional toks)))) extras ns)
        else
          parse_loop env pa (dropWhile is_positional rest) args (extras @ map fst (takeWhile is_positional toks)) ns)"
  using assms by (subst parse_loop.simps) (cases st; cases "snd st"; simp add: is_positional_def Let_def split: positional.splits)

definition parse_args :: "arg_env \<Rightarrow> parser \<Rightarrow> unicode list \<Rightarrow> parser_stop + namespace \<times> unicode list" where
  "parse_args env pa argv =
     (case classify env (pa_options pa) argv of
        Inl e \<Rightarrow> Inl (UsageError e)
      | Inr toks \<Rightarrow>
          (case parse_loop env pa toks None [] (defaults (pa_options pa)) of
             Inl stop \<Rightarrow> Inl stop
           | Inr (args, extras, ns) \<Rightarrow>
               (case convert_defaults env (pa_options pa) ns of
                  Inl e \<Rightarrow> Inl (UsageError e)
                | Inr ns' \<Rightarrow> if extras = [] then Inr (ns', args) else Inl (UsageError (Unrecognized extras)))))"

section \<open>Declarations that argparse accepts\<close>

text \<open>
  No flag and no attribute is declared twice, which \<open>add_argument\<close> would refuse or overwrite, and every default has the
  type of its option or is a string to be converted to it.
\<close>

definition well_typed :: "option_spec \<Rightarrow> option_value \<Rightarrow> bool" where
  "well_typed sp v \<longleftrightarrow>
     (case (os_kind sp, v) of
        (StoreTrue, Flag b) \<Rightarrow> True | (StoreTrue, _) \<Rightarrow> False
      | (Count, Number n) \<Rightarrow> 0 \<le> n | (Count, _) \<Rightarrow> False
      | (_, NoValue) \<Rightarrow> os_default sp = NoValue
      | (StoreText, Text s) \<Rightarrow> True
      | (StoreInt, Number n) \<Rightarrow> True
      | (StoreFloat, Decimal x) \<Rightarrow> True
      | (StoreChoice cs, Text s) \<Rightarrow> s \<in> uni ` set cs
      | (StoreCursor, Cursor m) \<Rightarrow> True
      | _ \<Rightarrow> False)"

definition unconverted :: "option_spec \<Rightarrow> option_value \<Rightarrow> bool" where
  "unconverted sp v \<longleftrightarrow> os_kind sp = StoreInt \<and> (case v of Text s \<Rightarrow> True | _ \<Rightarrow> False)"

definition accepted :: "option_spec list \<Rightarrow> bool" where
  "accepted specs \<longleftrightarrow> distinct (map fst (all_flags specs)) \<and> distinct (map os_dest specs) \<and>
     list_all (\<lambda>sp. well_typed sp (os_default sp) \<or> unconverted sp (os_default sp)) specs"

lemma parsers_accepted:
  "accepted (pa_options vnclog_parser)" "accepted (pa_options replay_parser)" "accepted (pa_options (vncdo_parser d))"
proof -
  note defs = accepted_def all_flags_def opt_def help_option_def version_option_def standard_options_def well_typed_def
    unconverted_def
  show "accepted (pa_options vnclog_parser)" by (simp add: defs vnclog_parser_def)
  show "accepted (pa_options replay_parser)" by (simp add: defs replay_parser_def)
  show "accepted (pa_options (vncdo_parser d))" by (simp add: defs vncdo_parser_def split: option.splits)
qed

section \<open>What a value of a namespace is\<close>

text \<open>While the line is read, every attribute has the type of its option, or is the environment's string.\<close>

definition typed_namespace :: "option_spec list \<Rightarrow> namespace \<Rightarrow> bool" where
  "typed_namespace specs ns \<longleftrightarrow> (\<forall>sp\<in>set specs. well_typed sp (ns (os_dest sp)) \<or> unconverted sp (ns (os_dest sp)))"

lemma flag_declared: "map_of (all_flags specs) f = Some sp \<Longrightarrow> sp \<in> set specs"
  by (auto simp: all_flags_def dest!: map_of_SomeD)

lemma accepted_dest:
  "accepted specs \<Longrightarrow> sp \<in> set specs \<Longrightarrow> sp' \<in> set specs \<Longrightarrow> os_dest sp = os_dest sp' \<Longrightarrow> sp = sp'"
  by (auto simp: accepted_def distinct_map inj_on_def)

lemma typed_update:
  assumes "accepted specs" "typed_namespace specs ns" "sp \<in> set specs" "well_typed sp v"
  shows "typed_namespace specs (ns(os_dest sp := v))"
  using assms accepted_dest[OF assms(1,3)] by (force simp: typed_namespace_def)

lemma typed_namespace_defaults:
  assumes "accepted specs"
  shows "typed_namespace specs (defaults specs)"
  unfolding typed_namespace_def
proof
  fix sp assume sp: "sp \<in> set specs"
  then obtain sp' where f: "find (\<lambda>x. os_dest x = os_dest sp) specs = Some sp'"
    by (cases "find (\<lambda>x. os_dest x = os_dest sp) specs") (auto simp: find_None_iff)
  then have "sp' \<in> set specs" "os_dest sp' = os_dest sp" by (auto simp: find_Some_iff)
  with assms sp have "sp' = sp" using accepted_dest by blast
  with f assms sp show "well_typed sp (defaults specs (os_dest sp)) \<or> unconverted sp (defaults specs (os_dest sp))"
    by (auto simp: defaults_def accepted_def list_all_iff)
qed

lemma get_value_typed:
  assumes "get_value env sp s = Inr v" "takes_argument (os_kind sp)"
  shows "well_typed sp v"
  using assms
  by (auto simp: get_value_def well_typed_def takes_argument_def split: option_kind.splits option.splits sum.splits if_splits)

lemma count_up_typed:
  "os_kind sp = Count \<Longrightarrow> well_typed sp v \<or> unconverted sp v \<Longrightarrow> well_typed sp (count_up v)"
  by (auto simp: well_typed_def unconverted_def count_up_def split: option_value.splits)

lemma take_actions_typed:
  assumes "accepted specs" "typed_namespace specs ns" "fst ` set taken \<subseteq> set specs" "take_actions env taken ns = Inr ns'"
  shows "typed_namespace specs ns'"
  using assms
proof (induction env taken ns rule: take_actions.induct)
  case (2 env sp arg rest ns)
  have sp: "sp \<in> set specs" and rest: "fst ` set rest \<subseteq> set specs" using "2.prems"(3) by auto
  note upd = typed_update[OF "2.prems"(1,2) sp]
  have old: "well_typed sp (ns (os_dest sp)) \<or> unconverted sp (ns (os_dest sp))" using "2.prems"(2) sp by (simp add: typed_namespace_def)
  show ?case
  proof (cases "os_kind sp = Help \<or> os_kind sp = Version \<or> os_kind sp = StoreTrue \<or> os_kind sp = Count")
    case True
    then show ?thesis
      using "2.prems"(1,4) "2.IH"(1,2) rest upd[of "Flag True"] upd[of "count_up (ns (os_dest sp))"] count_up_typed[OF _ old]
      by (auto simp: well_typed_def fun_upd_def split: if_splits)
  next
    case False
    then have arg: "takes_argument (os_kind sp)" by (cases "os_kind sp") (auto simp: takes_argument_def)
    obtain v where v: "get_value env sp (case arg of None \<Rightarrow> [] | Some s \<Rightarrow> s) = Inr v"
      and ns': "take_actions env rest (ns(os_dest sp := v)) = Inr ns'"
      using "2.prems"(4) False by (auto split: sum.splits)
    show ?thesis
      using "2.IH"(3)[OF _ _ _ v "2.prems"(1) upd[OF get_value_typed[OF v arg]] rest ns'] False by simp
  qed
qed simp

lemma cluster_declared:
  assumes "cluster specs sp flag sep e = Inr (taken, next, extras)" "sp \<in> set specs"
  shows "fst ` set taken \<subseteq> set specs \<and> set_option next \<subseteq> set specs"
  using assms
proof (induction specs sp flag sep e arbitrary: taken "next" extras rule: cluster.induct)
  case (1 specs sp flag sep e)
  show ?case
    using "1.prems" "1.IH"
    by (subst (asm) cluster.simps)
      (auto simp: Let_def split: if_splits option.splits sum.splits prod.splits dest!: flag_declared; fastforce)
qed

lemma consume_optional_declared:
  assumes "consume_optional specs sp flag attached rest = Inr (taken, n, unread)" "sp \<in> set specs"
  shows "fst ` set taken \<subseteq> set specs"
  using assms cluster_declared
  by (fastforce simp: consume_optional_def
    split: option.splits sum.splits prod.splits if_splits list.splits token.splits)

definition declared :: "option_spec list \<Rightarrow> (unicode \<times> token) list \<Rightarrow> bool" where
  "declared specs toks \<longleftrightarrow> (\<forall>s sp f a. (s, Option sp f a) \<in> set toks \<longrightarrow> sp \<in> set specs)"

lemma option_tuples_declared: "(sp, f, a) \<in> set (option_tuples specs s) \<Longrightarrow> sp \<in> set specs"
  by (auto simp: option_tuples_def all_flags_def split: prod.splits if_splits)

lemma parse_optional_declared:
  assumes "parse_optional env specs s = Inr (Option sp f a)"
  shows "sp \<in> set specs"
  using assms option_tuples_declared[of sp f a specs s] flag_declared
  by (auto simp: parse_optional_def split: if_splits option.splits prod.splits list.splits)

lemma classify_declared: "classify env specs ss = Inr toks \<Longrightarrow> declared specs toks"
proof (induction env specs ss arbitrary: toks rule: classify.induct)
  case (2 env specs s ss)
  show ?case
  proof (cases "s = [45, 45]")
    case True
    with "2.prems" show ?thesis by (auto simp: declared_def)
  next
    case False
    with "2.prems" obtain t ts where t: "parse_optional env specs s = Inr t" "classify env specs ss = Inr ts" "toks = (s, t) # ts"
      by (auto split: sum.splits)
    with "2.IH"[OF False t(1,2)] show ?thesis using parse_optional_declared by (auto simp: declared_def)
  qed
qed (simp add: declared_def)

lemma declared_subset: "declared specs toks \<Longrightarrow> set toks' \<subseteq> set toks \<Longrightarrow> declared specs toks'"
  unfolding declared_def by blast

lemma parse_loop_typed:
  assumes "accepted (pa_options pa)" "typed_namespace (pa_options pa) ns" "declared (pa_options pa) toks"
    "parse_loop env pa toks args extras ns = Inr (ws, unread, ns')"
  shows "typed_namespace (pa_options pa) ns'"
  using assms(2-)
proof (induction toks arbitrary: args extras ns rule: length_induct)
  case (1 toks)
  note shorter = declared_subset[OF "1.prems"(2)]
  have IH: "typed_namespace (pa_options pa) ns'"
    if "length toks' < length toks" "set toks' \<subseteq> set toks" "typed_namespace (pa_options pa) n1"
      "parse_loop env pa toks' a1 e1 n1 = Inr (ws, unread, ns')" for toks' a1 e1 n1
    using "1.IH" that shorter by blast
  show ?case
  proof (cases toks)
    case Nil
    with "1.prems" show ?thesis by simp
  next
    case (Cons st rest)
    obtain s t where st: "st = (s, t)" by fastforce
    have words: ?thesis if "is_positional st"
      using that "1.prems"(1,3) IH[of "dropWhile is_positional toks", OF _ _ "1.prems"(1)]
      by (auto simp: Cons Let_def parse_loop_words less_Suc_eq_le length_dropWhile_le split: if_splits positional.splits
          dest: set_dropWhileD)
    show ?thesis
    proof (cases t)
      case (Option sp flag attached)
      have sp: "sp \<in> set (pa_options pa)" using "1.prems"(2) by (auto simp: Cons st Option declared_def)
      obtain taken n more ns1 where taken: "consume_optional (pa_options pa) sp flag attached rest = Inr (taken, n, more)"
        and ns1: "take_actions env taken ns = Inr ns1"
        and loop: "parse_loop env pa (drop n rest) args (extras @ more) ns1 = Inr (ws, unread, ns')"
        using "1.prems"(3) by (auto simp: Cons st Option split: sum.splits)
      show ?thesis
        using IH[OF _ _ take_actions_typed[OF assms(1) "1.prems"(1) consume_optional_declared[OF taken sp] ns1] loop]
          set_drop_subset[of n rest]
        by (simp add: Cons less_Suc_eq_le subset_insertI2)
    next
      case UnknownOption
      with IH[OF _ _ "1.prems"(1), of rest args "extras @ [s]"] "1.prems"(3) show ?thesis by (auto simp: Cons st)
    qed (use words in \<open>auto simp: is_positional_def st\<close>)
  qed
qed

lemma convert_defaults_typed:
  assumes "accepted all" "set specs \<subseteq> set all" "typed_namespace all ns" "convert_defaults env specs ns = Inr ns'"
  shows "(\<forall>sp\<in>set specs. well_typed sp (ns' (os_dest sp))) \<and>
    (\<forall>sp\<in>set all. well_typed sp (ns (os_dest sp)) \<longrightarrow> well_typed sp (ns' (os_dest sp)))"
  using assms
proof (induction specs arbitrary: ns)
  case (Cons sp specs)
  have sp: "sp \<in> set all" and specs: "set specs \<subseteq> set all" using Cons.prems(2) by auto
  show ?case
  proof (cases "well_typed sp (ns (os_dest sp))")
    case True
    then have "convert_defaults env specs ns = Inr ns'"
      using Cons.prems(4) by (cases "os_kind sp"; cases "ns (os_dest sp)"; simp add: well_typed_def)
    with Cons.IH[OF Cons.prems(1) specs Cons.prems(3)] True sp show ?thesis by simp
  next
    case False
    then have "unconverted sp (ns (os_dest sp))" using Cons.prems(3) sp by (auto simp: typed_namespace_def)
    then obtain s where kind: "os_kind sp = StoreInt" and s: "ns (os_dest sp) = Text s"
      by (auto simp: unconverted_def split: option_value.splits)
    obtain v where v: "get_value env sp s = Inr v" and c: "convert_defaults env specs (ns(os_dest sp := v)) = Inr ns'"
      using Cons.prems(4) by (auto simp: kind s split: sum.splits)
    have wt: "well_typed sp v" by (rule get_value_typed[OF v]) (simp add: kind takes_argument_def)
    have "well_typed sp' ((ns(os_dest sp := v)) (os_dest sp'))" if "sp' \<in> set all" "well_typed sp' (ns (os_dest sp'))" for sp'
      using that wt accepted_dest[OF Cons.prems(1) sp that(1)] by force
    with Cons.IH[OF Cons.prems(1) specs typed_update[OF Cons.prems(1,3) sp wt] c] wt sp show ?thesis by auto
  qed
qed auto

lemma accepted_values_typed:
  assumes acc: "accepted (pa_options pa)" and "parse_args env pa argv = Inr (ns, words)" "sp \<in> set (pa_options pa)"
  shows "well_typed sp (ns (os_dest sp))"
proof -
  obtain toks where toks: "classify env (pa_options pa) argv = Inr toks"
    using assms(2) by (auto simp: parse_args_def split: sum.splits)
  obtain args extras ns' where loop: "parse_loop env pa toks None [] (defaults (pa_options pa)) = Inr (args, extras, ns')"
    and conv: "convert_defaults env (pa_options pa) ns' = Inr ns"
    using assms(2) by (auto simp: parse_args_def toks split: sum.splits if_splits)
  show ?thesis
    using convert_defaults_typed[OF acc subset_refl
        parse_loop_typed[OF acc typed_namespace_defaults[OF acc] classify_declared[OF toks] loop] conv] assms(3) by blast
qed


section \<open>Command lines without surprises\<close>

text \<open>A word that does not start with a dash is never an option.\<close>

definition word :: "unicode \<Rightarrow> bool" where
  "word s \<longleftrightarrow> s = [] \<or> hd s \<noteq> 45"

lemma classify_word [simp]:
  "word s \<Longrightarrow> classify env specs (s # ss) =
    (case classify env specs ss of Inl e \<Rightarrow> Inl e | Inr ts \<Rightarrow> Inr ((s, Plain) # ts))"
  by (auto simp: word_def parse_optional_def)

lemmas [simp del] = classify.simps(2)

lemma classify_words: "list_all word ss \<Longrightarrow> classify env specs ss = Inr (map (\<lambda>s. (s, Plain)) ss)"
  by (induction ss) simp_all

lemma parse_optional_flag:
  assumes "map_of (all_flags specs) f = Some sp" "f \<noteq> []" "hd f = 45"
  shows "parse_optional env specs f = Inr (Option sp f None)"
  using assms by (simp add: parse_optional_def)

lemma words_remain: "dropWhile is_positional (map (\<lambda>s. (s, Plain)) ss) = []"
  "takeWhile is_positional (map (\<lambda>s. (s, Plain)) ss) = map (\<lambda>s. (s, Plain)) ss"
  by (simp_all add: is_positional_def dropWhile_eq_Nil_conv takeWhile_eq_all_conv)

text \<open>An option with one argument, in two strings.\<close>

lemma consume_two:
  assumes "takes_argument (os_kind sp)"
  shows "consume_optional specs sp f None ((s, Plain) # rest) = Inr ([(sp, Some s)], 1, [])"
  using assms by (simp add: consume_optional_def)

text \<open>What follows the first word of \<open>vncdo\<close> is not read as options, but all of it is looked at first.\<close>

lemma commands_left_alone:
  assumes "word w" "classify env (pa_options (vncdo_parser d)) rest = Inr toks"
    "convert_defaults env (pa_options (vncdo_parser d)) (defaults (pa_options (vncdo_parser d))) = Inr ns"
  shows "parse_args env (vncdo_parser d) (w # rest) = Inr (ns, w # rest)"
proof -
  have rest: "map fst toks = rest"
    using assms(2)
  proof (induction rest arbitrary: toks)
    case (Cons s ss)
    then show ?case
      by (auto simp: classify.simps(2) comp_def split: if_splits sum.splits)
  qed simp
  show ?thesis
    using assms rest by (simp add: parse_args_def parse_loop_words is_positional_def Let_def) (simp add: vncdo_parser_def)
qed

lemma ambiguous_word_refused:
  "parse_args env (vncdo_parser d) [uni ''type'', uni ''--f''] = Inl (UsageError (Ambiguous (uni ''--f'')))"
  by (simp add: parse_args_def classify.simps(2) parse_optional_def all_flags_def vncdo_parser_def standard_options_def
      help_option_def version_option_def opt_def uni_def option_tuples_def starts_with_def)

definition sample_arg_env :: arg_env where
  "sample_arg_env =
     \<lparr>ag_env = \<lparr>foreign_int = Map.empty, parse_float = (\<lambda>w. None), warped = Some, file_text = Map.empty, stdin_text = [],
        ce_delay = 10, ce_incremental = False\<rparr>,
      ag_digit = (\<lambda>p. 48 \<le> p \<and> p \<le> 57)\<rparr>"

definition sample_line :: "unicode list" where
  "sample_line = [uni ''-vv'', uni ''--delay=12'', uni ''-p'', uni ''x'', uni ''type'', uni ''-v'']"

lemma sample_parsed:
  "case parse_args sample_arg_env (vncdo_parser None) sample_line of
     Inl stop \<Rightarrow> False
   | Inr (ns, args) \<Rightarrow>
       args = [uni ''type'', uni ''-v''] \<and> ns ''delay'' = Number 12 \<and> ns ''verbose'' = Number 2 \<and>
       ns ''password'' = Text (uni ''x'')"
  by code_simp


end
