(* ===== verification/Tools.thy ===== *)
theory Tools
  imports Options VeNCrypt
begin

text \<open>
  The three programs of \<open>command.py\<close> from their command line on: what \<open>vncdo\<close>, \<open>vnclog\<close> and \<open>vncdo-replay\<close> make of the
  options \<open>argparse\<close> hands them, up to the reactor.  A replay runs \<open>vncdo\<close> on a command line it builds itself, and
  \<open>vncdo\<close> reads that one as it was meant.
\<close>

section \<open>Options as they are used\<close>

definition text_of :: "option_value \<Rightarrow> unicode option" where
  "text_of v = (case v of Text s \<Rightarrow> Some s | _ \<Rightarrow> None)"

definition number_of :: "option_value \<Rightarrow> int option" where
  "number_of v = (case v of Number n \<Rightarrow> Some n | _ \<Rightarrow> None)"

definition float_of :: "option_value \<Rightarrow> pyfloat option" where
  "float_of v = (case v of Decimal x \<Rightarrow> Some x | _ \<Rightarrow> None)"

definition cursor_of :: "option_value \<Rightarrow> cursor_mode option" where
  "cursor_of v = (case v of Cursor m \<Rightarrow> Some m | _ \<Rightarrow> None)"

definition flagged :: "option_value \<Rightarrow> bool" where
  "flagged v = (v = Flag True)"

text \<open>\<open>PIXEL_FORMATS[options.pixel_format]\<close>: the name of a choice.\<close>

definition choice_of :: "string list \<Rightarrow> option_value \<Rightarrow> string option" where
  "choice_of choices v = find (\<lambda>c. v = Text (uni c)) choices"

text \<open>\<open>setup_logging\<close>: the log file, where one is named, and the level.\<close>

datatype log_level = DEBUG | INFO | WARNING

definition setup_logging :: "namespace \<Rightarrow> unicode option \<times> log_level" where
  "setup_logging ns =
     (given (text_of (ns ''logfile'')),
      case number_of (ns ''verbose'') of
        None \<Rightarrow> WARNING
      | Some n \<Rightarrow> if n > 1 then DEBUG else if n \<noteq> 0 then INFO else WARNING)"

section \<open>vncdo\<close>

text \<open>\<open>DIALECTS\<close>: the classes that are mixed into the client's.\<close>

datatype dialect = KasmVNCDialect | VMWareDialect

definition DIALECTS :: "(string \<times> dialect option) list" where
  "DIALECTS = [(''standard'', None), (''kasmvnc'', Some KasmVNCDialect), (''vmware'', Some VMWareDialect)]"

definition apply_dialect :: "string option \<Rightarrow> dialect option" where
  "apply_dialect name = (case name of None \<Rightarrow> None | Some n \<Rightarrow> (case map_of DIALECTS n of None \<Rightarrow> None | Some d \<Rightarrow> d))"

definition vncdo_options_of :: "namespace \<Rightarrow> vncdo_options" where
  "vncdo_options_of ns =
     \<lparr>vo_cursor = cursor_of (ns ''cursor''), vo_localcursor = flagged (ns ''localcursor''),
      vo_nocursor = flagged (ns ''nocursor''), vo_disable_desktop_resizing = flagged (ns ''disable_desktop_resizing''),
      vo_force_caps = flagged (ns ''force_caps''), vo_encodings = text_of (ns ''encodings''),
      vo_pixel_format = choice_of (map fst pixel_formats) (ns ''pixel_format''),
      vo_jpeg_quality = number_of (ns ''jpeg_quality''), vo_fuzz = number_of (ns ''fuzz''), vo_blur = number_of (ns ''blur'')\<rparr>"

text \<open>
  What a run is set up with. The run itself is \<open>CommandLine\<close>'s: the commands, what is dialled and how the client is
  configured, or the error. \<open>vs_policy\<close> is what the TLS of VeNCrypt is held to; \<open>divided x f\<close> is the quotient of two
  floats, None for a division by zero.
\<close>

record vncdo_run =
  vs_log :: "unicode option \<times> log_level"
  vs_outcome :: "vncdo_outcome option"
  vs_username :: "unicode option"
  vs_password :: "unicode option"
  vs_dialect :: "dialect option"
  vs_policy :: "tls_policy"
  vs_timeout :: "pyfloat option"

definition tool_env :: "arg_env \<Rightarrow> (pyfloat \<Rightarrow> pyfloat \<Rightarrow> pyfloat option) \<Rightarrow> namespace \<Rightarrow> command_env" where
  "tool_env env divided ns =
     (ag_env env)\<lparr>
       warped := (case float_of (ns ''warp'') of None \<Rightarrow> warped (ag_env env) | Some f \<Rightarrow> \<lambda>x. divided x f),
       ce_delay := (case number_of (ns ''delay'') of None \<Rightarrow> 0 | Some n \<Rightarrow> n),
       ce_incremental := flagged (ns ''incremental_refreshes'')\<rparr>"

definition server_of :: "namespace \<Rightarrow> unicode" where
  "server_of ns = (case text_of (ns ''server'') of None \<Rightarrow> [] | Some s \<Rightarrow> s)"

definition tls_hostname_of :: "vncdo_outcome option \<Rightarrow> unicode option" where
  "tls_hostname_of out = (case out of Some (Vncdo acts (dial, host) cfg) \<Rightarrow> host | _ \<Rightarrow> None)"

definition run_timeout :: "option_value \<Rightarrow> pyfloat option" where
  "run_timeout v = (if float_of v = Some (Finite 0) then None else float_of v)"

definition vncdo_main ::
  "arg_env \<Rightarrow> address_env \<Rightarrow> (pyfloat \<Rightarrow> pyfloat \<Rightarrow> pyfloat option) \<Rightarrow> unicode option \<Rightarrow> unicode list \<Rightarrow>
     parser_stop + vncdo_run" where
  "vncdo_main env addr divided environ_delay argv =
     (case parse_args env (vncdo_parser environ_delay) argv of
        Inl stop \<Rightarrow> Inl stop
      | Inr (ns, args) \<Rightarrow>
          (let out = vncdo (tool_env env divided ns) addr (vncdo_options_of ns) (server_of ns) args
           in Inr \<lparr>vs_log = setup_logging ns, vs_outcome = out, vs_username = text_of (ns ''username''),
               vs_password = text_of (ns ''password''),
               vs_dialect = apply_dialect (choice_of (map fst DIALECTS) (ns ''dialect'')),
               vs_policy = \<lparr>tp_hostname = tls_hostname_of out, tp_ca_certs = text_of (ns ''tls_ca_cert''),
                 tp_allow_unverified = flagged (ns ''tls_insecure_skip_verify'')\<rparr>,
               vs_timeout = run_timeout (ns ''timeout'')\<rparr>))"

text \<open>\<open>VNCDoCLIClient.vncRequestPassword\<close>: asked once, and kept.\<close>

definition cli_password :: "unicode \<Rightarrow> unicode option \<Rightarrow> unicode \<times> unicode option" where
  "cli_password typed_in password = (case password of None \<Rightarrow> (typed_in, Some typed_in) | Some pw \<Rightarrow> (pw, Some pw))"

section \<open>vnclog\<close>

text \<open>
  The proxy that \<open>vnclog\<close> listens with. An address that does not parse is raised before any of the checks.
\<close>

record vnclog_run =
  lr_log :: "unicode option \<times> log_level"
  lr_host :: unicode
  lr_port :: int
  lr_server_address :: unicode
  lr_password_required :: bool
  lr_password :: "unicode option"
  lr_listen :: "int option"
  lr_one_shot :: bool
  lr_target :: "nat log_target"
  lr_viewer :: "unicode option"

datatype vnclog_outcome = VnclogBadAddress unicode | VnclogUsage usage_error | Vnclog vnclog_run

definition vnclog_main ::
  "arg_env \<Rightarrow> address_env \<Rightarrow> (unicode \<Rightarrow> target_error option) \<Rightarrow> (unicode \<Rightarrow> bool) \<Rightarrow> unicode list \<Rightarrow>
     parser_stop + vnclog_outcome" where
  "vnclog_main env addr check is_dir argv =
     (case parse_args env vnclog_parser argv of
        Inl stop \<Rightarrow> Inl stop
      | Inr (ns, args) \<Rightarrow>
          Inr (case parse_server addr (server_of ns) of
              None \<Rightarrow> VnclogBadAddress (server_of ns)
            | Some (fam, host, port) \<Rightarrow>
                (let one_shot = flagged (ns ''one_shot''); capture_raw = text_of (ns ''capture_raw'')
                 in (case vnclog_target fam one_shot (flagged (ns ''file_per_client'')) capture_raw
                       (flagged (ns ''capture_raw_unsafe'')) (trailing_args args) check is_dir of
                       Inl e \<Rightarrow> VnclogUsage e
                     | Inr target \<Rightarrow>
                         Vnclog \<lparr>lr_log = setup_logging ns, lr_host = host, lr_port = port, lr_server_address = server_of ns,
                           lr_password_required = flagged (ns ''password_required''), lr_password = text_of (ns ''password''),
                           lr_listen = number_of (ns ''listen''), lr_one_shot = vnclog_one_shot one_shot capture_raw,
                           lr_target = target, lr_viewer = given (text_of (ns ''viewer''))\<rparr>))))"

section \<open>vncdo-replay\<close>

text \<open>
  Serving, with the address to listen on and the patience with a silent client, or the command line for \<open>vncdo\<close>.
\<close>

record vncdo_replay_run =
  rr_mode :: "usage_error + replay_mode"
  rr_listen :: "int option"
  rr_bind :: "unicode option"
  rr_client_timeout :: "pyfloat option"
  rr_forever :: bool
  rr_verbose :: bool

definition replay_main ::
  "arg_env \<Rightarrow> (unicode \<Rightarrow> bytes option) \<Rightarrow> unicode \<Rightarrow> unicode list \<Rightarrow> parser_stop + vncdo_replay_run" where
  "replay_main env load script argv =
     (case parse_args env replay_parser argv of
        Inl stop \<Rightarrow> Inl stop
      | Inr (ns, args) \<Rightarrow>
          Inr \<lparr>rr_mode = vncdo_replay load (flagged (ns ''server''))
                (case text_of (ns ''connect'') of None \<Rightarrow> [] | Some s \<Rightarrow> s) (text_of (ns ''password'')) script args,
            rr_listen = number_of (ns ''listen''), rr_bind = text_of (ns ''bind''),
            rr_client_timeout = float_of (ns ''client_timeout''), rr_forever = flagged (ns ''forever''),
            rr_verbose = flagged (ns ''verbose'')\<rparr>)"

lemmas parser_defs = vncdo_parser_def replay_parser_def standard_options_def help_option_def version_option_def opt_def

section \<open>Nothing is missing\<close>

text \<open>
  The options with a default always have a value, so that what \<open>tool_env\<close> and \<open>server_of\<close> take where there is none is never
  taken; and a capture is always the only session.
\<close>

lemma vncdo_defaults_present:
  assumes "parse_args env (vncdo_parser d) argv = Inr (ns, args)"
  shows "number_of (ns ''delay'') \<noteq> None" "number_of (ns ''verbose'') \<noteq> None" "text_of (ns ''server'') \<noteq> None"
    "float_of (ns ''warp'') \<noteq> None" "choice_of (map fst DIALECTS) (ns ''dialect'') \<noteq> None"
proof -
  have wt: "well_typed sp (ns (os_dest sp))" if "sp \<in> set (pa_options (vncdo_parser d))" for sp
    using accepted_values_typed[OF parsers_accepted(3) assms that] .
  note read = well_typed_def parser_defs number_of_def text_of_def float_of_def choice_of_def find_None_iff
  show "number_of (ns ''delay'') \<noteq> None"
    using wt[of "opt [''--delay''] ''delay'' StoreInt (case d of None \<Rightarrow> Number 10 | Some s \<Rightarrow> Text s)"]
    by (simp add: read split: option_value.splits option.splits)
  show "number_of (ns ''verbose'') \<noteq> None"
    using wt[of "opt [''-v'', ''--verbose''] ''verbose'' Count (Number 0)"] by (simp add: read split: option_value.splits)
  show "text_of (ns ''server'') \<noteq> None"
    using wt[of "opt [''-s'', ''--server''] ''server'' StoreText (Text (uni ''127.0.0.1''))"]
    by (simp add: read split: option_value.splits)
  show "float_of (ns ''warp'') \<noteq> None"
    using wt[of "opt [''-w'', ''--warp''] ''warp'' StoreFloat (Decimal (Finite 1))"] by (simp add: read split: option_value.splits)
  show "choice_of (map fst DIALECTS) (ns ''dialect'') \<noteq> None"
    using wt[of "opt [''--dialect''] ''dialect'' (StoreChoice [''kasmvnc'', ''standard'', ''vmware'']) (Text (uni ''standard''))"]
    by (auto simp: read DIALECTS_def split: option_value.splits)
qed

lemma capture_is_one_shot:
  assumes "vnclog_main env addr check is_dir argv = Inr (Vnclog run)" "lr_target run = CaptureTo path unsafe"
  shows "lr_one_shot run" "check path = None"
  using assms
  by (auto simp: vnclog_main_def vnclog_target_def vnclog_one_shot_def Let_def
      split: sum.splits option.splits if_splits list.splits)

section \<open>A replay drives vncdo\<close>

text \<open>The options of a \<open>vncdo\<close> that is given none.\<close>

definition plain_options :: vncdo_options where
  "plain_options =
     \<lparr>vo_cursor = None, vo_localcursor = False, vo_nocursor = False, vo_disable_desktop_resizing = False,
      vo_force_caps = False, vo_encodings = None, vo_pixel_format = None, vo_jpeg_quality = None, vo_fuzz = None,
      vo_blur = None\<rparr>"

definition server_option :: option_spec where
  "server_option = opt [''-s'', ''--server''] ''server'' StoreText (Text (uni ''127.0.0.1''))"

definition connect_option :: option_spec where
  "connect_option = opt [''-s'', ''--connect''] ''connect'' StoreText (Text DEFAULT_SERVER)"

definition password_option :: option_spec where
  "password_option = opt [''-p'', ''--password''] ''password'' StoreText NoValue"

lemma replay_flags:
  "map_of (all_flags (pa_options replay_parser)) (uni ''-s'') = Some connect_option"
  "map_of (all_flags (pa_options replay_parser)) (uni ''-p'') = Some password_option"
  by (simp_all add: all_flags_def parser_defs connect_option_def password_option_def)

lemma vncdo_flags:
  "map_of (all_flags (pa_options (vncdo_parser d))) (uni ''-s'') = Some server_option"
  "map_of (all_flags (pa_options (vncdo_parser d))) (uni ''-p'') = Some password_option"
  by (simp_all add: all_flags_def parser_defs server_option_def password_option_def)

text \<open>Two options with their arguments, and then only words.\<close>

lemma two_options_read:
  assumes "map_of (all_flags (pa_options pa)) (uni ''-s'') = Some sp" "os_kind sp = StoreText"
    and "map_of (all_flags (pa_options pa)) (uni ''-p'') = Some sp'" "os_kind sp' = StoreText"
    and "list_all word (a # b # ws)" "ws \<noteq> []"
  shows "parse_args env pa ([uni ''-s'', a, uni ''-p'', b] @ ws) =
    (case convert_defaults env (pa_options pa)
        ((defaults (pa_options pa))(os_dest sp := Text a, os_dest sp' := Text b)) of
       Inl e \<Rightarrow> Inl (UsageError e) | Inr ns \<Rightarrow> Inr (ns, ws))"
proof -
  obtain w ws' where ws: "ws = w # ws'" using assms(6) by (cases ws) auto
  have flag: "classify env (pa_options pa) (f # s # ss) =
      (case classify env (pa_options pa) ss of Inl e \<Rightarrow> Inl e | Inr ts \<Rightarrow> Inr ((f, Option q f None) # (s, Plain) # ts))"
    if "map_of (all_flags (pa_options pa)) f = Some q" "f = uni ''-s'' \<or> f = uni ''-p''" "word s" for f q s ss
  proof -
    have f: "f \<noteq> []" "hd f = 45" "f \<noteq> [45, 45]" using that(2) by (auto simp: uni_def)
    show ?thesis
      using that(3) f parse_optional_flag[OF that(1) f(1,2)]
      by (subst classify.simps(2)) (simp split: sum.splits)
  qed
  have toks: "classify env (pa_options pa) ([uni ''-s'', a, uni ''-p'', b] @ ws) =
      Inr ([(uni ''-s'', Option sp (uni ''-s'') None), (a, Plain), (uni ''-p'', Option sp' (uni ''-p'') None), (b, Plain)] @
        map (\<lambda>s. (s, Plain)) ws)"
    using assms(5) classify_words[of ws env "pa_options pa"]
    by (simp add: flag[OF assms(1)] flag[OF assms(3)] del: uni_eq)
  have last: "parse_loop env pa (map (\<lambda>s. (s, Plain)) ws) None [] ns = Inr (ws, [], ns)" for ns
  proof -
    have pos: "is_positional (w, Plain)" by (simp add: is_positional_def)
    have "[45, 45] \<notin> set ws" using assms(5) by (auto simp: word_def list_all_iff)
    with pos show ?thesis
      by (auto simp: ws words_remain parse_loop_words Let_def comp_def remove1_idem split: positional.splits)
  qed
  show ?thesis
    unfolding parse_args_def toks
    using assms(2,4) last by (simp add: consume_two takes_argument_def get_value_def del: uni_eq split: sum.splits)
qed

text \<open>The attributes of a \<open>vncdo\<close> that is given a server and a password.\<close>

definition delay_of :: "command_env \<Rightarrow> unicode option \<Rightarrow> int option" where
  "delay_of env environ_delay = (case environ_delay of None \<Rightarrow> Some 10 | Some s \<Rightarrow> parse_int env s)"

lemma vncdo_defaults_converted:
  assumes "delay_of (ag_env env) d = Some delay"
  shows "convert_defaults env (pa_options (vncdo_parser d))
      ((defaults (pa_options (vncdo_parser d)))(''server'' := Text a, ''password'' := Text b)) =
    Inr ((defaults (pa_options (vncdo_parser d)))
      (''server'' := Text a, ''password'' := Text b, ''delay'' := Number delay))"
  using assms
  by (cases d) (simp_all add: parser_defs delay_of_def defaults_def get_value_def fun_upd_def fun_eq_iff split: option.splits)

lemma replay_defaults_converted:
  "convert_defaults env (pa_options replay_parser)
      ((defaults (pa_options replay_parser))(''connect'' := Text a, ''password'' := Text b)) =
    Inr ((defaults (pa_options replay_parser))(''connect'' := Text a, ''password'' := Text b))"
  by (simp add: parser_defs defaults_def)

lemma replay_line_read:
  assumes "list_all word (server # pw # archive # extra)"
  shows "parse_args env replay_parser ([uni ''-s'', server, uni ''-p'', pw, archive] @ extra) =
    Inr ((defaults (pa_options replay_parser))(''connect'' := Text server, ''password'' := Text pw), archive # extra)"
  using two_options_read[OF replay_flags(1) _ replay_flags(2) _ assms] replay_defaults_converted
  by (simp add: connect_option_def password_option_def opt_def)

lemma vncdo_line_read:
  assumes "list_all word (server # pw # w # ws)" "delay_of (ag_env env) d = Some delay"
  shows "parse_args env (vncdo_parser d) ([uni ''-s'', server, uni ''-p'', pw, w] @ ws) =
    Inr ((defaults (pa_options (vncdo_parser d)))
      (''server'' := Text server, ''password'' := Text pw, ''delay'' := Number delay), w # ws)"
  using two_options_read[OF vncdo_flags(1) _ vncdo_flags(2) _ assms(1)] vncdo_defaults_converted[OF assms(2)]
  by (simp add: server_option_def password_option_def opt_def)

lemma vncdo_values:
  assumes "ns = (defaults (pa_options (vncdo_parser d)))
    (''server'' := Text server, ''password'' := Text pw, ''delay'' := Number delay)"
  shows "vncdo_options_of ns = plain_options" "server_of ns = server" "text_of (ns ''password'') = Some pw"
    "tool_env env divided ns =
      (ag_env env)\<lparr>warped := \<lambda>x. divided x (Finite 1), ce_delay := delay, ce_incremental := False\<rparr>"
  unfolding assms vncdo_options_of_def server_of_def tool_env_def plain_options_def
  by (simp_all add: parser_defs defaults_def text_of_def cursor_of_def flagged_def number_of_def choice_of_def
      float_of_def find_None_iff)


definition sample_address_env :: address_env where
  "sample_address_env =
     \<lparr>ae_url = \<lparr>ue_lower = id, ue_host_ok = (\<lambda>h. True)\<rparr>, ae_ipv4 = (\<lambda>h. True), ae_ipv6 = (\<lambda>h. False),
      ae_exists = (\<lambda>f. False), ae_has_unix = True, ae_int = (\<lambda>s. Some 5999)\<rparr>"


text \<open>
  A password that starts with a dash can be given to \<open>vncdo-replay\<close> attached to its flag, but it is handed on in a string of
  its own, which \<open>vncdo\<close> takes for an option.
\<close>

lemma attached_password_read:
  "parse_args env replay_parser [uni ''--password=-secret'', uni ''bug.zip''] =
    Inr ((defaults (pa_options replay_parser))(''password'' := Text (uni ''-secret'')), [uni ''bug.zip''])"
  by (simp add: parse_args_def classify.simps(2) parse_optional_def all_flags_def parser_defs uni_def cluster.simps
      consume_optional_def takes_argument_def get_value_def parse_loop_words is_positional_def defaults_def Let_def)

lemma dash_argument_expected:
  assumes "word server" "word script"
  shows "parse_args env (vncdo_parser d) [uni ''-s'', server, uni ''-p'', uni ''-secret'', script] =
    Inl (UsageError (ExpectedArgument password_option))"
  using assms
  by (simp add: parse_args_def classify.simps(2)[where s = "45 # ps" for ps] parse_optional_def all_flags_def parser_defs uni_def
      option_tuples_def starts_with_def consume_optional_def takes_argument_def get_value_def password_option_def)

lemma default_words: "word DEFAULT_SERVER" "word (uni ''session.vdo'')"
  by (simp_all add: word_def DEFAULT_SERVER_def DEFAULT_BIND_def uni_def)

lemma dash_password_refused:
  "\<exists>run argv. replay_main env [uni ''bug.zip'' \<mapsto> [107]] (uni ''session.vdo'') [uni ''--password=-secret'', uni ''bug.zip''] = Inr run \<and>
    rr_mode run = Inr (Drive argv) \<and>
    vncdo_main env addr divided environ_delay argv = Inl (UsageError (ExpectedArgument password_option))"
proof -
  have blank: "strip_blanks [107] \<noteq> []" by code_simp
  have dflts: "defaults (pa_options replay_parser) ''connect'' = Text DEFAULT_SERVER"
    "defaults (pa_options replay_parser) ''server'' = Flag False"
    by (simp_all add: parser_defs defaults_def)
  have some: "uni ''-secret'' \<noteq> []" by (simp add: uni_def)
  show ?thesis
    using blank some dash_argument_expected[OF default_words]
    by (simp add: replay_main_def attached_password_read vncdo_replay_def replay_argv_def flagged_def text_of_def
        dflts vncdo_main_def)
qed

end
