(* ===== verification/Recording.thy ===== *)
theory Recording
  imports Command
begin

text \<open>
  What the proxy records is what a script replays: words quoted by \<open>shlex.quote\<close> are read back by the lexer, and
  the keys of a recorded session, run as a script, are sent again.
\<close>

section \<open>Quoted words are read back\<close>

lemma safe_plain: "safe_char p \<Longrightarrow> \<not> lex_whitespace p \<and> p \<noteq> 35 \<and> p \<noteq> 92 \<and> \<not> lex_quote_char p"
  by (auto simp: safe_char_def uni_def lex_whitespace_def lex_quote_char_def)

lemma lex_safe_word:
  "list_all safe_char w \<Longrightarrow> lex_whitespace p \<Longrightarrow>
     lex Word token quoted (w @ p # rest) = emit_token (token @ w) quoted (lex Blank [] False rest)"
proof (induction w arbitrary: token)
  case (Cons q w)
  then show ?case using safe_plain [of q] by simp
qed simp

lemma lex_quoted_word:
  "lex_whitespace p \<Longrightarrow>
     lex (InQuote 39) token quoted
       (concat (map (\<lambda>p. if p = 39 then [39, 34, 39, 34, 39] else [p]) w) @ 39 # p # rest) =
     emit_token (token @ w) True (lex Blank [] False rest)"
  by (induction w arbitrary: token quoted) (simp_all add: lex_whitespace_def lex_quote_char_def)

text \<open>More words in front of what was read.\<close>

definition prepend :: "unicode list \<Rightarrow> exn + unicode list \<Rightarrow> exn + unicode list" where
  "prepend ts r = (case r of Inl e \<Rightarrow> Inl e | Inr us \<Rightarrow> Inr (ts @ us))"

lemma prepend_simps [simp]:
  "prepend ts (Inr us) = Inr (ts @ us)"
  "prepend [] r = r"
  "prepend ts (prepend us r) = prepend (ts @ us) r"
  by (simp_all add: prepend_def split: sum.split)

lemma emit_prepend: "token \<noteq> [] \<or> quoted \<Longrightarrow> emit_token token quoted r = prepend [token] r"
  by (auto simp: emit_token_def prepend_def split: sum.split)

lemma lex_quote:
  assumes "lex_whitespace p"
  shows "lex Blank [] False (shlex_quote w @ p # rest) = prepend [w] (lex Blank [] False rest)"
proof -
  consider "w = []" | q v where "w = q # v" "list_all safe_char w" | "w \<noteq> []" "\<not> list_all safe_char w"
    by (cases w) auto
  then show ?thesis
  proof cases
    case 1
    then show ?thesis
      using assms by (simp add: shlex_quote_def lex_whitespace_def lex_quote_char_def emit_prepend)
  next
    case 2
    then show ?thesis
      using assms safe_plain [of q] lex_safe_word [of v p "[q]" False rest]
      by (simp add: shlex_quote_def emit_prepend)
  next
    case 3
    then show ?thesis
      using lex_quoted_word [OF assms, of "[]" False w rest]
      by (simp add: shlex_quote_def lex_whitespace_def lex_quote_char_def emit_prepend)
  qed
qed

lemma lex_joined:
  "lex Blank [] False (join (map shlex_quote (w # ws)) @ 10 # rest) = prepend (w # ws) (lex Blank [] False rest)"
proof (induction ws arbitrary: w)
  case Nil
  show ?case using lex_quote [of 10 w rest] by (simp add: lex_whitespace_def)
next
  case (Cons v ws)
  show ?case
    using lex_quote [of 32 w "join (map shlex_quote (v # ws)) @ 10 # rest"] Cons [of v]
    by (simp add: lex_whitespace_def)
qed

text \<open>
  Quoting is undone by the lexer. However odd the words are, with spaces, quotes, backslashes or comment signs
  in them or empty, the line made of them by \<open>shlex.quote\<close> and single spaces is split into exactly
  these words.
\<close>

theorem quoted_words_read_back: "split_script (join (map shlex_quote ws) @ [10]) = Inr ws"
proof (cases ws)
  case Nil
  then show ?thesis by (simp add: split_script_def lex_whitespace_def)
next
  case (Cons w us)
  then show ?thesis using lex_joined [of w us "[]"] by (simp add: split_script_def)
qed

section \<open>Names of keys\<close>

lemma map_of_uni: "map_of (map (\<lambda>(name, v). (uni name, v)) kvs) (uni k) = map_of kvs k"
  by (induction kvs) auto

lemma keymap_shape: "list_all (\<lambda>(name, v). 1 < length name \<and> CHR ''-'' \<notin> set name) KEYMAP"
  by (simp add: KEYMAP_def)

lemma keymap_nonzero: "list_all (\<lambda>(name, v). 0 < v) KEYMAP"
proof -
  have "list_all (\<lambda>(name, v). 0 < v) key_members" by (simp add: key_members_def)
  then show ?thesis by (fastforce simp: list_all_iff elim: keymap_value)
qed

lemma keymap_distinct: "distinct (map fst KEYMAP)"
  by (simp add: KEYMAP_def)

lemma dash_char: "of_char ch = (45 :: nat) \<longleftrightarrow> ch = CHR ''-''"
  using of_char_eq_iff [where 'a = nat, of ch "CHR ''-''"] by simp

text \<open>The word the recorder has for a key.\<close>

definition key_name :: "nat \<Rightarrow> unicode" where
  "key_name key = (case REVERSE_MAP key of Some name \<Rightarrow> name | None \<Rightarrow> [key])"

lemma REVERSE_MAP_member:
  assumes "REVERSE_MAP v = Some n"
  shows "1 < length n \<and> 45 \<notin> set n \<and> v \<noteq> 0 \<and> keymap_get n = Some v"
proof -
  obtain name where n: "n = uni name" "(name, v) \<in> set KEYMAP"
    using assms by (auto simp: REVERSE_MAP_def dest!: map_of_SomeD)
  have "map_of KEYMAP name = Some v"
    using n keymap_distinct by simp
  then have "keymap_get n = Some v" by (simp add: n keymap_get_def map_of_uni)
  moreover have "1 < length n" "45 \<notin> set n" "v \<noteq> 0"
    using keymap_shape keymap_nonzero n by (auto simp: list_all_iff uni_def dash_char)
  ultimately show ?thesis by simp
qed


lemma single_not_keymap: "keymap_get [k] = None"
proof (rule ccontr)
  assume "keymap_get [k] \<noteq> None"
  then obtain name v where "(name, v) \<in> set KEYMAP" "[k] = uni name"
    by (auto simp: keymap_get_def dest!: map_of_SomeD)
  moreover from this(2) have "length name = 1"
    by (metis length_map One_nat_def length_0_conv length_Cons uni_def)
  ultimately show False
    using keymap_shape by (auto simp: list_all_iff)
qed

lemma split_on_none: "d \<notin> set s \<Longrightarrow> split_on d s = [s]"
  by (induction s) auto

lemma decode_key_name: "decodeKey upper False (key_name k) = Inr [int k]"
proof (cases "REVERSE_MAP k")
  case None
  then show ?thesis
    by (simp add: decodeKey_def key_name_def keysym_def single_not_keymap)
next
  case (Some n)
  then show ?thesis
    using REVERSE_MAP_member [OF Some]
    by (simp add: decodeKey_def key_name_def keysym_def split_on_none)
qed

section \<open>A recorded session is replayed\<close>

text \<open>The keys of a session, as the proxy's handler is called with them, and the script it records.\<close>

definition record_keys :: "clock \<Rightarrow> (nat \<times> bool) list \<Rightarrow> 'o proxy_app \<Rightarrow> 'o proxy_app" where
  "record_keys clock evs a = fold (\<lambda>(key, down) a. snd (proxy_keyEvent clock key (of_bool down) a)) evs a"

definition recorded_script :: "'o proxy_app \<Rightarrow> unicode" where
  "recorded_script a = concat (ap_lines a)"

definition key_command :: "bool \<Rightarrow> unicode" where
  "key_command down = uni (if down then ''keydown'' else ''keyup'')"

fun recorded_words :: "clock \<Rightarrow> nat \<Rightarrow> (nat \<times> bool) list \<Rightarrow> unicode list" where
  "recorded_words clock n [] = []"
| "recorded_words clock n ((key, down) # evs) =
     [uni ''pause'', clock n, key_command down, key_name key] @ recorded_words clock (Suc n) evs"

fun recorded_text :: "clock \<Rightarrow> nat \<Rightarrow> (nat \<times> bool) list \<Rightarrow> unicode" where
  "recorded_text clock n [] = []"
| "recorded_text clock n ((key, down) # evs) =
     uni ''pause'' @ 32 # clock n @ 32 # key_command down @ 32 # shlex_quote (key_name key) @ 32 # 10 #
       recorded_text clock (Suc n) evs"

lemma record_keys_text:
  assumes "\<forall>(key, down) \<in> set evs. key < 0x110000"
  shows "recorded_script (record_keys clock evs a) = recorded_script a @ recorded_text clock (length (ap_lines a)) evs"
  using assms
proof (induction evs arbitrary: a)
  case (Cons e evs)
  obtain key down where e: "e = (key, down)" by force
  let ?a = "snd (proxy_keyEvent clock key (of_bool down) a)"
  have "recorded_script (record_keys clock evs ?a) = recorded_script ?a @ recorded_text clock (length (ap_lines ?a)) evs"
    using Cons by simp
  then show ?case
    using Cons.prems
    by (simp add: e record_keys_def recorded_script_def proxy_keyEvent_def record_line_def key_name_def key_command_def)
qed (simp add: record_keys_def recorded_script_def)

definition plain_word :: "unicode \<Rightarrow> bool" where
  "plain_word w \<longleftrightarrow> w \<noteq> [] \<and> list_all safe_char w"

lemma plain_quote: "plain_word w \<Longrightarrow> shlex_quote w = w"
  by (simp add: plain_word_def shlex_quote_def)

lemma lex_plain: "plain_word w \<Longrightarrow> lex_whitespace p \<Longrightarrow>
    lex Blank [] False (w @ p # rest) = prepend [w] (lex Blank [] False rest)"
  using lex_quote [of p w rest] by (simp add: plain_quote)

lemma plain_commands: "plain_word (uni ''pause'')" "plain_word (key_command down)"
  by (simp_all add: plain_word_def key_command_def uni_def safe_char_def)

lemma lex_blank: "lex_whitespace p \<Longrightarrow> lex Blank [] False (p # rest) = lex Blank [] False rest"
  by simp

lemma lex_recorded:
  assumes "\<forall>i < n + length evs. plain_word (clock i)"
  shows "lex Blank [] False (recorded_text clock n evs) = Inr (recorded_words clock n evs)"
  using assms
proof (induction evs arbitrary: n)
  case (Cons e evs)
  obtain key down where e: "e = (key, down)" by force
  have space: "lex_whitespace 32" "lex_whitespace 10" by (simp_all add: lex_whitespace_def)
  have "plain_word (clock n)" using Cons.prems by simp
  moreover have "lex Blank [] False (recorded_text clock (Suc n) evs) = Inr (recorded_words clock (Suc n) evs)"
    using Cons by simp
  ultimately show ?case
    by (simp add: e lex_plain plain_commands space lex_quote lex_blank del: lex.simps)
qed simp

text \<open>The callbacks of a script on the client, in order, up to the first that raises.\<close>

fun run_actions ::
  "('i, 'k) imaging \<Rightarrow> (unicode \<Rightarrow> bool) \<Rightarrow> (unicode \<Rightarrow> 'i option) \<Rightarrow> action list \<Rightarrow> ('z, 'i, 'k) vnc_state \<Rightarrow>
     exn + ('z, 'i, 'k) vnc_state" where
  "run_actions im upper open_image [] c = Inr c"
| "run_actions im upper open_image (a # acts) c =
     (case run_action im upper open_image a c of
        Inl e \<Rightarrow> Inl e
      | Inr c' \<Rightarrow> run_actions im upper open_image acts c')"

lemma run_delay [simp]:
  "run_actions im upper open_image (delay_pause env @ acts) c = run_actions im upper open_image acts c"
  by (simp add: delay_pause_def run_action_def)

lemma run_key:
  assumes "\<not> fac_force_caps c" "key < 0x110000"
  shows "run_action im upper open_image (if down then KeyDown (key_name key) else KeyUp (key_name key)) c =
    Inr (c\<lparr>st_written := st_written c @ [message_bytes (KeyEvent down key)]\<rparr>)"
  using assms
  by (simp add: run_action_def keyDown_def keyUp_def decode_key_name key_events_write)

lemma step_pause:
  assumes "parse_float env w = Some t" "warped env t = Some t'"
  shows "command_step env (uni ''pause'') (w # rest) = Inr ([Pause t'], rest)"
  by (simp add: command_step_def named_def uni_def andthen_def pop_float_def pop_def act_def assms)

lemma step_key:
  "command_step env (key_command down) (w # rest) = Inr ([if down then KeyDown w else KeyUp w], rest)"
  by (simp add: command_step_def named_def uni_def andthen_def pop_def act_def key_command_def)

text \<open>A clock whose texts a script can pause for.\<close>

definition clock_ok :: "command_env \<Rightarrow> clock \<Rightarrow> nat \<Rightarrow> bool" where
  "clock_ok env clock n \<longleftrightarrow> plain_word (clock n) \<and>
     (case parse_float env (clock n) of None \<Rightarrow> False | Some t \<Rightarrow> warped env t \<noteq> None)"

lemma build_recorded:
  assumes "\<forall>i < n + length evs. clock_ok env clock i" "\<forall>(key, down) \<in> set evs. key < 0x110000"
  shows "\<exists>acts. (\<forall>before. build_from env (recorded_words clock n evs) before = Some (Inr (before @ acts))) \<and>
    (\<forall>c :: ('z, 'i, 'k) vnc_state. \<not> fac_force_caps c \<longrightarrow> run_actions im upper open_image acts c =
      Inr (c\<lparr>st_written := st_written c @ map (\<lambda>(key, down). message_bytes (KeyEvent down key)) evs\<rparr>))"
  using assms
proof (induction evs arbitrary: n)
  case Nil
  then show ?case by (intro exI [of _ "[]"]) (simp add: build_from.simps)
next
  case (Cons e evs)
  obtain key down where e: "e = (key, down)" by force
  obtain acts where acts: "\<And>before. build_from env (recorded_words clock (Suc n) evs) before = Some (Inr (before @ acts))"
    "\<And>c :: ('z, 'i, 'k) vnc_state. \<not> fac_force_caps c \<Longrightarrow> run_actions im upper open_image acts c =
      Inr (c\<lparr>st_written := st_written c @ map (\<lambda>(key, down). message_bytes (KeyEvent down key)) evs\<rparr>)"
    using Cons.IH [of "Suc n"] Cons.prems by auto
  have "clock_ok env clock n" using Cons.prems(1) by simp
  then obtain t t' where t: "parse_float env (clock n) = Some t" "warped env t = Some t'"
    by (auto simp: clock_ok_def split: option.splits)
  let ?key = "if down then KeyDown (key_name key) else KeyUp (key_name key)"
  let ?gap = "if recorded_words clock (Suc n) evs \<noteq> [] then delay_pause env else []"
  let ?acts = "[Pause t'] @ delay_pause env @ [?key] @ ?gap @ acts"
  have "build_from env (recorded_words clock n (e # evs)) before = Some (Inr (before @ ?acts))" for before
    by (simp add: e build_from.simps [of env "uni ''pause'' # _"] build_from.simps [of env "key_command _ # _"]
        step_pause [OF t] step_key acts(1))
  moreover have "run_actions im upper open_image ?acts c =
      Inr (c\<lparr>st_written := st_written c @ map (\<lambda>(key, down). message_bytes (KeyEvent down key)) (e # evs)\<rparr>)"
    if "\<not> fac_force_caps c" for c :: "('z, 'i, 'k) vnc_state"
  proof -
    have "run_actions im upper open_image (?gap @ acts) c' = run_actions im upper open_image acts c'" for c' :: "('z, 'i, 'k) vnc_state"
      by simp
    moreover have "key < 0x110000" using Cons.prems(2) by (simp add: e)
    ultimately show ?thesis
      using that acts(2) [of "c\<lparr>st_written := st_written c @ [message_bytes (KeyEvent down key)]\<rparr>"]
        run_key [OF that, of key im upper open_image down]
      by (simp add: e run_action_def [of _ _ _ "Pause _"] del: append_assoc)
  qed
  ultimately show ?case by blast
qed

text \<open>The words that are commands, and a word that is none, the name of a script.\<close>

definition COMMANDS :: "string list" where
  "COMMANDS =
    [''key'', ''kdown'', ''keydown'', ''kup'', ''keyup'', ''move'', ''mousemove'', ''click'', ''mdown'',
     ''mousedown'', ''mup'', ''mouseup'', ''type'', ''typefile'', ''pastefile'', ''capture'', ''expect'',
     ''rcapture'', ''rexpect'', ''stable'', ''rstable'', ''pause'', ''sleep'', ''drag'']"

lemma step_file:
  assumes "\<not> named name COMMANDS" "file_text env name = Some s" "split_script s = Inr ws"
  shows "command_step env name args = Inr ([], ws @ args)"
  using assms by (simp add: command_step_def named_def COMMANDS_def)

lemma recorded_keys_run:
  fixes c :: "('z, 'i, 'k) vnc_state"
  assumes keys: "\<forall>(key, down) \<in> set evs. key < 0x110000"
    and clock: "\<forall>i < length evs. clock_ok env clock i"
    and script: "\<not> named name COMMANDS" "file_text env name = Some (recorded_script (record_keys clock evs a))"
    and fresh: "ap_lines a = []" and caps: "\<not> fac_force_caps c"
  shows "\<exists>acts. build_command_list env [name] = Some (Inr acts) \<and>
    run_actions im upper open_image acts c =
      Inr (c\<lparr>st_written := st_written c @ map (\<lambda>(key, down). message_bytes (KeyEvent down key)) evs\<rparr>)"
proof -
  let ?ws = "recorded_words clock 0 evs"
  have clock': "\<forall>i < 0 + length evs. clock_ok env clock i"
    using clock by simp
  then have "\<forall>i < 0 + length evs. plain_word (clock i)"
    by (simp add: clock_ok_def)
  then have "split_script (recorded_script (record_keys clock evs a)) = Inr ?ws"
    by (simp add: record_keys_text [OF keys] split_script_def lex_recorded fresh)
      (simp add: recorded_script_def lex_recorded fresh)
  then have step: "command_step env name [] = Inr ([], ?ws)"
    using step_file [OF script, of ?ws "[]"] by simp
  let ?gap = "if ?ws \<noteq> [] then delay_pause env else []"
  obtain acts where acts: "\<And>before. build_from env ?ws before = Some (Inr (before @ acts))"
    "\<And>c :: ('z, 'i, 'k) vnc_state. \<not> fac_force_caps c \<Longrightarrow> run_actions im upper open_image acts c =
      Inr (c\<lparr>st_written := st_written c @ map (\<lambda>(key, down). message_bytes (KeyEvent down key)) evs\<rparr>)"
    using build_recorded [OF clock' keys, of im upper open_image] by blast
  have "build_command_list env [name] = Some (Inr (?gap @ acts))"
    by (simp add: build_command_list_def build_from.simps [of env "name # _"] step acts(1))
  moreover have "run_actions im upper open_image (?gap @ acts) c = run_actions im upper open_image acts c"
    by simp
  ultimately show ?thesis using acts(2) [OF caps] by auto
qed

text \<open>The key messages of a client, read by the proxy, are what its handler records.\<close>

definition key_message :: "nat \<times> bool \<Rightarrow> bytes" where
  "key_message e = (case e of (key, down) \<Rightarrow> message_bytes (KeyEvent down key))"

lemma proxy_records_keys:
  assumes "\<forall>(key, down) \<in> set evs. key < 0x110000" "rs_parked s = AwaitProtocol 1"
  shows "serve_client (proxy_handlers clock ob) pw (s\<lparr>rs_buffer := concat (map key_message evs)\<rparr>) =
    (None, s\<lparr>rs_buffer := [], rs_app := record_keys clock evs (rs_app s)\<rparr>)"
  using assms
proof (induction evs arbitrary: s)
  case Nil
  then show ?case
    by (subst serve_client.simps) (simp add: server_ready_def threshold_def record_keys_def)
next
  case (Cons e evs)
  obtain key down where e: "e = (key, down)" by force
  have key: "key < 0x110000" using Cons.prems(1) by (simp add: e)
  let ?a = "snd (proxy_keyEvent clock key (of_bool down) (rs_app s))"
  have handled: "proxy_handlers clock ob (event_of (KeyEvent down key)) (rs_app s) = (None, ?a)"
    using key by (simp add: proxy_handlers_def proxy_keyEvent_def)
  have "serve_client (proxy_handlers clock ob) pw (s\<lparr>rs_buffer := concat (map key_message (e # evs))\<rparr>) =
      serve_client (proxy_handlers clock ob) pw (s\<lparr>rs_buffer := concat (map key_message evs), rs_app := ?a\<rparr>)"
    using protocol_message [of "KeyEvent down key" "s\<lparr>rs_buffer := concat (map key_message (e # evs))\<rparr>"
        "concat (map key_message evs)" "proxy_handlers clock ob" ?a pw] handled key Cons.prems(2)
    by (cases down) (simp_all add: e key_message_def)
  also have "s\<lparr>rs_buffer := concat (map key_message evs), rs_app := ?a\<rparr> =
      (s\<lparr>rs_app := ?a\<rparr>)\<lparr>rs_buffer := concat (map key_message evs)\<rparr>"
    by (cases s) simp
  also have "serve_client (proxy_handlers clock ob) pw \<dots> = (None, s\<lparr>rs_buffer := [], rs_app := record_keys clock evs ?a\<rparr>)"
    using Cons.IH [of "s\<lparr>rs_app := ?a\<rparr>"] Cons.prems by (cases s) simp
  finally show ?case by (simp add: e record_keys_def)
qed


definition sample_keys :: "(nat \<times> bool) list" where
  "sample_keys = [(0xFFE1, True), (65, True), (65, False), (0xFFE1, False), (39, True), (45, True), (35, False)]"

definition sample_clock :: clock where
  "sample_clock n = uni ''0.2500''"

definition no_observer :: "unit observer" where
  "no_observer = \<lparr>ob_start = (), ob_data = (\<lambda>d v. v), ob_format = (\<lambda>pf v. (None, v)), ob_offered = (\<lambda>es v. v),
     ob_noted = (\<lambda>v. [])\<rparr>"

definition sample_proxy :: "unit proxy_app rfb_server" where
  "sample_proxy = (server_init \<lparr>ap_lines = [], ap_mouse = None, ap_observer = None\<rparr>)\<lparr>rs_parked := AwaitProtocol 1\<rparr>"

definition sample_env :: command_env where
  "sample_env =
    \<lparr>foreign_int = Map.empty, parse_float = (\<lambda>w. Some (Finite (1/4))), warped = Some,
     file_text = (\<lambda>f. Some (recorded_script (rs_app (snd (server_dataReceived (proxy_handlers sample_clock no_observer) False
       (concat (map key_message sample_keys)) sample_proxy))))),
     stdin_text = [], ce_delay = 10, ce_incremental = False\<rparr>"


end
