(* ===== verification/Api.thy ===== *)
theory Api
  imports Main
begin

text \<open>
  \<open>vncdotool/api.py\<close>: the client of an application without a reactor of its own. Calls go from the application's
  thread through \<open>callFromThread\<close> to the reactor's, where they are callbacks of the factory's deferred; the results
  come back through a queue. The two threads are the interleavings of their steps, which are events; the
  application has one thread, as a proxy's single queue requires.

  The methods of the client are opaque: what one returns or raises is part of the event that ends it. A value is
  the client itself, which most methods return, None, or anything else, such as the image of a
  \<open>renderScreen\<close>.
\<close>

section \<open>State\<close>

datatype 'x passed = TheClient | Nothing | Other 'x

datatype ('x, 'e) result = Value "'x passed" | Failed 'e

datatype 'm request = Method 'm | Disconnect nat

datatype 'm caller = Idle | Calling 'm | Disconnecting nat

datatype ('x, 'e) answer = Got "('x, 'e) result" | TimedOut

text \<open>
  \<open>api_current\<close> is the result the factory's deferred stands at: None before it fires and while it waits for the
  deferred of a running method. \<open>api_pending\<close> are the callbacks posted to it that have not run. The event of each
  \<open>disconnect\<close> has a number: \<open>api_callbacks\<close> are those that the loss of the connection sets, \<open>api_events\<close> those that
  are set. The last three fields are history: what was executed on which value, how each method ended, and what the application got.
\<close>

record ('m, 'x, 'e) api =
  api_fired :: bool
  api_current :: "('x, 'e) result option"
  api_protocol :: bool
  api_pending :: "'m request list"
  api_running :: "'m option"
  api_queue :: "('x, 'e) result list"
  api_caller :: "'m caller"
  api_next :: nat
  api_callbacks :: "nat list"
  api_events :: "nat list"
  api_executed :: "('m \<times> 'x passed) list"
  api_outcomes :: "('m \<times> ('x, 'e) result) list"
  api_answers :: "('m \<times> ('x, 'e) answer) list"

definition api_init :: "('m, 'x, 'e) api" where
  "api_init =
     \<lparr>api_fired = False, api_current = None, api_protocol = False, api_pending = [], api_running = None,
      api_queue = [], api_caller = Idle, api_next = 0, api_callbacks = [], api_events = [],
      api_executed = [], api_outcomes = [], api_answers = []\<rparr>"

section \<open>Steps\<close>

text \<open>The application's thread.\<close>

definition call_method :: "'m \<Rightarrow> ('m, 'x, 'e) api \<Rightarrow> ('m, 'x, 'e) api option" where
  "call_method m s =
     (if api_caller s = Idle
      then Some (s\<lparr>api_caller := Calling m, api_pending := api_pending s @ [Method m]\<rparr>) else None)"

definition call_disconnect :: "('m, 'x, 'e) api \<Rightarrow> ('m, 'x, 'e) api option" where
  "call_disconnect s =
     (if api_caller s = Idle
      then Some (s\<lparr>api_caller := Disconnecting (api_next s), api_next := Suc (api_next s),
        api_pending := api_pending s @ [Disconnect (api_next s)]\<rparr>)
      else None)"

text \<open>\<open>queue.get\<close> and \<open>event.wait\<close>, which return when there is something, and when the time is over.\<close>

definition receive :: "('m, 'x, 'e) api \<Rightarrow> ('m, 'x, 'e) api option" where
  "receive s =
     (case api_caller s of
        Idle \<Rightarrow> None
      | Disconnecting n \<Rightarrow> if n \<in> set (api_events s) then Some (s\<lparr>api_caller := Idle\<rparr>) else None
      | Calling m \<Rightarrow>
          (case api_queue s of
             [] \<Rightarrow> None
           | r # rs \<Rightarrow>
               Some (s\<lparr>api_caller := Idle, api_queue := rs, api_answers := api_answers s @ [(m, Got r)]\<rparr>)))"

definition time_out :: "('m, 'x, 'e) api \<Rightarrow> ('m, 'x, 'e) api option" where
  "time_out s =
     (case api_caller s of
        Idle \<Rightarrow> None
      | Disconnecting n \<Rightarrow> if n \<in> set (api_events s) then None else Some (s\<lparr>api_caller := Idle\<rparr>)
      | Calling m \<Rightarrow>
          if api_queue s = []
          then Some (s\<lparr>api_caller := Idle, api_answers := api_answers s @ [(m, TimedOut)]\<rparr>) else None)"

text \<open>
  The reactor's thread: the connection is made, with \<open>capture_protocol\<close> as the first callback, or fails; the
  next callback of the factory's deferred runs; the deferred of a method fires; the connection is lost. A
  method is called on whatever the deferred stands at; after a failure the errback answers instead of it.
\<close>

definition connection_made :: "('m, 'x, 'e) api \<Rightarrow> ('m, 'x, 'e) api option" where
  "connection_made s =
     (if api_fired s then None
      else Some (s\<lparr>api_fired := True, api_current := Some (Value TheClient), api_protocol := True\<rparr>))"

definition connection_failed :: "'e \<Rightarrow> ('m, 'x, 'e) api \<Rightarrow> ('m, 'x, 'e) api option" where
  "connection_failed e s =
     (if api_fired s then None else Some (s\<lparr>api_fired := True, api_current := Some (Failed e)\<rparr>))"

definition run_next :: "('m, 'x, 'e) api \<Rightarrow> ('m, 'x, 'e) api option" where
  "run_next s =
     (case (api_current s, api_pending s) of
        (Some (Value v), Method m # rest) \<Rightarrow>
          Some (s\<lparr>api_current := None, api_pending := rest, api_running := Some m,
            api_executed := api_executed s @ [(m, v)]\<rparr>)
      | (Some (Failed e), Method m # rest) \<Rightarrow>
          Some (s\<lparr>api_pending := rest, api_queue := api_queue s @ [Failed e],
            api_outcomes := api_outcomes s @ [(m, Failed e)]\<rparr>)
      | (Some r, Disconnect n # rest) \<Rightarrow>
          Some (if api_protocol s
                then s\<lparr>api_current := Some (Value Nothing), api_pending := rest, api_callbacks := api_callbacks s @ [n]\<rparr>
                else s\<lparr>api_current := Some (Value Nothing), api_pending := rest, api_events := api_events s @ [n]\<rparr>)
      | _ \<Rightarrow> None)"

definition method_ends :: "('x, 'e) result \<Rightarrow> ('m, 'x, 'e) api \<Rightarrow> ('m, 'x, 'e) api option" where
  "method_ends r s =
     (case api_running s of
        None \<Rightarrow> None
      | Some m \<Rightarrow>
          Some (s\<lparr>api_running := None, api_current := Some r, api_queue := api_queue s @ [r],
            api_outcomes := api_outcomes s @ [(m, r)]\<rparr>))"

definition connection_lost :: "('m, 'x, 'e) api \<Rightarrow> ('m, 'x, 'e) api option" where
  "connection_lost s = Some (s\<lparr>api_callbacks := [], api_events := api_events s @ api_callbacks s\<rparr>)"

datatype ('m, 'x, 'e) api_event =
    CallMethod 'm | CallDisconnect | Receives | TimesOut
  | ConnectionMade | ConnectionFails 'e | RunsNext | MethodEnds "('x, 'e) result" | ConnectionLost

definition api_step :: "('m, 'x, 'e) api_event \<Rightarrow> ('m, 'x, 'e) api \<Rightarrow> ('m, 'x, 'e) api option" where
  "api_step ev s =
     (case ev of
        CallMethod m \<Rightarrow> call_method m s
      | CallDisconnect \<Rightarrow> call_disconnect s
      | Receives \<Rightarrow> receive s
      | TimesOut \<Rightarrow> time_out s
      | ConnectionMade \<Rightarrow> connection_made s
      | ConnectionFails e \<Rightarrow> connection_failed e s
      | RunsNext \<Rightarrow> run_next s
      | MethodEnds r \<Rightarrow> method_ends r s
      | ConnectionLost \<Rightarrow> connection_lost s)"

fun api_run :: "('m, 'x, 'e) api_event list \<Rightarrow> ('m, 'x, 'e) api \<Rightarrow> ('m, 'x, 'e) api option" where
  "api_run [] s = Some s"
| "api_run (ev # evs) s = (case api_step ev s of None \<Rightarrow> None | Some s' \<Rightarrow> api_run evs s')"

text \<open>What can be reached; \<open>patient\<close> when no call gives up.\<close>

inductive api_reaches :: "bool \<Rightarrow> ('m, 'x, 'e) api \<Rightarrow> bool" for patient :: bool where
  start: "api_reaches patient api_init"
| step: "api_reaches patient s \<Longrightarrow> api_step ev s = Some s' \<Longrightarrow> patient \<longrightarrow> ev \<noteq> TimesOut \<Longrightarrow> api_reaches patient s'"

lemmas api_steps = api_step_def call_method_def call_disconnect_def receive_def time_out_def connection_made_def
  connection_failed_def run_next_def method_ends_def connection_lost_def

lemma run_reaches:
  "api_run evs s = Some s' \<Longrightarrow> api_reaches patient s \<Longrightarrow> TimesOut \<notin> set evs \<Longrightarrow> api_reaches patient s'"
proof (induction evs arbitrary: s)
  case (Cons ev evs)
  then show ?case by (auto split: option.splits intro: api_reaches.step)
qed simp

section \<open>Whose result a call gets\<close>

text \<open>The invariant of patient calls: what was asked is in one place, and every older result was handed over.\<close>

definition patient_ok :: "('m, 'x, 'e) api \<Rightarrow> bool" where
  "patient_ok s \<longleftrightarrow>
     (let answered = map (\<lambda>(m, r). (m, Got r)); used = set (api_events s) \<union> set (api_callbacks s)
      in (\<forall>n \<in> used. n < api_next s) \<and>
         (case api_caller s of
            Idle \<Rightarrow> api_pending s = [] \<and> api_running s = None \<and> api_queue s = [] \<and>
              api_answers s = answered (api_outcomes s)
          | Disconnecting n \<Rightarrow> api_running s = None \<and> api_queue s = [] \<and> api_answers s = answered (api_outcomes s) \<and>
              n < api_next s \<and> (api_pending s = [Disconnect n] \<and> n \<notin> used \<or> api_pending s = [])
          | Calling m \<Rightarrow>
              (case api_queue s of
                 [] \<Rightarrow> api_answers s = answered (api_outcomes s) \<and>
                   (api_pending s = [Method m] \<and> api_running s = None \<or>
                    api_pending s = [] \<and> api_running s = Some m)
               | r # rs \<Rightarrow> rs = [] \<and> api_pending s = [] \<and> api_running s = None \<and>
                   answered (api_outcomes s) = api_answers s @ [(m, Got r)])))"

lemma patient_ok_step:
  assumes "patient_ok s" "api_step ev s = Some s'" "ev \<noteq> TimesOut"
  shows "patient_ok s'"
proof (cases "api_caller s")
  case Idle
  then show ?thesis
    using assms
    by (cases ev; auto simp: api_steps patient_ok_def ball_Un split: if_splits option.splits result.splits;
        meson less_SucI less_irrefl)
next
  case (Calling m)
  then show ?thesis
    using assms
    by (cases ev; cases "api_queue s")
      (auto simp: api_steps patient_ok_def ball_Un intro: less_SucI split: if_splits option.splits result.splits request.splits list.splits)
next
  case (Disconnecting n)
  then show ?thesis
    using assms
    by (cases ev)
      (auto simp: api_steps patient_ok_def ball_Un intro: less_SucI split: if_splits option.splits result.splits request.splits list.splits)
qed

lemma patient_reaches: "api_reaches True s \<Longrightarrow> patient_ok s"
proof (induction rule: api_reaches.induct)
  case start
  then show ?case by (simp add: patient_ok_def api_init_def)
next
  case (step s ev s')
  then show ?case using patient_ok_step by blast
qed

text \<open>
  C8: a call gets its own result. However the two threads are interleaved, as long as no call gives up waiting, what
  the application got is what its methods ended with, one answer for each call and in the order of the
  calls; at most the last result is still on its way, and none is when no call is waiting.
\<close>

theorem api_answers_in_order:
  assumes "api_reaches True s"
  shows "api_answers s = map (\<lambda>(m, r). (m, Got r)) (take (length (api_answers s)) (api_outcomes s)) \<and>
    length (api_outcomes s) \<le> Suc (length (api_answers s)) \<and>
    (if api_caller s = Idle then length (api_outcomes s) = length (api_answers s) else True)"
proof -
  have "patient_ok s" using assms by (rule patient_reaches)
  then consider "api_answers s = map (\<lambda>(m, r). (m, Got r)) (api_outcomes s)"
    | m r where "map (\<lambda>(m, r). (m, Got r)) (api_outcomes s) = api_answers s @ [(m, Got r)]" "api_caller s = Calling m"
    by (cases "api_caller s"; cases "api_queue s") (auto simp: patient_ok_def Let_def)
  then show ?thesis
  proof cases
    case 1
    then show ?thesis by simp
  next
    case 2
    then have "length (api_outcomes s) = Suc (length (api_answers s))"
      by (metis length_map length_append_singleton)
    moreover have "map (\<lambda>(m, r). (m, Got r)) (take (length (api_answers s)) (api_outcomes s)) = api_answers s"
      by (simp add: 2(1) flip: take_map)
    ultimately show ?thesis using 2(2) by simp
  qed
qed

definition two_calls :: "(nat, unit, nat) api_event list" where
  "two_calls = [CallMethod 1, ConnectionMade, RunsNext, MethodEnds (Value TheClient), Receives, CallMethod 2, RunsNext,
     MethodEnds (Failed 7)]"

lemma api_answers_in_order_witness:
  "\<exists>s. api_run two_calls api_init = Some s \<and> api_answers s = [(1, Got (Value TheClient))] \<and>
    api_answers s = map (\<lambda>(m, r). (m, Got r)) (take 1 (api_outcomes s))"
proof -
  obtain s where s: "api_run two_calls api_init = Some s" "api_answers s = [(1, Got (Value TheClient))]"
    by (simp add: two_calls_def api_steps api_init_def)
  have "api_reaches True s"
    using run_reaches [OF s(1) api_reaches.start] by (simp add: two_calls_def)
  from api_answers_in_order [OF this] s show ?thesis by simp
qed

section \<open>After a failure, and after a time-out\<close>

definition is_method :: "'m request \<Rightarrow> bool" where
  "is_method q = (case q of Method m \<Rightarrow> True | Disconnect n \<Rightarrow> False)"

lemma failed_step:
  assumes "api_step ev s = Some s'" "ev \<noteq> CallDisconnect" "api_current s = Some (Failed e)" "api_fired s"
    "list_all is_method (api_pending s)" "api_running s = None"
  shows "api_current s' = Some (Failed e) \<and> api_fired s' \<and> list_all is_method (api_pending s') \<and> api_running s' = None \<and>
    api_executed s' = api_executed s \<and> (\<exists>ms. api_outcomes s' = api_outcomes s @ map (\<lambda>m. (m, Failed e)) ms)"
  using assms
  by (cases ev)
    (auto simp: api_steps is_method_def split: if_splits option.splits result.splits request.splits list.splits caller.splits
      intro: exI [of _ "[]"] exI [of _ "[_]"])


definition failing_call :: "(nat, unit, nat) api_event list" where
  "failing_call = [CallMethod 1, ConnectionMade, RunsNext, MethodEnds (Failed 7), Receives]"


text \<open>A call that gave up leaves its result to the next one, which is answered with it.\<close>

definition impatient_calls :: "(nat, nat, nat) api_event list" where
  "impatient_calls = [ConnectionMade, CallMethod 1, RunsNext, TimesOut, MethodEnds (Value (Other 11)), CallMethod 2, Receives]"

lemma stale_answer:
  "case api_run impatient_calls api_init of
     None \<Rightarrow> False
   | Some s \<Rightarrow> api_answers s = [(1, TimedOut), (2, Got (Value (Other 11)))] \<and> api_outcomes s = [(1, Value (Other 11))]"
  by (simp add: impatient_calls_def api_steps api_init_def)

text \<open>A method that returns something else than the client has the next one called on that.\<close>

lemma called_on_a_result:
  "case api_run [ConnectionMade, CallMethod (1 :: nat), RunsNext, MethodEnds (Value (Other (11 :: nat))), Receives, CallMethod 2,
     RunsNext] api_init of
     None \<Rightarrow> False
   | Some s \<Rightarrow> api_executed s = [(1, TheClient), (2, Other 11)]"
  by (simp add: api_steps api_init_def)

end
