(* ===== verification/ReactorThread.thy ===== *)
theory ReactorThread
  imports Main
begin

text \<open>
  The reactor's thread of \<open>vncdotool/api.py\<close>: \<open>connect\<close> starts it where the reactor is not running yet, and \<open>shutdown\<close>
  stops the reactor and waits for the thread. The application has one thread; the reactor's threads, normally
  one, run when they are scheduled. Twisted's reactor is a parameter.
\<close>

section \<open>The reactor\<close>

text \<open>
  \<open>reactor.running\<close>; \<open>reactor.run()\<close> up to where it runs, None where it raises; and what is left of it when it has been stopped.
\<close>

record 'r reactor =
  re_running :: "'r \<Rightarrow> bool"
  re_run :: "'r \<Rightarrow> 'r option"
  re_stop :: "'r \<Rightarrow> 'r"

text \<open>What Twisted documents: a reactor runs once at a time, and one that was stopped cannot be run again.\<close>

definition runs_once :: "'r reactor \<Rightarrow> bool" where
  "runs_once re \<longleftrightarrow>
     (\<forall>r r'. re_run re r = Some r' \<longrightarrow> \<not> re_running re r \<and> re_running re r') \<and>
     (\<forall>r. \<not> re_running re (re_stop re r) \<and> re_run re (re_stop re r) = None)"

section \<open>State\<close>

datatype thread = NotScheduled | InReactor | Ended

text \<open>
  \<open>pr_thread\<close> is \<open>_THREAD\<close>; \<open>pr_stop\<close> is that \<open>reactor.stop\<close> was posted; \<open>pr_joining\<close> is the thread that \<open>shutdown\<close>
  waits for, where the application's thread is in it.
\<close>

record 'r process =
  pr_reactor :: 'r
  pr_threads :: "thread list"
  pr_thread :: "nat option"
  pr_stop :: bool
  pr_joining :: "nat option"

definition new_process :: "'r \<Rightarrow> 'r process" where
  "new_process r = \<lparr>pr_reactor = r, pr_threads = [], pr_thread = None, pr_stop = False, pr_joining = None\<rparr>"

section \<open>Steps\<close>

text \<open>\<open>connect\<close> up to the factory.\<close>

definition connect_thread :: "'r reactor \<Rightarrow> 'r process \<Rightarrow> 'r process" where
  "connect_thread re p =
     (if re_running re (pr_reactor p) then p
      else p\<lparr>pr_threads := pr_threads p @ [NotScheduled], pr_thread := Some (length (pr_threads p))\<rparr>)"

definition shutdown :: "'r reactor \<Rightarrow> 'r process \<Rightarrow> 'r process" where
  "shutdown re p =
     (if \<not> re_running re (pr_reactor p) then p
      else p\<lparr>pr_stop := True, pr_joining := pr_thread p\<rparr>)"

text \<open>\<open>join\<close> returns when the thread has ended.\<close>

definition join_returns :: "'r process \<Rightarrow> 'r process option" where
  "join_returns p =
     (case pr_joining p of
        None \<Rightarrow> None
      | Some i \<Rightarrow> if pr_threads p ! i = Ended then Some (p\<lparr>pr_joining := None, pr_thread := None\<rparr>) else None)"

text \<open>A thread gets to \<open>reactor.run\<close>, which may raise; the reactor stops, and the thread in it ends.\<close>

definition thread_runs :: "'r reactor \<Rightarrow> nat \<Rightarrow> 'r process \<Rightarrow> 'r process option" where
  "thread_runs re i p =
     (if i < length (pr_threads p) \<and> pr_threads p ! i = NotScheduled
      then
        Some (case re_run re (pr_reactor p) of
            None \<Rightarrow> p\<lparr>pr_threads := (pr_threads p)[i := Ended]\<rparr>
          | Some r \<Rightarrow> p\<lparr>pr_threads := (pr_threads p)[i := InReactor], pr_reactor := r\<rparr>)
      else None)"

definition reactor_stops :: "'r reactor \<Rightarrow> 'r process \<Rightarrow> 'r process option" where
  "reactor_stops re p =
     (if pr_stop p \<and> re_running re (pr_reactor p)
      then Some (p\<lparr>pr_reactor := re_stop re (pr_reactor p),
             pr_threads := map (\<lambda>t. if t = InReactor then Ended else t) (pr_threads p)\<rparr>)
      else None)"

text \<open>\<open>none_waiting\<close>: no thread waits to be scheduled. A careful application calls \<open>connect\<close> only then.\<close>

definition none_waiting :: "'r process \<Rightarrow> bool" where
  "none_waiting p \<longleftrightarrow> NotScheduled \<notin> set (pr_threads p)"

inductive process_step :: "'r reactor \<Rightarrow> bool \<Rightarrow> 'r process \<Rightarrow> 'r process \<Rightarrow> bool" for re careful where
  Connects: "pr_joining p = None \<Longrightarrow> careful \<longrightarrow> none_waiting p \<Longrightarrow> process_step re careful p (connect_thread re p)"
| ShutsDown: "pr_joining p = None \<Longrightarrow> process_step re careful p (shutdown re p)"
| Joined: "join_returns p = Some p' \<Longrightarrow> process_step re careful p p'"
| Runs: "thread_runs re i p = Some p' \<Longrightarrow> process_step re careful p p'"
| Stops: "reactor_stops re p = Some p' \<Longrightarrow> process_step re careful p p'"

inductive reached :: "'r reactor \<Rightarrow> bool \<Rightarrow> 'r process \<Rightarrow> bool" for re careful where
  Fresh: "\<not> re_running re r \<Longrightarrow> reached re careful (new_process r)"
| Step: "reached re careful p \<Longrightarrow> process_step re careful p p' \<Longrightarrow> reached re careful p'"

section \<open>A careful application\<close>

text \<open>
  The reactor runs in the thread that \<open>_THREAD\<close> is, and no other thread is alive; where it does not run, no thread is in
  it and only \<open>_THREAD\<close> may still get to run. \<open>shutdown\<close> waits for \<open>_THREAD\<close>, with the stop posted.
\<close>

definition only :: "thread \<Rightarrow> 'r process \<Rightarrow> bool" where
  "only t p \<longleftrightarrow> (\<exists>i n. i < n \<and> pr_thread p = Some i \<and> pr_threads p = (replicate n Ended)[i := t])"

definition well_threaded :: "'r reactor \<Rightarrow> 'r process \<Rightarrow> bool" where
  "well_threaded re p \<longleftrightarrow>
     (if re_running re (pr_reactor p) then only InReactor p
      else set (pr_threads p) \<subseteq> {Ended} \<or> pr_joining p = None \<and> only NotScheduled p) \<and>
     (pr_joining p \<noteq> None \<longrightarrow> pr_joining p = pr_thread p)"

lemma well_threaded_new: "\<not> re_running re r \<Longrightarrow> well_threaded re (new_process r)"
  by (simp add: well_threaded_def new_process_def)

lemma only_started:
  assumes "set ts \<subseteq> {Ended}"
  shows "ts @ [t] = (replicate (Suc (length ts)) Ended)[length ts := t]"
proof -
  have "ts = replicate (length ts) Ended" using assms by (simp add: replicate_eqI subset_iff)
  then show ?thesis by (metis append_Nil2 length_replicate list_update_length replicate_Suc replicate_append_same)
qed

lemma replaced_set: "x \<in> set ((replicate n a)[i := t]) \<Longrightarrow> x = a \<or> x = t"
  using set_update_subset_insert[of "replicate n a" i t] by auto

lemma only_set: "only t p \<Longrightarrow> t \<in> set (pr_threads p)"
  by (auto simp: only_def set_update_memI)

lemma well_threaded_connect:
  assumes "well_threaded re p" "pr_joining p = None" "none_waiting p"
  shows "well_threaded re (connect_thread re p)"
proof (cases "re_running re (pr_reactor p)")
  case False
  with assms(1,3) have "set (pr_threads p) \<subseteq> {Ended}" using only_set[of NotScheduled p] by (auto simp: well_threaded_def none_waiting_def)
  from only_started[OF this, of NotScheduled] have "only NotScheduled (connect_thread re p)"
    using False unfolding only_def connect_thread_def by (intro exI[of _ "length (pr_threads p)"] exI[of _ "Suc (length (pr_threads p))"]) simp
  with False assms(2) show ?thesis by (simp add: well_threaded_def connect_thread_def)
qed (use assms in \<open>simp add: connect_thread_def\<close>)

lemma well_threaded_shutdown:
  assumes "well_threaded re p" "pr_joining p = None"
  shows "well_threaded re (shutdown re p)"
  using assms by (auto simp: well_threaded_def shutdown_def only_def)

lemma well_threaded_join:
  assumes "well_threaded re p" "join_returns p = Some p'"
  shows "\<not> re_running re (pr_reactor p') \<and> set (pr_threads p') \<subseteq> {Ended} \<and> pr_thread p' = None \<and> pr_joining p' = None"
  using assms by (auto simp: well_threaded_def join_returns_def only_def split: option.splits if_splits)

lemma well_threaded_kept:
  "well_threaded re p \<Longrightarrow> join_returns p = Some p' \<Longrightarrow> well_threaded re p'"
  using well_threaded_join[of re p p'] by (simp add: well_threaded_def)

lemma well_threaded_runs:
  assumes "well_threaded re p" "runs_once re" "thread_runs re i p = Some p'"
  shows "well_threaded re p'"
proof -
  have i: "i < length (pr_threads p)" "pr_threads p ! i = NotScheduled"
    using assms(3) by (auto simp: thread_runs_def split: if_splits)
  have "only NotScheduled p \<and> \<not> re_running re (pr_reactor p) \<and> pr_joining p = None"
    using assms(1) i nth_mem[OF i(1)] by (auto simp: well_threaded_def only_def nth_list_update split: if_splits)
  then obtain n where n: "i < n" "pr_thread p = Some i" "pr_threads p = (replicate n Ended)[i := NotScheduled]"
    "\<not> re_running re (pr_reactor p)" "pr_joining p = None"
    using i by (auto simp: only_def nth_list_update split: if_splits)
  show ?thesis
  proof (cases "re_run re (pr_reactor p)")
    case None
    then have "set (pr_threads p') \<subseteq> {Ended}" "pr_reactor p' = pr_reactor p" "pr_joining p' = None"
      using assms(3) i n by (auto simp: thread_runs_def dest: replaced_set)
    then show ?thesis using n(4) by (simp add: well_threaded_def)
  next
    case (Some r)
    then have "only InReactor p'" "pr_reactor p' = r" "pr_joining p' = None"
      using assms(3) i n by (auto simp: thread_runs_def only_def)
    then show ?thesis using assms(2) Some by (auto simp: well_threaded_def runs_once_def)
  qed
qed

lemma well_threaded_stops:
  assumes "well_threaded re p" "runs_once re" "reactor_stops re p = Some p'"
  shows "well_threaded re p'"
proof -
  have "only InReactor p" using assms(1,3) by (auto simp: well_threaded_def reactor_stops_def split: if_splits)
  then have "set (pr_threads p') \<subseteq> {Ended}" using assms(3)
    by (auto simp: only_def reactor_stops_def dest: replaced_set split: if_splits)
  with assms show ?thesis by (auto simp: well_threaded_def reactor_stops_def runs_once_def split: if_splits)
qed

lemma careful_well_threaded:
  assumes "reached re True p" "runs_once re"
  shows "well_threaded re p"
  using assms(1)
proof (induction rule: reached.induct)
  case (Fresh r)
  then show ?case by (rule well_threaded_new)
next
  case (Step p p')
  from Step.hyps(2) Step.IH assms(2) show ?case
    by cases (auto intro: well_threaded_connect well_threaded_shutdown well_threaded_kept well_threaded_runs
        well_threaded_stops)
qed


text \<open>A reactor that is new, runs, or was stopped, and an application that connects, shuts down and waits.\<close>

definition sample_reactor :: "nat reactor" where
  "sample_reactor = \<lparr>re_running = (\<lambda>r. r = 1), re_run = (\<lambda>r. if r = 0 then Some 1 else None), re_stop = (\<lambda>r. 2)\<rparr>"

definition sample_waiting :: "nat process" where
  "sample_waiting = \<lparr>pr_reactor = 2, pr_threads = [Ended], pr_thread = Some 0, pr_stop = True, pr_joining = Some 0\<rparr>"

lemmas thread_steps = connect_thread_def shutdown_def join_returns_def thread_runs_def reactor_stops_def new_process_def
  sample_reactor_def none_waiting_def

lemma sample_runs_once: "runs_once sample_reactor"
  by (auto simp: runs_once_def sample_reactor_def split: if_splits)

lemma reached_connect:
  "reached re c p \<Longrightarrow> pr_joining p = None \<Longrightarrow> c \<longrightarrow> none_waiting p \<Longrightarrow> reached re c (connect_thread re p)"
  by (blast intro: Step process_step.Connects)

lemma reached_shutdown: "reached re c p \<Longrightarrow> pr_joining p = None \<Longrightarrow> reached re c (shutdown re p)"
  by (blast intro: Step process_step.ShutsDown)

lemma reached_runs: "reached re c p \<Longrightarrow> thread_runs re i p = Some p' \<Longrightarrow> reached re c p'"
  by (blast intro: Step process_step.Runs)

lemma reached_stops: "reached re c p \<Longrightarrow> reactor_stops re p = Some p' \<Longrightarrow> reached re c p'"
  by (blast intro: Step process_step.Stops)

lemma sample_running:
  "reached sample_reactor c \<lparr>pr_reactor = 1, pr_threads = [InReactor], pr_thread = Some 0, pr_stop = False, pr_joining = None\<rparr>"
proof -
  have "reached sample_reactor c (new_process 0)" by (rule Fresh) (simp add: sample_reactor_def)
  from reached_connect[OF this] have
    "reached sample_reactor c \<lparr>pr_reactor = 0, pr_threads = [NotScheduled], pr_thread = Some 0, pr_stop = False, pr_joining = None\<rparr>"
    by (simp add: thread_steps)
  from reached_runs[OF this, of 0] show ?thesis by (simp add: thread_steps)
qed

lemma sample_waits: "reached sample_reactor True sample_waiting"
proof -
  from reached_shutdown[OF sample_running] have
    "reached sample_reactor True \<lparr>pr_reactor = 1, pr_threads = [InReactor], pr_thread = Some 0, pr_stop = True, pr_joining = Some 0\<rparr>"
    by (simp add: thread_steps)
  from reached_stops[OF this] show ?thesis by (simp add: thread_steps sample_waiting_def)
qed


section \<open>A hasty application\<close>

text \<open>
  Two calls of \<open>connect\<close>, the second before the thread of the first got to the reactor: the second thread cannot run it,
  but it is the one \<open>shutdown\<close> waits for, which returns while the reactor runs.
\<close>

lemma shutdown_does_not_wait:
  "\<exists>p p'. reached sample_reactor False p \<and> join_returns p = Some p' \<and> re_running sample_reactor (pr_reactor p')"
proof -
  have "reached sample_reactor False (new_process 0)" by (rule Fresh) (simp add: sample_reactor_def)
  from reached_connect[OF this] have
    "reached sample_reactor False \<lparr>pr_reactor = 0, pr_threads = [NotScheduled], pr_thread = Some 0, pr_stop = False, pr_joining = None\<rparr>"
    by (simp add: thread_steps)
  from reached_connect[OF this] have
    "reached sample_reactor False \<lparr>pr_reactor = 0, pr_threads = [NotScheduled, NotScheduled], pr_thread = Some 1, pr_stop = False, pr_joining = None\<rparr>"
    by (simp add: thread_steps)
  from reached_runs[OF this, of 0] have
    "reached sample_reactor False \<lparr>pr_reactor = 1, pr_threads = [InReactor, NotScheduled], pr_thread = Some 1, pr_stop = False, pr_joining = None\<rparr>"
    by (simp add: thread_steps)
  from reached_runs[OF this, of 1] have
    "reached sample_reactor False \<lparr>pr_reactor = 1, pr_threads = [InReactor, Ended], pr_thread = Some 1, pr_stop = False, pr_joining = None\<rparr>"
    by (simp add: thread_steps)
  from reached_shutdown[OF this] have
    "reached sample_reactor False \<lparr>pr_reactor = 1, pr_threads = [InReactor, Ended], pr_thread = Some 1, pr_stop = True, pr_joining = Some 1\<rparr>"
    by (simp add: thread_steps)
  moreover have "join_returns \<lparr>pr_reactor = 1::nat, pr_threads = [InReactor, Ended], pr_thread = Some 1, pr_stop = True, pr_joining = Some 1\<rparr> =
      Some \<lparr>pr_reactor = 1, pr_threads = [InReactor, Ended], pr_thread = None, pr_stop = True, pr_joining = None\<rparr>"
    by (simp add: join_returns_def)
  ultimately show ?thesis by (intro exI conjI) (assumption, assumption, simp add: sample_reactor_def)
qed

text \<open>A client that is connected after the reactor was stopped is never served.\<close>

lemma stopped_for_good:
  assumes "process_step re careful p p'" "runs_once re" "\<not> re_running re (pr_reactor p)" "re_run re (pr_reactor p) = None"
  shows "pr_reactor p' = pr_reactor p"
  using assms
  by cases (auto simp: connect_thread_def shutdown_def join_returns_def thread_runs_def reactor_stops_def split: option.splits if_splits)

end
