(* ===== verification/Imagematch.thy ===== *)
theory Imagematch
  imports PixelFormats Complex_Main
begin

text \<open>
  \<open>vncdotool/imagematch.py\<close>: how near two screens have to be to count as the same. The arithmetic is that of the
  reals, where the program has Python's floats for the bound and Pillow's 32-bit floats for the bands. An
  image is its size and its pixels, row by row; Pillow's box blur is an argument.
\<close>

section \<open>Pixels in YIQ\<close>

type_synonym rgb = "nat \<times> nat \<times> nat"
type_synonym axis = "real \<times> real \<times> real"

record rgb_image =
  ri_size :: "nat \<times> nat"
  ri_pixels :: "rgb list"

definition Y_axis :: axis where
  "Y_axis = (0.29889531, 0.58662247, 0.11448223)"

definition I_axis :: axis where
  "I_axis = (0.59597799, - 0.27417610, - 0.32180189)"

definition Q_axis :: axis where
  "Q_axis = (0.11147015, - 0.52248202, 0.41101187)"

definition WEIGHTS :: axis where
  "WEIGHTS = (0.5053, 0.299, 0.1957)"

definition MAX_DELTA :: real where
  "MAX_DELTA = 35215"

definition band :: "axis \<Rightarrow> rgb \<Rightarrow> real" where
  "band axis p = (case (axis, p) of ((cr, cg, cb), (r, g, b)) \<Rightarrow> cr * real r + cg * real g + cb * real b)"

definition delta_for :: "axis \<Rightarrow> real" where
  "delta_for differences =
     (case (WEIGHTS, differences) of ((wy, wi, wq), (y, i, q)) \<Rightarrow> wy * y\<^sup>2 + wi * i\<^sup>2 + wq * q\<^sup>2)"

definition scale :: "real \<Rightarrow> real" where
  "scale delta = 255 * sqrt (delta / MAX_DELTA)"

definition pixel_delta :: "rgb \<Rightarrow> rgb \<Rightarrow> real" where
  "pixel_delta p q =
     scale (delta_for (band Y_axis p - band Y_axis q, band I_axis p - band I_axis q, band Q_axis p - band Q_axis q))"

section \<open>Comparing screens\<close>

text \<open>The highest value of a band; every value is at least 0.\<close>

definition highest :: "real list \<Rightarrow> real" where
  "highest vs = foldr max vs 0"

definition blurred :: "(int \<Rightarrow> rgb_image \<Rightarrow> rgb_image) \<Rightarrow> rgb_image \<Rightarrow> int \<Rightarrow> rgb_image" where
  "blurred box_blur img blur = (if blur = 0 then img else box_blur blur img)"

definition worst_delta :: "(int \<Rightarrow> rgb_image \<Rightarrow> rgb_image) \<Rightarrow> rgb_image \<Rightarrow> rgb_image \<Rightarrow> int \<Rightarrow> real" where
  "worst_delta box_blur actual expected blur =
     highest (map (\<lambda>(p, q). pixel_delta p q)
       (zip (ri_pixels (blurred box_blur actual blur)) (ri_pixels (blurred box_blur expected blur))))"

text \<open>\<open>abs(coefficient) * channel\<close> summed over an axis.\<close>

definition reach :: "axis \<Rightarrow> rgb \<Rightarrow> real" where
  "reach axis cs = (case axis of (cr, cg, cb) \<Rightarrow> band (\<bar>cr\<bar>, \<bar>cg\<bar>, \<bar>cb\<bar>) cs)"

definition channel_bound :: "rgb \<Rightarrow> int" where
  "channel_bound cs =
     \<lceil>scale (delta_for (reach Y_axis cs, reach I_axis cs, reach Q_axis cs))\<rceil>"

definition distance :: "nat \<Rightarrow> nat \<Rightarrow> nat" where
  "distance a b = (if a \<le> b then b - a else a - b)"

definition apart :: "rgb \<Rightarrow> rgb \<Rightarrow> rgb" where
  "apart p q = (case (p, q) of ((r, g, b), (r', g', b')) \<Rightarrow> (distance r r', distance g g', distance b b'))"

text \<open>The extrema of the difference, per channel.\<close>

definition worst_channels :: "rgb_image \<Rightarrow> rgb_image \<Rightarrow> rgb" where
  "worst_channels actual expected =
     foldr (\<lambda>(r, g, b) (r', g', b'). (max r r', max g g', max b b'))
       (map (\<lambda>(p, q). apart p q) (zip (ri_pixels actual) (ri_pixels expected))) (0, 0, 0)"

definition images_match :: "(int \<Rightarrow> rgb_image \<Rightarrow> rgb_image) \<Rightarrow> rgb_image \<Rightarrow> rgb_image \<Rightarrow> int \<Rightarrow> int \<Rightarrow> bool" where
  "images_match box_blur actual expected fuzz blur =
     (if ri_size actual \<noteq> ri_size expected then False
      else if channel_bound (worst_channels actual expected) \<le> fuzz then True
      else worst_delta box_blur actual expected blur \<le> of_int fuzz)"

definition fuzz_for_format :: "pixel_format \<Rightarrow> pf_error + int" where
  "fuzz_for_format pf = (case channel_tolerance pf of Inl e \<Rightarrow> Inl e | Inr cs \<Rightarrow> Inr (channel_bound cs))"

section \<open>The bound\<close>

definition at_most :: "rgb \<Rightarrow> rgb \<Rightarrow> bool" where
  "at_most d cs = (case (d, cs) of ((r, g, b), (r', g', b')) \<Rightarrow> r \<le> r' \<and> g \<le> g' \<and> b \<le> b')"

lemma distance_real: "\<bar>real a - real b\<bar> = real (distance a b)"
  by (simp add: distance_def)

lemma term_reach: "distance a b \<le> n \<Longrightarrow> \<bar>c * (real a - real b)\<bar> \<le> \<bar>c\<bar> * real n"
  by (simp add: abs_mult distance_real mult_left_mono)

lemma band_reach:
  assumes "at_most (apart p q) cs"
  shows "\<bar>band axis p - band axis q\<bar> \<le> reach axis cs"
proof -
  obtain r g b r' g' b' R G B cr cg cb where e: "p = (r, g, b)" "q = (r', g', b')" "cs = (R, G, B)" "axis = (cr, cg, cb)"
    by (metis prod.exhaust)
  have d: "distance r r' \<le> R" "distance g g' \<le> G" "distance b b' \<le> B"
    using assms by (auto simp: e at_most_def apart_def)
  have "band axis p - band axis q =
      cr * (real r - real r') + cg * (real g - real g') + cb * (real b - real b')"
    by (simp add: e band_def algebra_simps)
  moreover have "\<bar>x + y + z\<bar> \<le> \<bar>x\<bar> + \<bar>y\<bar> + \<bar>z\<bar>" for x y z :: real
    by linarith
  ultimately have "\<bar>band axis p - band axis q\<bar> \<le>
      \<bar>cr * (real r - real r')\<bar> + \<bar>cg * (real g - real g')\<bar> + \<bar>cb * (real b - real b')\<bar>"
    by metis
  then show ?thesis
    using term_reach [OF d(1), of cr] term_reach [OF d(2), of cg] term_reach [OF d(3), of cb]
    by (simp add: e reach_def band_def)
qed

lemma square_le: "\<bar>a\<bar> \<le> b \<Longrightarrow> a\<^sup>2 \<le> (b :: real)\<^sup>2"
  using abs_le_square_iff [of a b] by simp

lemma delta_mono:
  assumes "\<bar>y\<bar> \<le> y'" "\<bar>i\<bar> \<le> i'" "\<bar>q\<bar> \<le> q'"
  shows "delta_for (y, i, q) \<le> delta_for (y', i', q')"
  using square_le [OF assms(1)] square_le [OF assms(2)] square_le [OF assms(3)]
  by (simp add: delta_for_def WEIGHTS_def add_mono mult_left_mono)

lemma scale_mono: "a \<le> b \<Longrightarrow> scale a \<le> scale b"
  by (simp add: scale_def MAX_DELTA_def divide_right_mono)

lemma pixel_bound:
  assumes "at_most (apart p q) cs"
  shows "pixel_delta p q \<le> of_int (channel_bound cs)"
proof -
  have "pixel_delta p q \<le> scale (delta_for (reach Y_axis cs, reach I_axis cs, reach Q_axis cs))"
    unfolding pixel_delta_def by (intro scale_mono delta_mono band_reach assms)
  then show ?thesis by (simp add: channel_bound_def) linarith
qed

lemma channel_bound_nonneg: "0 \<le> channel_bound cs"
proof -
  have "0 \<le> scale (delta_for (reach Y_axis cs, reach I_axis cs, reach Q_axis cs))"
    by (simp add: scale_def delta_for_def WEIGHTS_def MAX_DELTA_def)
  then show ?thesis unfolding channel_bound_def by (metis ceiling_mono ceiling_zero)
qed

section \<open>The shortcut\<close>

definition pairs :: "rgb_image \<Rightarrow> rgb_image \<Rightarrow> (rgb \<times> rgb) list" where
  "pairs a b = zip (ri_pixels a) (ri_pixels b)"

definition all_within :: "rgb_image \<Rightarrow> rgb_image \<Rightarrow> rgb \<Rightarrow> bool" where
  "all_within a b cs \<longleftrightarrow> list_all (\<lambda>(p, q). at_most (apart p q) cs) (pairs a b)"

text \<open>
  What Pillow documents of a box blur, in the form the code relies on: every pixel becomes the average of those
  around it, so two blurred images are in no channel further apart than the images were.
\<close>

definition blur_averages :: "(int \<Rightarrow> rgb_image \<Rightarrow> rgb_image) \<Rightarrow> bool" where
  "blur_averages box_blur \<longleftrightarrow>
     (\<forall>blur a b cs. all_within a b cs \<longrightarrow> all_within (box_blur blur a) (box_blur blur b) cs)"

lemma highest_le: "highest vs \<le> x \<longleftrightarrow> 0 \<le> x \<and> (\<forall>v \<in> set vs. v \<le> x)"
  by (induction vs) (auto simp: highest_def)

lemma worst_channels_at_most: "all_within a b (worst_channels a b)"
proof -
  have "\<forall>d \<in> set ds. at_most d (foldr (\<lambda>(r, g, b) (r', g', b'). (max r r', max g g', max b b')) ds (0, 0, 0))" for ds
    by (induction ds) (auto simp: at_most_def split: prod.splits; fastforce)+
  from this [of "map (\<lambda>(p, q). apart p q) (pairs a b)"] show ?thesis
    by (auto simp: all_within_def worst_channels_def pairs_def list_all_iff)
qed

lemma worst_delta_bound:
  assumes "blur_averages box_blur" "all_within a b cs"
  shows "worst_delta box_blur a b blur \<le> of_int (channel_bound cs)"
proof -
  let ?a = "blurred box_blur a blur" and ?b = "blurred box_blur b blur"
  have "all_within ?a ?b cs"
  proof -
    have "all_within (box_blur blur a) (box_blur blur b) cs"
      using assms unfolding blur_averages_def by blast
    then show ?thesis by (simp add: blurred_def assms(2))
  qed
  then have "\<forall>(p, q) \<in> set (pairs ?a ?b). pixel_delta p q \<le> of_int (channel_bound cs)"
    by (auto simp: all_within_def list_all_iff intro: pixel_bound)
  then show ?thesis
    by (auto simp: worst_delta_def highest_le channel_bound_nonneg pairs_def)
qed

lemma match_worst_delta:
  assumes "blur_averages box_blur"
  shows "images_match box_blur actual expected fuzz blur \<longleftrightarrow>
    ri_size actual = ri_size expected \<and> worst_delta box_blur actual expected blur \<le> of_int fuzz"
proof -
  have "worst_delta box_blur actual expected blur \<le> of_int (channel_bound (worst_channels actual expected))"
    by (rule worst_delta_bound [OF assms worst_channels_at_most])
  then show ?thesis
    by (auto simp: images_match_def intro: order_trans)
qed


definition darkened :: "int \<Rightarrow> rgb_image \<Rightarrow> rgb_image" where
  "darkened n img = img\<lparr>ri_pixels := map (\<lambda>(r, g, b). (r div 2, g div 2, b div 2)) (ri_pixels img)\<rparr>"

lemma darkened_averages: "blur_averages darkened"
proof -
  have "distance (a div 2) (b div 2) \<le> distance a b" for a b
    by (auto simp: distance_def)
  then have "at_most (apart p q) cs \<Longrightarrow>
      at_most (apart (case p of (r, g, b) \<Rightarrow> (r div 2, g div 2, b div 2)) (case q of (r, g, b) \<Rightarrow> (r div 2, g div 2, b div 2))) cs" for p q cs
    by (auto simp: at_most_def apart_def split: prod.splits intro: order_trans)
  then show ?thesis
    by (auto simp: blur_averages_def all_within_def pairs_def darkened_def list_all_iff zip_map1 zip_map2 split: prod.splits)
qed


text \<open>
  The default fuzz of a pixel format is enough for what the format cannot express: screens whose channels differ by no
  more than its tolerance match.
\<close>

lemma format_fuzz_matches:
  assumes "blur_averages box_blur" "channel_tolerance pf = Inr cs" "fuzz_for_format pf = Inr fuzz"
    "ri_size a = ri_size b" "all_within a b cs"
  shows "images_match box_blur a b fuzz blur"
  using assms worst_delta_bound [OF assms(1,5)]
  by (simp add: match_worst_delta [OF assms(1)] fuzz_for_format_def)

end
