(* ===== verification/Observer.thy ===== *)
theory Observer
  imports Proxy Driving
begin

text \<open>
  \<open>VNCLoggingClient\<close> of \<open>loggingproxy.py\<close>: the client that decodes the server's half of a proxied session from
  ServerInit on. It is the engine of theory \<open>Rfb\<close> with the callbacks of theory \<open>Client\<close>, three of which the class
  and its factory replace, behind a transport that does nothing; and it tallies the encodings of rectangles. Here
  are its own methods, the instance of the proxy's parameter they make, and that it can neither hang nor read
  anything else than a client would.
\<close>

section \<open>Its state and callbacks\<close>

text \<open>
  \<open>wt_noted\<close> is what was handed to \<open>capture.note_encoding\<close>. \<open>NullTransport\<close> ignores \<open>write\<close> and \<open>loseConnection\<close>, so
  nobody reads the connection's \<open>st_written\<close>, and \<open>st_lost\<close> is free to say that \<open>vncProtocolError\<close> has set
  \<open>self._aborted\<close>, which a callback sees only as its own object's attribute.
\<close>

record ('z, 'i, 'k) watching =
  wt_conn :: "('z, 'i, 'k) vnc_state conn"
  wt_noted :: "int list"

definition observer_protocolError ::
  "abort_reason \<Rightarrow> ('z, 'i, 'k) vnc_state \<Rightarrow> exn + ('z, 'i, 'k) vnc_state" where
  "observer_protocolError reason c = Inr (lose_connection c)"

text \<open>The factory's \<open>clientConnectionMade\<close> does nothing, its \<open>clientConnectionFailed\<close> logs.\<close>

definition observer_hooks :: "('i, 'k) imaging \<Rightarrow> 'z externals \<Rightarrow> ('z, 'i, 'k) vnc_state hooks" where
  "observer_hooks im ex =
     (vnc_hooks im ex)\<lparr>vncConnectionMade := client_vncConnectionMade observer_protocolError Inr,
       vncProtocolError := observer_protocolError, vncAuthFailed := (\<lambda>reason. Inr)\<rparr>"

definition with_conn ::
  "(('z, 'i, 'k) vnc_state conn \<Rightarrow> ('z, 'i, 'k) vnc_state conn) \<Rightarrow> ('z, 'i, 'k) watching \<Rightarrow> ('z, 'i, 'k) watching" where
  "with_conn f v = v\<lparr>wt_conn := f (wt_conn v)\<rparr>"

definition protocol_error_aborts :: "('z, 'i, 'k) vnc_state conn \<Rightarrow> ('z, 'i, 'k) vnc_state conn" where
  "protocol_error_aborts cn = cn\<lparr>cn_aborted := cn_aborted cn \<or> st_lost (cn_client cn)\<rparr>"

text \<open>\<open>startLogging\<close>: the handshake is skipped, and the parser waits for ServerInit.\<close>

definition startLogging :: "('i, 'k) imaging \<Rightarrow> 'z externals \<Rightarrow> ('z, 'i, 'k) watching" where
  "startLogging im ex =
     \<lparr>wt_conn = (expect HandleServerInit 24 (conn_init (vnc_init im ex)))\<lparr>cn_greeted := True\<rparr>, wt_noted = []\<rparr>"

section \<open>What it does with the server's bytes\<close>

text \<open>\<open>_handleRectangle\<close> notes the encoding of its block before the client's own method runs.\<close>

definition note_rectangle :: "('z, 'i, 'k) watching \<Rightarrow> ('z, 'i, 'k) watching" where
  "note_rectangle v =
     (case cn_parked (wt_conn v) of
        HandleRectangle \<Rightarrow>
          v\<lparr>wt_noted := wt_noted v @ [s32_of (u32_at 8 (take (cn_len (wt_conn v)) (cn_packet (wt_conn v))))]\<rparr>
      | _ \<Rightarrow> v)"

text \<open>An exception goes with the observer as the turn that raised it began.\<close>

definition observer_turn ::
  "'z externals \<Rightarrow> ('z, 'i, 'k) vnc_state hooks \<Rightarrow> ('z, 'i, 'k) watching \<Rightarrow>
     (exn \<times> ('z, 'i, 'k) watching) + ('z, 'i, 'k) watching" where
  "observer_turn ex hk v =
     (case turn ex hk (wt_conn v) of
        Inl e \<Rightarrow> Inl (e, note_rectangle v)
      | Inr cn \<Rightarrow> Inr ((note_rectangle v)\<lparr>wt_conn := protocol_error_aborts cn\<rparr>))"

partial_function (option) observer_loop ::
  "'z externals \<Rightarrow> ('z, 'i, 'k) vnc_state hooks \<Rightarrow> ('z, 'i, 'k) watching \<Rightarrow>
     ((exn \<times> ('z, 'i, 'k) watching) + ('z, 'i, 'k) watching) option" where
  "observer_loop ex hk v =
     (if runs (wt_conn v)
      then (case observer_turn ex hk v of Inl r \<Rightarrow> Some (Inl r) | Inr v' \<Rightarrow> observer_loop ex hk v')
      else Some (Inr v))"

definition observer_dataReceived ::
  "'z externals \<Rightarrow> ('z, 'i, 'k) vnc_state hooks \<Rightarrow> bytes \<Rightarrow> ('z, 'i, 'k) watching \<Rightarrow>
     ((exn \<times> ('z, 'i, 'k) watching) + ('z, 'i, 'k) watching) option" where
  "observer_dataReceived ex hk d v =
     (if cn_aborted (wt_conn v) then Some (Inr v)
      else observer_loop ex hk
        (with_conn (\<lambda>cn. cn\<lparr>cn_tls_pending := False, cn_packet := cn_packet cn @ d\<rparr>) v))"

text \<open>A pixel format the client asked the server for: \<open>requested_pixel_format\<close> and \<open>setImageMode\<close>.\<close>

definition observer_format ::
  "pixel_format \<Rightarrow> ('z, 'i, 'k) watching \<Rightarrow> exn option \<times> ('z, 'i, 'k) watching" where
  "observer_format pf v =
     (let c = (cn_client (wt_conn v))\<lparr>vc_requested_pixfmt := Some pf\<rparr>
      in case setImageMode observer_protocolError c of
           Inl e \<Rightarrow> (Some e, with_conn (\<lambda>cn. cn\<lparr>cn_client := c\<rparr>) v)
         | Inr c' \<Rightarrow> (None, with_conn (\<lambda>cn. protocol_error_aborts (cn\<lparr>cn_client := c'\<rparr>)) v))"

text \<open>
  The observer of theory \<open>Proxy\<close>. The proxy swallows an exception; how far the turn that raised it had come is the
  parameter \<open>left\<close>. A delivery that never returned would leave nothing behind; \<open>observer_never_blocks\<close> shows
  that there is none.
\<close>

definition observer_of ::
  "('i, 'k) imaging \<Rightarrow> 'z externals \<Rightarrow> (exn \<Rightarrow> ('z, 'i, 'k) watching \<Rightarrow> ('z, 'i, 'k) watching) \<Rightarrow>
     ('z, 'i, 'k) watching observer" where
  "observer_of im ex left =
     \<lparr>ob_start = startLogging im ex,
      ob_data = (\<lambda>d v. case observer_dataReceived ex (observer_hooks im ex) d v of
          None \<Rightarrow> v | Some (Inl (e, v')) \<Rightarrow> left e v' | Some (Inr v') \<Rightarrow> v'),
      ob_format = observer_format,
      ob_offered = (\<lambda>es. with_conn (with_client (encodingsOffered es))),
      ob_noted = wt_noted\<rparr>"

section \<open>It reads what a client reads\<close>

lemma note_conn [simp]: "wt_conn (note_rectangle v) = wt_conn v"
  by (simp add: note_rectangle_def split: parked.splits)

lemma with_conn_sel [simp]: "wt_conn (with_conn f v) = f (wt_conn v)" "wt_noted (with_conn f v) = wt_noted v"
  by (simp_all add: with_conn_def)

lemma aborts_sel [simp]:
  "cn_parked (protocol_error_aborts cn) = cn_parked cn" "cn_packet (protocol_error_aborts cn) = cn_packet cn"
  "cn_len (protocol_error_aborts cn) = cn_len cn" "cn_greeted (protocol_error_aborts cn) = cn_greeted cn"
  "cn_client (protocol_error_aborts cn) = cn_client cn"
  by (simp_all add: protocol_error_aborts_def)

lemma aborts_same: "\<not> cn_aborted (protocol_error_aborts cn) \<Longrightarrow> protocol_error_aborts cn = cn"
  by (simp add: protocol_error_aborts_def)

lemma loop_aborted: "cn_aborted (wt_conn v) \<Longrightarrow> observer_loop ex hk v = Some (Inr v)"
  by (subst observer_loop.simps) (simp add: aborted_stops)

lemma observer_loop_returns:
  "handleExpected ex hk cn = Some r \<Longrightarrow> \<forall>v. wt_conn v = cn \<longrightarrow> observer_loop ex hk v \<noteq> None"
proof (erule handleExpected.raw_induct [rotated], intro allI impI)
  fix f ex hk cn r and v :: "('a, 'b, 'c) watching"
  assume IH: "\<And>ex hk cn r. f ex hk cn = Some r \<Longrightarrow> \<forall>v. wt_conn v = cn \<longrightarrow> observer_loop ex hk v \<noteq> None"
    and body: "(if runs cn
      then case turn ex hk cn of Inl e \<Rightarrow> Some (Inl e) | Inr cn' \<Rightarrow> f ex hk cn'
      else Some (Inr cn)) = Some r"
    and v: "wt_conn v = cn"
  show "observer_loop ex hk v \<noteq> None"
  proof (cases "runs cn \<and> (\<exists>cn'. turn ex hk cn = Inr cn')")
    case True
    then obtain cn' where t: "runs cn" "turn ex hk cn = Inr cn'" by blast
    let ?v = "(note_rectangle v)\<lparr>wt_conn := protocol_error_aborts cn'\<rparr>"
    have "observer_loop ex hk ?v \<noteq> None"
    proof (cases "cn_aborted (protocol_error_aborts cn')")
      case True
      then show ?thesis using loop_aborted [of ?v] by simp
    next
      case False
      then show ?thesis using IH [of ex hk cn' r] body t by (simp add: aborts_same)
    qed
    then show ?thesis using t v by (subst observer_loop.simps) (simp add: observer_turn_def)
  next
    case False
    then show ?thesis using v by (subst observer_loop.simps) (auto simp: observer_turn_def split: sum.splits)
  qed
qed

text \<open>What a call leaves: still a session, and unless it was given up what the engine's own loop leaves.\<close>

definition watching_ok :: "('z, 'i, 'k) watching \<Rightarrow> bool" where
  "watching_ok v \<longleftrightarrow> in_session (cn_parked (wt_conn v)) \<and> cn_greeted (wt_conn v)"

definition reads ::
  "'z externals \<Rightarrow> ('z, 'i, 'k) vnc_state hooks \<Rightarrow> ('z, 'i, 'k) watching \<Rightarrow>
     (exn \<times> ('z, 'i, 'k) watching) + ('z, 'i, 'k) watching \<Rightarrow> bool" where
  "reads ex hk v r \<longleftrightarrow>
     watching_ok v \<longrightarrow>
     (case r of
        Inl (e, v') \<Rightarrow> watching_ok v' \<and> handleExpected ex hk (wt_conn v) = Some (Inl e)
      | Inr v' \<Rightarrow> watching_ok v' \<and>
          (cn_aborted (wt_conn v') \<or> handleExpected ex hk (wt_conn v) = Some (Inr (wt_conn v'))))"

lemma handleExpected_aborted: "cn_aborted cn \<Longrightarrow> handleExpected ex hk cn = Some (Inr cn)"
  by (subst handleExpected.simps) (simp add: aborted_stops)

lemma reads_turn:
  assumes t: "runs (wt_conn v)" "turn ex hk (wt_conn v) = Inr cn"
    and r: "reads ex hk ((note_rectangle v)\<lparr>wt_conn := protocol_error_aborts cn\<rparr>) r"
  shows "reads ex hk v r"
proof -
  have one: "handleExpected ex hk (wt_conn v) = handleExpected ex hk cn"
    using t by (simp add: handleExpected_turn go_def)
  have "watching_ok ((note_rectangle v)\<lparr>wt_conn := protocol_error_aborts cn\<rparr>)" if "watching_ok v"
    using turn_stays [OF _ t(2)] that by (simp add: stays_def watching_ok_def)
  then show ?thesis
    using r one handleExpected_aborted [of "protocol_error_aborts cn" ex hk] aborts_same [of cn]
    by (cases "cn_aborted (protocol_error_aborts cn)") (auto simp: reads_def split: sum.splits)
qed

lemma observer_loop_reads: "observer_loop ex hk v = Some r \<Longrightarrow> reads ex hk v r"
proof (erule observer_loop.raw_induct [rotated])
  fix f ex hk and v :: "('a, 'b, 'c) watching" and r
  assume IH: "\<And>ex hk v r. f ex hk v = Some r \<Longrightarrow> reads ex hk v r"
    and body: "(if runs (wt_conn v)
      then case observer_turn ex hk v of Inl r \<Rightarrow> Some (Inl r) | Inr v' \<Rightarrow> f ex hk v'
      else Some (Inr v)) = Some r"
  show "reads ex hk v r"
  proof (cases "runs (wt_conn v)")
    case False
    then have "handleExpected ex hk (wt_conn v) = Some (Inr (wt_conn v))" by (simp add: handleExpected.simps)
    then show ?thesis using False body by (auto simp: reads_def)
  next
    case True
    show ?thesis
    proof (cases "turn ex hk (wt_conn v)")
      case (Inl e)
      then show ?thesis using True body by (auto simp: observer_turn_def handleExpected_turn go_def reads_def watching_ok_def)
    next
      case (Inr cn)
      then have "f ex hk ((note_rectangle v)\<lparr>wt_conn := protocol_error_aborts cn\<rparr>) = Some r"
        using True body by (simp add: observer_turn_def)
      then show ?thesis using IH reads_turn True Inr by blast
    qed
  qed
qed

lemma observer_data:
  assumes ok: "watching_ok v"
  obtains r where "observer_dataReceived ex hk d v = Some r"
    "case r of
       Inl (e, v') \<Rightarrow> watching_ok v' \<and> dataReceived ex hk d (wt_conn v) = Some (Inl e)
     | Inr v' \<Rightarrow> watching_ok v' \<and>
         (cn_aborted (wt_conn v') \<or> dataReceived ex hk d (wt_conn v) = Some (Inr (wt_conn v')))"
proof (cases "cn_aborted (wt_conn v)")
  case True
  then show thesis using that [of "Inr v"] ok by (simp add: observer_dataReceived_def)
next
  case False
  let ?v = "with_conn (\<lambda>cn. cn\<lparr>cn_tls_pending := False, cn_packet := cn_packet cn @ d\<rparr>) v"
  have v: "watching_ok ?v" using ok by (simp add: watching_ok_def)
  then obtain q where "handleExpected ex hk (wt_conn ?v) = Some q"
    using session_returns [of "wt_conn ?v" ex hk] by (auto simp: watching_ok_def returns_def)
  then obtain r where r: "observer_loop ex hk ?v = Some r"
    using observer_loop_returns by blast
  have "dataReceived ex hk d (wt_conn v) = handleExpected ex hk (wt_conn ?v)"
    using False ok by (simp add: dataReceived_def watching_ok_def)
  with observer_loop_reads [OF r] r v False show thesis
    by (intro that [of r]) (auto simp: observer_dataReceived_def reads_def split: sum.splits)
qed

section \<open>Inside the proxy\<close>

definition observed :: "('z, 'i, 'k) watching proxy_app \<Rightarrow> bool" where
  "observed a \<longleftrightarrow> (\<forall>v. ap_observer a = Some v \<longrightarrow> watching_ok v)"

lemma offered_ok [simp]: "watching_ok (with_conn (with_client f) v) = watching_ok v"
  by (simp add: watching_ok_def with_client_def)

lemma observer_format_ok: "observer_format pf v = (raised, v') \<Longrightarrow> watching_ok v \<Longrightarrow> watching_ok v'"
  by (auto simp: observer_format_def watching_ok_def Let_def split: sum.splits)

lemma startLogging_ok [simp]: "watching_ok (startLogging im ex)"
  by (simp add: startLogging_def watching_ok_def expect_def)

lemma events_observer [simp]:
  "ap_observer (snd (proxy_keyEvent clock key down a)) = ap_observer a"
  "ap_observer (snd (proxy_pointerEvent clock x y buttonmask a)) = ap_observer a"
  by (simp_all add: proxy_keyEvent_def proxy_pointerEvent_def record_line_def Let_def split: option.split)

lemma format_observed: "observed a \<Longrightarrow> observed (snd (proxy_setPixelFormat (observer_of im ex left) pf a))"
  by (auto simp: proxy_setPixelFormat_def observed_def observer_of_def split: option.splits prod.splits
      dest: observer_format_ok)

lemma encodings_observed: "observed a \<Longrightarrow> observed (snd (proxy_setEncodings (observer_of im ex left) es a))"
  by (auto simp: proxy_setEncodings_def observed_def observer_of_def Let_def split: option.splits)

lemma handlers_observed:
  "observed a \<Longrightarrow> observed (snd (proxy_handlers clock (observer_of im ex left) ev a))"
  by (cases ev)
    (simp_all add: proxy_handlers_def format_observed encodings_observed observed_def [of "snd (proxy_keyEvent _ _ _ _)"]
      observed_def [of "snd (proxy_pointerEvent _ _ _ _ _)"], simp_all add: observed_def observer_of_def)

text \<open>What an exception leaves is still the parser of a session.\<close>

definition leaves_session :: "(exn \<Rightarrow> ('z, 'i, 'k) watching \<Rightarrow> ('z, 'i, 'k) watching) \<Rightarrow> bool" where
  "leaves_session left \<longleftrightarrow> (\<forall>e v. watching_ok v \<longrightarrow> watching_ok (left e v))"

lemma data_observed:
  assumes "leaves_session left" "watching_ok v"
  shows "watching_ok (ob_data (observer_of im ex left) d v)"
proof -
  obtain r where "observer_dataReceived ex (observer_hooks im ex) d v = Some r"
    "case r of
       Inl (e, v') \<Rightarrow> watching_ok v' \<and> dataReceived ex (observer_hooks im ex) d (wt_conn v) = Some (Inl e)
     | Inr v' \<Rightarrow> watching_ok v' \<and> (cn_aborted (wt_conn v') \<or>
         dataReceived ex (observer_hooks im ex) d (wt_conn v) = Some (Inr (wt_conn v')))"
    using assms(2) by (rule observer_data)
  then show ?thesis
    using assms(1) by (cases r) (auto simp: observer_of_def leaves_session_def)
qed

lemma capture_data_app: "capture_data t d p = (aborted, p') \<Longrightarrow> px_server p' = px_server p"
  by (auto simp: capture_data_def abort_capture_def Let_def split: option.splits if_splits)

lemma step_observed:
  assumes left: "leaves_session left" and "observed (rs_app (px_server p))"
  shows "observed (rs_app (px_server (proxy_step clock (observer_of im ex left) x p)))"
proof -
  obtain t d where x: "x = (t, d)" by force
  let ?q = "if d \<noteq> [] then p\<lparr>px_saw_bytes := True\<rparr> else p"
  obtain aborted p1 where c: "capture_data t d ?q = (aborted, p1)" by force
  have p1: "observed (rs_app (px_server p1))" using capture_data_app [OF c] assms(2) by (simp split: if_splits)
  show ?thesis
  proof (cases t)
    case S2C
    have "observed (rs_app (px_server (observe (observer_of im ex left) d p1)))"
      using p1 data_observed [OF left] by (auto simp: observe_def observed_def Let_def split: option.splits)
    then show ?thesis using S2C c p1 by (cases aborted) (simp_all add: x proxy_step_def server_data_def Let_def)
  next
    case C2S
    have "observed (rs_app (snd (server_dataReceived (proxy_handlers clock (observer_of im ex left)) pw d (px_server p1))))"
      for pw
      by (rule server_dataReceived_keeps [where P = observed, OF handlers_observed p1])
    then show ?thesis
      using C2S c p1 assms(2) by (cases aborted) (simp_all add: x proxy_step_def client_data_def Let_def)
  qed
qed

lemma run_observed:
  "leaves_session left \<Longrightarrow>
     observed (rs_app (px_server (proxy_run clock (observer_of im ex left) xs (proxy_connectionMade ts f))))"
proof (induction xs rule: rev_induct)
  case Nil
  then show ?case by (simp add: proxy_run_def proxy_connectionMade_def server_init_def observed_def Let_def)
next
  case (snoc x xs)
  then show ?case using step_observed by (simp add: proxy_run_def)
qed


definition watched_factory :: proxy_factory where
  "watched_factory =
     \<lparr>pf_one_shot = False, pf_session_taken = False, pf_capture_path = None, pf_preserve_auth = False,
      pf_capture_failed = False, pf_password_required = False, pf_server_address = ''host'', pf_finished = False,
      pf_archives = []\<rparr>"

text \<open>A client that greets, chooses no authentication and sends ClientInit: the observer is there.\<close>

lemma client_starts:
  assumes "snd (h ClientInit a) = a'" "fst (h ClientInit a) = None"
  shows "server_dataReceived h False [82, 70, 66, 32, 48, 48, 51, 46, 48, 48, 56, 10, 1, 1] (server_init a) =
    (None, \<lparr>rs_buffer = [], rs_parked = AwaitProtocol 1, rs_lost = False, rs_app = a'\<rparr>)"
proof -
  let ?at = "\<lambda>bs p a. \<lparr>rs_buffer = bs, rs_parked = p, rs_lost = False, rs_app = a\<rparr>"
  let ?g = "[82, 70, 66, 32, 48, 48, 51, 46, 48, 48, 56, 10] :: bytes"
  have init: "(server_init a)\<lparr>rs_buffer := rs_buffer (server_init a) @ ?g @ [1, 1]\<rparr> = ?at (?g @ [1, 1]) AwaitVersion a"
    by (simp add: server_init_def)
  have "serve_client h False (?at (?g @ [1, 1]) AwaitVersion a) = serve_client h False (?at [1, 1] AwaitSecurity a)"
    by (subst serve_client.simps)
      (simp add: server_ready_def threshold_def server_turn_def handle_version_def eat_def park_def pslice_def)
  also have "\<dots> = serve_client h False (?at [1] AwaitClientInit a)"
    by (subst serve_client.simps)
      (simp add: server_ready_def threshold_def server_turn_def handle_security_def eat_def park_def)
  also have "\<dots> = serve_client h False (?at [] (AwaitProtocol 1) a')"
    using assms by (subst serve_client.simps)
      (auto simp: server_ready_def threshold_def server_turn_def handle_clientInit_def eat_def park_def emit_def
        split: prod.splits option.splits)
  also have "\<dots> = (None, ?at [] (AwaitProtocol 1) a')"
    by (subst serve_client.simps) (simp add: server_ready_def threshold_def)
  finally show ?thesis using init by (simp add: server_dataReceived_def)
qed

lemma observer_starts:
  "ap_observer (rs_app (px_server (proxy_run clock ob [(C2S, [82, 70, 66, 32, 48, 48, 51, 46, 48, 48, 56, 10, 1, 1])]
     (proxy_connectionMade ts watched_factory)))) = Some (ob_start ob)"
  by (simp add: proxy_run_def proxy_connectionMade_def watched_factory_def proxy_step_def client_data_def capture_data_def
      client_starts proxy_handlers_def)


section \<open>The tally\<close>

text \<open>What is tallied for an encoding is how often it was noted.\<close>

lemma tally_counts:
  "(case map_of (cw_encodings_seen (fold note_encoding es w)) e of None \<Rightarrow> 0 | Some n \<Rightarrow> n) =
     (case map_of (cw_encodings_seen w) e of None \<Rightarrow> 0 | Some n \<Rightarrow> n) + count_list es e"
  by (induction es arbitrary: w) (auto simp: note_encoding_def update_conv split: option.splits)

end
