(* ===== verification/Archive.thy ===== *)
theory Archive
  imports Proxy Replay "HOL-Library.List_Lexorder" "HOL-Library.Countable"
begin

text \<open>
  The file a capture is kept in: \<open>write_archive\<close> of \<open>capture.py\<close>, \<open>_writeCapture\<close> of \<open>loggingproxy.py\<close>, and
  \<open>load_capture\<close> with the class \<open>Capture\<close> of \<open>replay.py\<close>. The modules \<open>zipfile\<close> and \<open>json\<close> are parameters; a
  directory is a map from paths to contents.
\<close>

section \<open>JSON\<close>

text \<open>
  A value of \<open>json\<close>: numbers with a fraction or an exponent are given by their \<open>repr\<close>, and a \<open>dict\<close> by its items in
  their order.
\<close>

datatype json =
    JNull
  | JBool bool
  | JInt int
  | JFloat string
  | JStr unicode
  | JArr "json list"
  | JObj "(unicode \<times> json) list"

instance json :: countable
  by countable_datatype

primrec json_dict :: "json \<Rightarrow> bool" where
  "json_dict JNull = True"
| "json_dict (JBool b) = True"
| "json_dict (JInt i) = True"
| "json_dict (JFloat s) = True"
| "json_dict (JStr s) = True"
| "json_dict (JArr vs) = list_all id (map json_dict vs)"
| "json_dict (JObj es) = (distinct (map fst es) \<and> list_all (\<lambda>e. snd e) (map (map_prod id json_dict) es))"

text \<open>\<open>sort_keys=True\<close>.\<close>

primrec sort_keys :: "json \<Rightarrow> json" where
  "sort_keys JNull = JNull"
| "sort_keys (JBool b) = JBool b"
| "sort_keys (JInt i) = JInt i"
| "sort_keys (JFloat s) = JFloat s"
| "sort_keys (JStr s) = JStr s"
| "sort_keys (JArr vs) = JArr (map sort_keys vs)"
| "sort_keys (JObj es) = JObj (sort_key fst (map (map_prod id sort_keys) es))"

text \<open>\<open>bool(v)\<close>, \<open>v.get(k)\<close> and \<open>tuple(v)\<close>.\<close>

fun py_truth :: "json \<Rightarrow> bool" where
  "py_truth JNull = False"
| "py_truth (JBool b) = b"
| "py_truth (JInt i) = (i \<noteq> 0)"
| "py_truth (JFloat s) = (s \<noteq> ''0.0'' \<and> s \<noteq> ''-0.0'')"
| "py_truth (JStr s) = (s \<noteq> [])"
| "py_truth (JArr vs) = (vs \<noteq> [])"
| "py_truth (JObj es) = (es \<noteq> [])"

definition json_get :: "string \<Rightarrow> json \<Rightarrow> exn + json" where
  "json_get k v =
     (case v of
        JObj es \<Rightarrow> Inr (case map_of es (uni k) of None \<Rightarrow> JNull | Some x \<Rightarrow> x)
      | _ \<Rightarrow> Inl AttributeError)"

definition json_tuple :: "json \<Rightarrow> exn + json list" where
  "json_tuple v =
     (case v of
        JStr s \<Rightarrow> Inr (map (\<lambda>p. JStr [p]) s)
      | JArr vs \<Rightarrow> Inr vs
      | JObj es \<Rightarrow> Inr (map (\<lambda>e. JStr (fst e)) es)
      | _ \<Rightarrow> Inl TypeError)"

section \<open>Libraries and files\<close>

text \<open>
  \<open>zip_read\<close> opens an archive: its members in the order of its directory, each with its contents unless they are
  damaged. \<open>json_dumps\<close> is \<open>dumps\<close> with \<open>indent=2\<close>, the keys in the order given.
\<close>

record archive_tools =
  zip_write :: "(string \<times> bytes) list \<Rightarrow> bytes"
  zip_read :: "bytes \<Rightarrow> (string \<times> bytes option) list option"
  json_dumps :: "json \<Rightarrow> bytes"
  json_loads :: "bytes \<Rightarrow> json option"

text \<open>
  What the documentation of the two modules promises: an archive is read back with the members written to it, and a
  dumped value is loaded again, whatever blanks follow it.
\<close>

definition tools_laws :: "archive_tools \<Rightarrow> bool" where
  "tools_laws ts \<longleftrightarrow>
     (\<forall>ms. distinct (map fst ms) \<longrightarrow> zip_read ts (zip_write ts ms) = Some (map (\<lambda>(n, d). (n, Some d)) ms)) \<and>
     (\<forall>v. json_dict v \<longrightarrow> json_loads ts (json_dumps ts v @ [10]) = Some v)"

type_synonym files = "string \<Rightarrow> bytes option"

text \<open>
  How a write may fail: while the partial file is written, which leaves the given contents of it or, when it could
  not be opened, what was there before; or when it is renamed.
\<close>

datatype write_fault = NoFault | ZipFails "bytes option" | ReplaceFails

section \<open>Writing\<close>

definition opt_json :: "('a \<Rightarrow> json) \<Rightarrow> 'a option \<Rightarrow> json" where
  "opt_json f x = (case x of None \<Rightarrow> JNull | Some a \<Rightarrow> f a)"

definition jobj :: "(string \<times> json) list \<Rightarrow> json" where
  "jobj es = JObj (map (map_prod uni id) es)"

definition row_json :: "int \<times> string option \<times> nat \<Rightarrow> json" where
  "row_json row =
     (case row of (encoding, name, count) \<Rightarrow>
        jobj [(''encoding'', JInt encoding), (''name'', opt_json (\<lambda>n. JStr (uni n)) name),
              (''rectangles'', JInt (int count))])"

definition meta_json :: "capture_meta \<Rightarrow> json" where
  "meta_json m =
     jobj [(''server'', JStr (uni (meta_server m))),
           (''vncdotool_version'', JStr (uni (meta_version m))),
           (''capture_timestamp'', JStr (uni (meta_timestamp m))),
           (''protocol_version'', opt_json JStr (meta_protocol_version m)),
           (''negotiated_version'', opt_json (\<lambda>(major, minor). JArr [JInt major, JInt minor]) (meta_negotiated_version m)),
           (''security_types'', JArr (map (\<lambda>t. JInt (int t)) (meta_security_types m))),
           (''security_type'', opt_json (\<lambda>t. JInt (int t)) (meta_security_type m)),
           (''auth'', JStr (uni (meta_auth m))),
           (''encodings_seen'', JArr (map row_json (meta_encodings_seen m))),
           (''geometry'', opt_json (\<lambda>(width, height).
              jobj [(''width'', JInt (int width)), (''height'', JInt (int height))]) (meta_geometry m))]"

text \<open>The members, and the steps on the disk: the partial file is renamed, or removed on any failure.\<close>

definition archive_members :: "archive_tools \<Rightarrow> json \<Rightarrow> bytes \<Rightarrow> capture_writer \<Rightarrow> (string \<times> bytes) list" where
  "archive_members ts meta session_vdo w =
     [(''s2c.bin'', cw_s2c w), (''c2s.bin'', cw_c2s w), (''session.vdo'', session_vdo),
      (''meta.json'', json_dumps ts (sort_keys meta) @ [10])]"

definition write_archive ::
  "archive_tools \<Rightarrow> write_fault \<Rightarrow> string \<Rightarrow> json \<Rightarrow> bytes \<Rightarrow> capture_writer \<Rightarrow> files \<Rightarrow> bool \<times> files" where
  "write_archive ts fault path meta session_vdo w disk =
     (let archive = zip_write ts (archive_members ts meta session_vdo (writer_flush w));
          partial = path @ ''.part'';
          written = (case fault of
             ZipFails left \<Rightarrow> (case left of None \<Rightarrow> disk | Some d \<Rightarrow> disk(partial \<mapsto> d))
           | _ \<Rightarrow> disk(partial \<mapsto> archive))
      in if fault = NoFault then (True, written(path := written partial, partial := None))
         else (False, if written partial \<noteq> None then written(partial := None) else written))"

text \<open>
  \<open>_writeCapture\<close>. The recorded lines are encoded before anything is written: a lone surrogate among them raises.
\<close>

definition recorded_session :: "'o proxy \<Rightarrow> exn + bytes" where
  "recorded_session p = encode_utf8 (concat (ap_lines (rs_app (px_server p))))"

definition write_capture ::
  "archive_tools \<Rightarrow> write_fault \<Rightarrow> string \<Rightarrow> 'o proxy \<Rightarrow> files \<Rightarrow> bool \<times> files" where
  "write_capture ts fault version p disk =
     (case (px_capture p, pf_capture_path (px_factory p)) of
        (Some w, Some path) \<Rightarrow>
          (case recorded_session p of
             Inl e \<Rightarrow> (False, disk)
           | Inr vdo \<Rightarrow> write_archive ts fault path (meta_json (capture_meta_of version w)) vdo w disk)
      | _ \<Rightarrow> (False, disk))"

section \<open>Loading\<close>

text \<open>Each of these is a \<open>ValueError\<close>.\<close>

datatype load_error = NoSuchFile | NoServerStream | NotAZip | NotJson

record capture_archive =
  ar_s2c :: bytes
  ar_session_vdo :: bytes
  ar_meta :: json

text \<open>The last member of a name is the one that is read.\<close>

definition member :: "string \<Rightarrow> (string \<times> bytes option) list \<Rightarrow> bytes option option" where
  "member name ms = map_of (rev ms) name"

definition load_capture :: "archive_tools \<Rightarrow> files \<Rightarrow> string \<Rightarrow> load_error + capture_archive" where
  "load_capture ts disk path =
     (case disk path of
        None \<Rightarrow> Inl NoSuchFile
      | Some d \<Rightarrow>
          (case zip_read ts d of
             None \<Rightarrow> Inl NotAZip
           | Some ms \<Rightarrow>
               (case member ''s2c.bin'' ms of
                  None \<Rightarrow> Inl NoServerStream
                | Some None \<Rightarrow> Inl NotAZip
                | Some (Some s2c) \<Rightarrow>
                    (case (case member ''session.vdo'' ms of None \<Rightarrow> Some [] | Some v \<Rightarrow> v) of
                       None \<Rightarrow> Inl NotAZip
                     | Some vdo \<Rightarrow>
                         (case member ''meta.json'' ms of
                            None \<Rightarrow> Inr \<lparr>ar_s2c = s2c, ar_session_vdo = vdo, ar_meta = JNull\<rparr>
                          | Some None \<Rightarrow> Inl NotAZip
                          | Some (Some text) \<Rightarrow>
                              (case json_loads ts text of
                                 None \<Rightarrow> Inl NotJson
                               | Some v \<Rightarrow> Inr \<lparr>ar_s2c = s2c, ar_session_vdo = vdo, ar_meta = v\<rparr>))))))"

definition auth_preserved :: "capture_archive \<Rightarrow> exn + bool" where
  "auth_preserved a =
     (if py_truth (ar_meta a)
      then (case json_get ''auth'' (ar_meta a) of Inl e \<Rightarrow> Inl e | Inr v \<Rightarrow> Inr (v = JStr (uni ''preserved'')))
      else Inr False)"

definition negotiated_version :: "capture_archive \<Rightarrow> exn + json list option" where
  "negotiated_version a =
     (case (if py_truth (ar_meta a) then json_get ''negotiated_version'' (ar_meta a) else Inr JNull) of
        Inl e \<Rightarrow> Inl e
      | Inr value \<Rightarrow>
          if py_truth value then (case json_tuple value of Inl e \<Rightarrow> Inl e | Inr vs \<Rightarrow> Inr (Some vs)) else Inr None)"

text \<open>The capture as theory \<open>Replay\<close> serves it; None for a version of another shape than \<open>meta\<close> writes.\<close>

definition served :: "capture_archive \<Rightarrow> served_capture option" where
  "served a =
     (case negotiated_version a of
        Inr None \<Rightarrow> Some \<lparr>cap_s2c = ar_s2c a, cap_negotiated_version = None\<rparr>
      | Inr (Some [JInt major, JInt minor]) \<Rightarrow>
          Some \<lparr>cap_s2c = ar_s2c a, cap_negotiated_version = Some (major, minor)\<rparr>
      | _ \<Rightarrow> None)"

section \<open>What is written is read\<close>

lemma distinct_sort_key [simp]: "distinct (map fst (sort_key fst es)) = distinct (map fst es)"
  by (simp add: distinct_map)

lemma map_of_sort_key [simp]: "distinct (map fst es) \<Longrightarrow> map_of (sort_key fst es) = map_of es"
  by (subst map_of_inject_set) simp_all

lemma map_of_values: "map_of (map (map_prod id f) es) k = map_option f (map_of es k)"
  by (induction es) auto

lemma json_dict_sort: "json_dict v \<Longrightarrow> json_dict (sort_keys v)"
proof (induction v)
  case (JArr vs)
  then show ?case by (auto simp: list_all_iff)
next
  case (JObj es)
  then show ?case by (fastforce simp: list_all_iff)
qed simp_all

lemma json_get_sort:
  "json_dict v \<Longrightarrow> json_get k (sort_keys v) =
     (case json_get k v of Inl e \<Rightarrow> Inl e | Inr x \<Rightarrow> Inr (sort_keys x))"
  by (cases v) (auto simp: json_get_def map_of_values split: option.splits)

lemma json_get_jobj: "json_get k (jobj es) = Inr (case map_of es k of None \<Rightarrow> JNull | Some v \<Rightarrow> v)"
  by (induction es) (auto simp: json_get_def jobj_def)

lemma json_dict_jobj: "json_dict (jobj es) \<longleftrightarrow> distinct (map fst es) \<and> (\<forall>v \<in> snd ` set es. json_dict v)"
proof -
  have "distinct (map (uni \<circ> fst) es) \<longleftrightarrow> distinct (map fst es)"
    using distinct_map [of uni "map fst es"] by (simp add: inj_on_def)
  then show ?thesis by (auto simp: jobj_def list_all_iff comp_def)
qed

lemma json_dict_opt: "(\<And>a. json_dict (f a)) \<Longrightarrow> json_dict (opt_json f x)"
  by (cases x) (simp_all add: opt_json_def)

lemma json_dict_meta: "json_dict (meta_json m)"
  by (auto simp: meta_json_def row_json_def json_dict_jobj list_all_iff intro!: json_dict_opt split: prod.splits)

lemma meta_json_get:
  "json_get ''auth'' (sort_keys (meta_json m)) = Inr (JStr (uni (meta_auth m)))"
  "json_get ''negotiated_version'' (sort_keys (meta_json m)) =
     Inr (opt_json (\<lambda>(major, minor). JArr [JInt major, JInt minor]) (meta_negotiated_version m))"
  by (simp_all add: json_get_sort [OF json_dict_meta] opt_json_def split: option.splits prod.splits)
    (simp_all add: meta_json_def json_get_jobj opt_json_def)

lemma meta_json_truth: "py_truth (sort_keys (meta_json m))"
  by (simp add: meta_json_def jobj_def)

lemma load_written:
  assumes laws: "tools_laws ts"
    and disk: "disk path = Some (zip_write ts (archive_members ts (meta_json m) vdo w))"
  shows "load_capture ts disk path =
    Inr \<lparr>ar_s2c = cw_s2c w, ar_session_vdo = vdo, ar_meta = sort_keys (meta_json m)\<rparr>"
proof -
  have "zip_read ts (zip_write ts (archive_members ts (meta_json m) vdo w)) =
      Some (map (\<lambda>(n, d). (n, Some d)) (archive_members ts (meta_json m) vdo w))"
    using laws by (simp add: tools_laws_def archive_members_def)
  moreover have "json_loads ts (json_dumps ts (sort_keys (meta_json m)) @ [10]) = Some (sort_keys (meta_json m))"
    using laws json_dict_sort [OF json_dict_meta] by (simp add: tools_laws_def)
  ultimately show ?thesis
    using disk by (simp add: load_capture_def member_def archive_members_def)
qed

lemma meta_of_served:
  "auth_preserved \<lparr>ar_s2c = d, ar_session_vdo = vdo, ar_meta = sort_keys (meta_json (capture_meta_of v w))\<rparr> =
     Inr (sc_preserve_auth (sb_notes (cw_scrubber w)))"
  "served \<lparr>ar_s2c = d, ar_session_vdo = vdo, ar_meta = sort_keys (meta_json (capture_meta_of v w))\<rparr> =
     Some \<lparr>cap_s2c = d, cap_negotiated_version = sc_negotiated_version (sb_notes (cw_scrubber w))\<rparr>"
  by (simp_all add: auth_preserved_def served_def negotiated_version_def meta_json_truth meta_json_get capture_meta_of_def
      opt_json_def json_tuple_def Let_def split: option.splits prod.splits)

lemma write_archive_disk:
  "write_archive ts fault path meta vdo w disk = (ok, disk') \<Longrightarrow>
     ok = (fault = NoFault) \<and> disk' (path @ ''.part'') = None \<and>
     (if ok then disk' = disk(path \<mapsto> zip_write ts (archive_members ts meta vdo (writer_flush w)), path @ ''.part'' := None)
      else disk' = disk(path @ ''.part'' := None))"
  by (cases fault) (auto simp: write_archive_def fun_eq_iff Let_def split: option.splits if_splits)

text \<open>
  C6: a capture is kept whole or not at all, and what is kept is what is replayed. When a captured session ends, either
  its archive is written, the proxy counts it, and loading the path gives the recorded server stream, the recorded
  script and the negotiated version, so that a replay serves exactly what was recorded; or nothing is
  written, the proxy notes the failure, and the path holds what it held before. No partial file is left by a
  write, and no other file is touched.
\<close>

theorem archive_kept_whole:
  assumes laws: "tools_laws ts"
    and capture: "px_capture p = Some w" "pf_capture_path (px_factory p) = Some path"
    and ends: "\<not> px_refused p" "px_saw_bytes p"
  shows "case write_capture ts fault version p disk of (ok, disk') \<Rightarrow>
    let f = px_factory (proxy_connectionLost ok p); w' = writer_flush w in
    if ok
    then pf_archives f = pf_archives (px_factory p) @ [(path, w')] \<and>
      disk'(path := None) = disk(path := None, path @ ''.part'' := None) \<and>
      (\<exists>a. load_capture ts disk' path = Inr a \<and> recorded_session p = Inr (ar_session_vdo a) \<and>
        auth_preserved a = Inr (sc_preserve_auth (sb_notes (cw_scrubber w))) \<and>
        served a = Some \<lparr>cap_s2c = cw_s2c w', cap_negotiated_version = sc_negotiated_version (sb_notes (cw_scrubber w))\<rparr>)
    else pf_archives f = pf_archives (px_factory p) \<and> pf_capture_failed f \<and>
      (disk' = disk \<or> disk' = disk(path @ ''.part'' := None))"
proof -
  obtain ok disk' where run: "write_capture ts fault version p disk = (ok, disk')" by force
  let ?f = "px_factory (proxy_connectionLost ok p)"
  have counted: "if ok then pf_archives ?f = pf_archives (px_factory p) @ [(path, writer_flush w)]
      else pf_archives ?f = pf_archives (px_factory p) \<and> pf_capture_failed ?f"
    using capture ends by (simp add: proxy_connectionLost_def Let_def)
  show ?thesis
  proof (cases "recorded_session p")
    case (Inl e)
    then show ?thesis using run capture counted by (auto simp: write_capture_def Let_def)
  next
    case (Inr vdo)
    let ?meta = "meta_json (capture_meta_of version w)"
    have wrote: "write_archive ts fault path ?meta vdo w disk = (ok, disk')"
      using run capture Inr by (simp add: write_capture_def)
    note disk = write_archive_disk [OF wrote]
    show ?thesis
    proof (cases ok)
      case False
      then show ?thesis using run counted disk by (simp add: Let_def)
    next
      case True
      then have "disk' = disk(path \<mapsto> zip_write ts (archive_members ts ?meta vdo (writer_flush w)), path @ ''.part'' := None)"
        using disk by simp
      moreover from this have "load_capture ts disk' path = Inr
          \<lparr>ar_s2c = cw_s2c (writer_flush w), ar_session_vdo = vdo, ar_meta = sort_keys ?meta\<rparr>"
        by (intro load_written [OF laws]) simp
      ultimately show ?thesis using run counted True Inr by (simp add: Let_def meta_of_served fun_upd_twist)
    qed
  qed
qed

text \<open>Tools that keep the promises: contents are numbers, written in unary.\<close>

definition counted_tools :: archive_tools where
  "counted_tools =
     \<lparr>zip_write = (\<lambda>ms. replicate (to_nat ms) 0),
      zip_read = (\<lambda>d. Some (map (\<lambda>(n, c). (n, Some c)) (from_nat (length d)))),
      json_dumps = (\<lambda>v. replicate (to_nat v) 0), json_loads = (\<lambda>d. Some (from_nat (length d - 1)))\<rparr>"

lemma counted_tools_laws: "tools_laws counted_tools"
  by (simp add: tools_laws_def counted_tools_def)

definition kept_factory :: proxy_factory where
  "kept_factory =
     \<lparr>pf_one_shot = True, pf_session_taken = False, pf_capture_path = Some ''bug.zip'', pf_preserve_auth = True,
      pf_capture_failed = False, pf_password_required = False, pf_server_address = ''host'', pf_finished = False,
      pf_archives = []\<rparr>"

lemma archive_kept_whole_witness:
  "\<exists>a. load_capture counted_tools (snd (write_capture counted_tools NoFault ''1.4.0''
        ((proxy_connectionMade ''now'' kept_factory)\<lparr>px_saw_bytes := True\<rparr> :: unit proxy) Map.empty)) ''bug.zip'' = Inr a \<and>
     auth_preserved a = Inr True \<and> served a = Some \<lparr>cap_s2c = [], cap_negotiated_version = None\<rparr>"
proof -
  let ?p = "(proxy_connectionMade ''now'' kept_factory)\<lparr>px_saw_bytes := True\<rparr> :: unit proxy"
  let ?w = "writer_init ''host'' (scrubber_init True) ''now''"
  have w: "px_capture ?p = Some ?w" "pf_capture_path (px_factory ?p) = Some ''bug.zip''" "\<not> px_refused ?p" "px_saw_bytes ?p"
    by (simp_all add: proxy_connectionMade_def kept_factory_def)
  have "fst (write_capture counted_tools NoFault ''1.4.0'' ?p Map.empty)"
    using w(1,2) by (simp add: write_capture_def write_archive_def recorded_session_def proxy_connectionMade_def server_init_def
        kept_factory_def Let_def)
  then show ?thesis
    using archive_kept_whole [OF counted_tools_laws w, where fault = NoFault and version = "''1.4.0''" and disk = Map.empty]
    by (auto simp: writer_flush_def scrub_flush_def scrubber_init_def writer_init_def append_to_def pending_def set_pending_def
        waiting_def scan_run_def Let_def split: prod.splits)
qed

section \<open>A key that loses the capture\<close>

lemma encode_utf8_surrogate: "p \<in> set s \<Longrightarrow> 0xD800 \<le> p \<Longrightarrow> p < 0xE000 \<Longrightarrow> encode_utf8 s = Inl UnicodeError"
proof (induction s)
  case (Cons q s)
  have "utf8_char p = None" using Cons.prems by (simp add: utf8_char_def)
  then show ?case using Cons by (auto split: option.splits)
qed simp

text \<open>
  A client whose key event carries a number between 0xD800 and 0xDFFF: \<open>chr\<close> makes a lone surrogate of it, which the
  recorder takes and \<open>encode\<close> refuses, so that the whole capture is given up at its end.
\<close>

lemma surrogate_keysym_loses_capture:
  assumes "proxy_keyEvent clock 0xD800 down a = (None, a')" "set (ap_lines a') \<subseteq> set (ap_lines (rs_app (px_server p)))"
  shows "write_capture ts fault version p disk = (False, disk)"
proof -
  have "list_all (\<lambda>(name, v). v \<noteq> 0xD800) key_members" by (simp add: key_members_def)
  then have "REVERSE_MAP 0xD800 = None"
    by (fastforce simp: REVERSE_MAP_def map_of_eq_None_iff list_all_iff elim: keymap_value)
  then have "0xD800 \<in> set (last (ap_lines a'))"
    using assms(1) by (auto simp: proxy_keyEvent_def record_line_def shlex_quote_def safe_char_def uni_def)
  moreover have "ap_lines a' \<noteq> []"
    using assms(1) by (auto simp: proxy_keyEvent_def record_line_def)
  ultimately have "0xD800 \<in> set (concat (ap_lines (rs_app (px_server p))))"
    using assms(2) last_in_set by fastforce
  then have "recorded_session p = Inl UnicodeError"
    unfolding recorded_session_def by (rule encode_utf8_surrogate) simp_all
  then show ?thesis by (simp add: write_capture_def split: option.splits)
qed

end
