(* ===== verification/Recorders.thy ===== *)
theory Recorders
  imports Proxy
begin

text \<open>
  Where \<open>vnclog\<close> writes what a client does: \<open>VNCLoggingServerFactory.getRecorder\<close>, the files and the buffer it opens, and
  when \<open>clientConnectionLost\<close> closes them. The factory serves all clients and remembers one file: sessions that follow
  one another are recorded whole, those that overlap are not.
\<close>

section \<open>State\<close>

text \<open>
  The factory's \<open>output\<close>, and \<open>capture_path\<close> of the factory, which comes first. A recorder is the \<open>write\<close> of a file that was
  opened, of a buffer, or of the stream.
\<close>

datatype destination = ToDirectory unicode | ToStream

datatype recorder = WriteFile nat | WriteBuffer nat | WriteStream

record session_file =
  sf_path :: unicode
  sf_open :: bool
  sf_lines :: "unicode list"

text \<open>
  \<open>rc_out\<close> and \<open>rc_vdo\<close> are the factory's \<open>_out\<close> and \<open>_capture_vdo\<close>; \<open>rc_client\<close> are the recorders of the clients' proxies.
  \<open>rc_lost\<close> is history: the lines whose \<open>write\<close> raised.
\<close>

record recorders =
  rc_files :: "session_file list"
  rc_buffers :: "unicode list list"
  rc_stream :: "unicode list"
  rc_out :: "nat option"
  rc_vdo :: "nat option"
  rc_client :: "nat \<Rightarrow> recorder option"
  rc_lost :: "(nat \<times> unicode) list"

definition no_recorders :: recorders where
  "no_recorders =
     \<lparr>rc_files = [], rc_buffers = [], rc_stream = [], rc_out = None, rc_vdo = None, rc_client = Map.empty, rc_lost = []\<rparr>"

section \<open>Operations\<close>

text \<open>\<open>os.path.join(output, "%s.vdo" % now)\<close> of a directory that does not end with a slash; \<open>now\<close> is to the second.\<close>

definition session_path :: "unicode \<Rightarrow> unicode \<Rightarrow> unicode" where
  "session_path dir now = (if dir = [] \<or> last dir = 47 then dir else dir @ [47]) @ now @ uni ''.vdo''"

definition getRecorder :: "bool \<Rightarrow> destination \<Rightarrow> unicode \<Rightarrow> recorders \<Rightarrow> recorder \<times> recorders" where
  "getRecorder capturing out now r =
     (if capturing
      then (let i = length (rc_buffers r)
            in (WriteBuffer i, r\<lparr>rc_buffers := rc_buffers r @ [[]], rc_vdo := Some i\<rparr>))
      else
        (case out of
           ToDirectory dir \<Rightarrow>
             (let i = length (rc_files r)
              in (WriteFile i,
                  r\<lparr>rc_files := rc_files r @ [\<lparr>sf_path = session_path dir now, sf_open = True, sf_lines = []\<rparr>],
                    rc_out := Some i\<rparr>))
         | ToStream \<Rightarrow> (WriteStream, r)))"

text \<open>Writing to a closed file is a \<open>ValueError\<close>; a buffer is never closed.\<close>

definition write_line :: "recorder \<Rightarrow> unicode \<Rightarrow> recorders \<Rightarrow> exn + recorders" where
  "write_line w line r =
     (case w of
        WriteFile i \<Rightarrow>
          (let f = rc_files r ! i
           in if sf_open f then Inr (r\<lparr>rc_files := (rc_files r)[i := f\<lparr>sf_lines := sf_lines f @ [line]\<rparr>]\<rparr>)
              else Inl ValueError)
      | WriteBuffer i \<Rightarrow> Inr (r\<lparr>rc_buffers := (rc_buffers r)[i := rc_buffers r ! i @ [line]]\<rparr>)
      | WriteStream \<Rightarrow> Inr (r\<lparr>rc_stream := rc_stream r @ [line]\<rparr>))"

text \<open>\<open>getRecordedSession\<close>, before it is encoded.\<close>

definition recorded_lines :: "recorders \<Rightarrow> unicode list" where
  "recorded_lines r = (case rc_vdo r of None \<Rightarrow> [] | Some i \<Rightarrow> rc_buffers r ! i)"

definition recorder_lost :: "recorders \<Rightarrow> recorders" where
  "recorder_lost r =
     (case rc_out r of
        None \<Rightarrow> r
      | Some i \<Rightarrow> r\<lparr>rc_files := (rc_files r)[i := (rc_files r ! i)\<lparr>sf_open := False\<rparr>], rc_out := None\<rparr>)
     \<lparr>rc_vdo := None\<rparr>"

text \<open>
  A client is accepted at a time; one of its messages is recorded, where \<open>dataReceived\<close> logs an exception and goes on; it
  leaves. Refused clients do none of this.
\<close>

datatype recorder_event = Accepted nat unicode | Recorded nat unicode | Gone nat

definition recorder_step :: "bool \<Rightarrow> destination \<Rightarrow> recorder_event \<Rightarrow> recorders \<Rightarrow> recorders" where
  "recorder_step capturing out ev r =
     (case ev of
        Accepted c now \<Rightarrow> (case getRecorder capturing out now r of (w, r') \<Rightarrow> r'\<lparr>rc_client := (rc_client r')(c \<mapsto> w)\<rparr>)
      | Recorded c line \<Rightarrow>
          (case rc_client r c of
             None \<Rightarrow> r
           | Some w \<Rightarrow> (case write_line w line r of Inl e \<Rightarrow> r\<lparr>rc_lost := rc_lost r @ [(c, line)]\<rparr> | Inr r' \<Rightarrow> r'))
      | Gone c \<Rightarrow> recorder_lost r)"

abbreviation record_events :: "bool \<Rightarrow> destination \<Rightarrow> recorder_event list \<Rightarrow> recorders \<Rightarrow> recorders" where
  "record_events capturing out \<equiv> fold (recorder_step capturing out)"

section \<open>One client at a time\<close>

fun alone :: "nat option \<Rightarrow> recorder_event list \<Rightarrow> bool" where
  "alone q [] \<longleftrightarrow> True"
| "alone q (Accepted c now # evs) \<longleftrightarrow> q = None \<and> alone (Some c) evs"
| "alone q (Recorded c line # evs) \<longleftrightarrow> q = Some c \<and> alone q evs"
| "alone q (Gone c # evs) \<longleftrightarrow> q = Some c \<and> alone None evs"

text \<open>What each session recorded, with the time it began; the first is the one that is going on.\<close>

fun sessions :: "recorder_event list \<Rightarrow> unicode list \<times> (unicode \<times> unicode list) list" where
  "sessions [] = ([], [])"
| "sessions (Accepted c now # evs) = (case sessions evs of (lines, rest) \<Rightarrow> ([], (now, lines) # rest))"
| "sessions (Recorded c line # evs) = (case sessions evs of (lines, rest) \<Rightarrow> (line # lines, rest))"
| "sessions (Gone c # evs) = ([], snd (sessions evs))"

definition file_shown :: "session_file \<Rightarrow> unicode \<times> unicode list" where
  "file_shown f = (sf_path f, sf_lines f)"

definition expected :: "unicode \<Rightarrow> unicode \<times> unicode list \<Rightarrow> unicode \<times> unicode list" where
  "expected dir s = (session_path dir (fst s), snd s)"

text \<open>Between two sessions every file is closed; in one, just the last is open and the client writes to it.\<close>

definition going :: "nat option \<Rightarrow> recorders \<Rightarrow> bool" where
  "going q r \<longleftrightarrow>
     (case q of
        None \<Rightarrow> rc_out r = None \<and> list_all (\<lambda>f. \<not> sf_open f) (rc_files r)
      | Some c \<Rightarrow>
          (\<exists>closed f. rc_files r = closed @ [f] \<and> list_all (\<lambda>f. \<not> sf_open f) closed \<and> sf_open f \<and>
             rc_out r = Some (length closed) \<and> rc_client r c = Some (WriteFile (length closed))))"

lemma going_accepted:
  "going None r \<Longrightarrow> going (Some c) (recorder_step False (ToDirectory dir) (Accepted c now) r)"
  by (auto simp: going_def recorder_step_def getRecorder_def Let_def)

lemma going_recorded:
  "going (Some c) r \<Longrightarrow> going (Some c) (recorder_step False (ToDirectory dir) (Recorded c line) r)"
  by (auto simp: going_def recorder_step_def write_line_def Let_def)

lemma going_gone:
  "going (Some c) r \<Longrightarrow> going None (recorder_step False (ToDirectory dir) (Gone c) r)"
  by (auto simp: going_def recorder_step_def recorder_lost_def)

lemma shown_accepted:
  "map file_shown (rc_files (recorder_step False (ToDirectory dir) (Accepted c now) r)) =
    map file_shown (rc_files r) @ [(session_path dir now, [])]"
  "rc_lost (recorder_step False (ToDirectory dir) (Accepted c now) r) = rc_lost r"
  by (simp_all add: recorder_step_def getRecorder_def Let_def file_shown_def)

lemma shown_recorded:
  assumes "going (Some c) r"
  shows "\<exists>before path lines. map file_shown (rc_files r) = before @ [(path, lines)] \<and>
    map file_shown (rc_files (recorder_step False (ToDirectory dir) (Recorded c line) r)) = before @ [(path, lines @ [line])]"
    "rc_lost (recorder_step False (ToDirectory dir) (Recorded c line) r) = rc_lost r"
  using assms by (auto simp: going_def recorder_step_def write_line_def Let_def file_shown_def)

lemma shown_gone:
  assumes "going (Some c) r"
  shows "map file_shown (rc_files (recorder_step False (ToDirectory dir) (Gone c) r)) = map file_shown (rc_files r)"
    "rc_lost (recorder_step False (ToDirectory dir) (Gone c) r) = rc_lost r"
  using assms by (auto simp: going_def recorder_step_def recorder_lost_def file_shown_def)

definition continued :: "nat option \<Rightarrow> unicode list \<Rightarrow> (unicode \<times> unicode list) list \<Rightarrow> (unicode \<times> unicode list) list" where
  "continued q lines fs = (if q = None then fs else butlast fs @ [(fst (last fs), snd (last fs) @ lines)])"

lemma sessions_shown:
  assumes "alone q evs" "going q r"
  shows "rc_lost (record_events False (ToDirectory dir) evs r) = rc_lost r \<and>
    (\<exists>q'. going q' (record_events False (ToDirectory dir) evs r)) \<and>
    map file_shown (rc_files (record_events False (ToDirectory dir) evs r)) =
      continued q (fst (sessions evs)) (map file_shown (rc_files r)) @ map (expected dir) (snd (sessions evs))"
  using assms
proof (induction q evs arbitrary: r rule: alone.induct)
  case (1 q)
  then have "\<exists>q'. going q' r" by blast
  moreover have "map file_shown (rc_files r) = continued q [] (map file_shown (rc_files r))"
    using "1.prems"(2) by (cases q) (auto simp: continued_def going_def)
  ultimately show ?case by simp
next
  case (2 q c now evs)
  then have q: "q = None" and rest: "alone (Some c) evs" by auto
  from "2.IH"[OF rest going_accepted] "2.prems"(2)[unfolded q] show ?case
    by (auto simp: q shown_accepted continued_def expected_def split: prod.splits)
next
  case (3 q c line evs)
  then have q: "q = Some c" and rest: "alone (Some c) evs" by auto
  from shown_recorded(1)[OF "3.prems"(2)[unfolded q]] obtain before path lines where
    "map file_shown (rc_files r) = before @ [(path, lines)]"
    "map file_shown (rc_files (recorder_step False (ToDirectory dir) (Recorded c line) r)) = before @ [(path, lines @ [line])]"
    by blast
  with "3.IH"[of "recorder_step False (ToDirectory dir) (Recorded c line) r"] rest
    going_recorded[OF "3.prems"(2)[unfolded q]] shown_recorded(2)[OF "3.prems"(2)[unfolded q]]
  show ?case by (auto simp: q continued_def split: prod.splits)
next
  case (4 q c evs)
  then have q: "q = Some c" and rest: "alone None evs" by auto
  have "map file_shown (rc_files r) \<noteq> []" using "4.prems"(2) by (auto simp: q going_def)
  with "4.IH"[OF rest going_gone] "4.prems"(2)[unfolded q] shown_gone[OF "4.prems"(2)[unfolded q]] show ?case
    by (auto simp: q continued_def)
qed

text \<open>
  What a path holds when its files are closed: opening a file truncates it, so it is what was written to the last one
  opened under that name.
\<close>

definition on_disk :: "recorders \<Rightarrow> unicode \<Rightarrow> unicode list option" where
  "on_disk r path = map_of (rev (map file_shown (rc_files r))) path"

lemma session_path_eq [simp]: "session_path dir now = session_path dir now' \<longleftrightarrow> now = now'"
  by (simp add: session_path_def)

lemma map_of_expected:
  assumes "distinct (map fst ss)" "(now, lines) \<in> set ss"
  shows "map_of (rev (map (expected dir) ss)) (session_path dir now) = Some lines"
proof -
  have "distinct (map fst (rev (map (expected dir) ss)))"
    using assms(1) by (simp add: rev_map[symmetric] comp_def expected_def distinct_map inj_on_def)
  moreover have "(session_path dir now, lines) \<in> set (rev (map (expected dir) ss))"
    using assms(2) by (force simp: expected_def image_iff)
  ultimately show ?thesis by (rule map_of_is_SomeI)
qed



text \<open>Two sessions that begin in the same second have one file, and the first is lost.\<close>

lemma same_second_overwritten:
  "on_disk (record_events False (ToDirectory dir)
      [Accepted a now, Recorded a line, Gone a, Accepted b now, Recorded b line', Gone b] no_recorders)
    (session_path dir now) = Some [line']"
  by (simp add: recorder_step_def getRecorder_def write_line_def recorder_lost_def no_recorders_def Let_def on_disk_def file_shown_def)

text \<open>
  Of two sessions at the same time, the one that ends first closes the file of the one that began last: what that one
  records from then on is lost, and the file of the former stays open.
\<close>

lemma overlapping_session_lost:
  assumes "a \<noteq> b"
  shows "rc_lost (record_events False (ToDirectory dir)
      [Accepted a t, Accepted b u, Recorded b line, Gone a, Recorded b line'] no_recorders) = [(b, line')]"
    "map sf_open (rc_files (record_events False (ToDirectory dir)
      [Accepted a t, Accepted b u, Recorded b line, Gone a, Recorded b line'] no_recorders)) = [True, False]"
  using assms by (simp_all add: recorder_step_def getRecorder_def write_line_def recorder_lost_def no_recorders_def Let_def)

text \<open>The session of a capture, which is the only one: its buffer holds what is archived.\<close>

lemma captured_session_recorded:
  "recorded_lines (record_events True out (Accepted c now # map (Recorded c) lines) no_recorders) = lines"
proof -
  have "recorded_lines (record_events True out (map (Recorded c) lines) r) = rc_buffers r ! i @ lines"
    if "rc_vdo r = Some i" "i < length (rc_buffers r)" "rc_client r c = Some (WriteBuffer i)" for r i
    using that
    by (induction lines arbitrary: r) (simp_all add: recorded_lines_def recorder_step_def write_line_def)
  from this[of "recorder_step True out (Accepted c now) no_recorders" 0] show ?thesis
    by (simp add: recorder_step_def getRecorder_def no_recorders_def Let_def)
qed

end
