(* ===== verification/TlsTrust.thy ===== *)
theory TlsTrust
  imports Security
begin

text \<open>
  The TLS contexts of \<open>vncdotool/vencrypt.py\<close>: \<open>client_options\<close> and what it builds, with the certificates read from a file
  of trust roots.  Reading a file and a certificate are parameters, and a context is described by what it is made
  with.
\<close>

section \<open>Splitting\<close>

text \<open>\<open>bytes.split\<close> at a separator that is not empty.\<close>

fun cut_at :: "'a list \<Rightarrow> 'a list \<Rightarrow> ('a list \<times> 'a list) option" where
  "cut_at sep [] = None"
| "cut_at sep (x # xs) =
     (if take (length sep) (x # xs) = sep then Some ([], drop (length sep) (x # xs))
      else (case cut_at sep xs of None \<Rightarrow> None | Some (before, after) \<Rightarrow> Some (x # before, after)))"

lemma cut_at_Some: "cut_at sep xs = Some (before, after) \<Longrightarrow> xs = before @ sep @ after"
proof (induction xs arbitrary: before)
  case (Cons x xs)
  show ?case
  proof (cases "take (length sep) (x # xs) = sep")
    case True
    with Cons.prems show ?thesis by simp (metis append_take_drop_id drop_eq_Nil2 nat_le_linear take_all)
  next
    case False
    with Cons show ?thesis by (auto split: option.splits)
  qed
qed simp

function split_at :: "'a list \<Rightarrow> 'a list \<Rightarrow> 'a list list" where
  "split_at sep xs =
     (if sep = [] then [xs]
      else (case cut_at sep xs of None \<Rightarrow> [xs] | Some (before, after) \<Rightarrow> before # split_at sep after))"
  by pat_completeness auto
termination
  by (relation "measure (\<lambda>(sep, xs). length xs)") (auto dest!: cut_at_Some)

lemmas [simp del] = split_at.simps

section \<open>Contexts\<close>

definition ANONYMOUS_CIPHERS :: string where
  "ANONYMOUS_CIPHERS = ''AECDH:ADH:@SECLEVEL=0''"

definition PEM_END :: bytes where
  "PEM_END = map of_char ''-----END CERTIFICATE-----''"

datatype 'c trust_root = PlatformTrust | TrustOnly "'c list"

datatype tls_version = TLS1_2

datatype 'c tls_context =
    AnonymousContext string tls_version tls_version
  | UnverifiedContext
  | VerifiedContext unicode "'c trust_root"

record 'c tls_files =
  file_bytes :: "unicode \<Rightarrow> bytes option"
  load_pem :: "bytes \<Rightarrow> 'c option"

datatype trust_error = Unreadable unicode | BadCertificate bytes | NoCertificate unicode | NoHostname

definition pem_blocks :: "bytes \<Rightarrow> bytes list" where
  "pem_blocks pem = map (\<lambda>block. block @ PEM_END) (butlast (split_at PEM_END pem))"

fun load_certificates :: "'c tls_files \<Rightarrow> bytes list \<Rightarrow> trust_error + 'c list" where
  "load_certificates fs [] = Inr []"
| "load_certificates fs (block # blocks) =
     (case load_pem fs block of
        None \<Rightarrow> Inl (BadCertificate block)
      | Some cert \<Rightarrow>
          (case load_certificates fs blocks of Inl e \<Rightarrow> Inl e | Inr certs \<Rightarrow> Inr (cert # certs)))"

definition verified_options :: "'c tls_files \<Rightarrow> unicode \<Rightarrow> unicode option \<Rightarrow> trust_error + 'c tls_context" where
  "verified_options fs hostname ca_certs =
     (case ca_certs of
        None \<Rightarrow> Inr (VerifiedContext hostname PlatformTrust)
      | Some path \<Rightarrow>
          (case file_bytes fs path of
             None \<Rightarrow> Inl (Unreadable path)
           | Some pem \<Rightarrow>
               (case load_certificates fs (pem_blocks pem) of
                  Inl e \<Rightarrow> Inl e
                | Inr certs \<Rightarrow>
                    if certs = [] then Inl (NoCertificate path) else Inr (VerifiedContext hostname (TrustOnly certs)))))"

definition unverified_options :: "'c tls_context" where
  "unverified_options = UnverifiedContext"

definition anonymous_options :: "'c tls_context" where
  "anonymous_options = AnonymousContext ANONYMOUS_CIPHERS TLS1_2 TLS1_2"

definition tls_client_options :: "'c tls_files \<Rightarrow> int \<Rightarrow> tls_policy \<Rightarrow> trust_error + 'c tls_context" where
  "tls_client_options fs subtype policy =
     (if subtype \<in> ANONYMOUS_SUBTYPES then Inr anonymous_options
      else if tp_allow_unverified policy then Inr unverified_options
      else
        (case tp_hostname policy of
           None \<Rightarrow> Inl NoHostname
         | Some hostname \<Rightarrow> verified_options fs hostname (tp_ca_certs policy)))"

section \<open>What is trusted\<close>

lemma split_at_tiles:
  assumes "sep \<noteq> []"
  shows "split_at sep xs \<noteq> [] \<and>
    xs = concat (map (\<lambda>b. b @ sep) (butlast (split_at sep xs))) @ last (split_at sep xs) \<and>
    cut_at sep (last (split_at sep xs)) = None"
  using assms
proof (induction sep xs rule: split_at.induct)
  case (1 sep xs)
  show ?case
  proof (cases "cut_at sep xs")
    case None
    with 1(2) show ?thesis by (subst (1 2 3 4) split_at.simps) simp
  next
    case (Some ba)
    obtain before after where ba: "ba = (before, after)" by fastforce
    have "split_at sep xs = before # split_at sep after"
      using Some 1(2) by (subst split_at.simps) (simp add: ba)
    with 1(1)[OF 1(2) Some ba[symmetric]] 1(2) cut_at_Some[OF Some[unfolded ba]] show ?thesis by (auto simp: ba)
  qed
qed

lemma load_certificates_Inr:
  "load_certificates fs blocks = Inr certs \<Longrightarrow> map (load_pem fs) blocks = map Some certs"
  by (induction blocks arbitrary: certs) (auto split: option.splits sum.splits)


text \<open>A bundle of two certificates with a comment after them.\<close>

definition sample_files :: "bytes tls_files" where
  "sample_files =
     \<lparr>file_bytes = [map of_char ''ca.pem'' \<mapsto> [1, 2] @ PEM_END @ [10, 3] @ PEM_END @ [10]], load_pem = Some\<rparr>"

definition sample_policy :: tls_policy where
  "sample_policy = \<lparr>tp_hostname = Some (map of_char ''host''), tp_ca_certs = Some (map of_char ''ca.pem''), tp_allow_unverified = False\<rparr>"

definition sample_credentials :: credentials where
  "sample_credentials = \<lparr>cr_username = None, cr_password = Some (map of_char ''secret'')\<rparr>"

lemma sample_bundle:
  "tls_client_options sample_files 261 sample_policy =
    Inr (VerifiedContext (map of_char ''host'') (TrustOnly [[1, 2] @ PEM_END, [10, 3] @ PEM_END]))"
  "choose_subtype [257, 261] sample_policy sample_credentials = Some 261"
  by code_simp+


text \<open>
  The kind of context that \<open>Security.client_options\<close> chooses is the one that is built, where the externals say of exactly the
  settings that can be built that they can.
\<close>

definition setup_of :: "'c tls_context \<Rightarrow> unicode option \<Rightarrow> tls_setup" where
  "setup_of context ca_certs =
     (case context of
        AnonymousContext ciphers low high \<Rightarrow> AnonymousTLS
      | UnverifiedContext \<Rightarrow> UnverifiedTLS
      | VerifiedContext hostname root \<Rightarrow> VerifiedTLS hostname ca_certs)"

lemma client_options_builds:
  assumes "\<And>subtype host certs unverified. tls_options ex subtype host certs unverified \<longleftrightarrow>
    (\<exists>context. tls_client_options fs subtype
       \<lparr>tp_hostname = host, tp_ca_certs = certs, tp_allow_unverified = unverified\<rparr> = Inr context)"
  shows "client_options ex subtype policy =
    (case tls_client_options fs subtype policy of
       Inl e \<Rightarrow> Inl ValueError | Inr context \<Rightarrow> Inr (setup_of context (tp_ca_certs policy)))"
proof -
  have built: "tls_options ex subtype (tp_hostname policy) (tp_ca_certs policy) (tp_allow_unverified policy) \<longleftrightarrow>
      (\<exists>context. tls_client_options fs subtype policy = Inr context)"
    using assms by (cases policy) simp
  show ?thesis
    unfolding client_options_def Let_def built
    by (auto simp: tls_client_options_def verified_options_def unverified_options_def anonymous_options_def setup_of_def
        split: option.splits sum.splits)
qed

end
