(* ===== verification/Tunnel.thy ===== *)
theory Tunnel
  imports CommandLine
begin

text \<open>
  What \<open>websocket.py\<close> asks of the tunnel it puts a stream through: where \<open>connect\<close> dials and what the handshake offers, how
  a close is sent, and how one that arrives is reported to the client.  The tunnel itself is autobahn's.
\<close>

section \<open>The handshake\<close>

definition BINARY_SUBPROTOCOL :: unicode where
  "BINARY_SUBPROTOCOL = uni ''binary''"

text \<open>\<open>setSessionParameters\<close> and \<open>enableCompression\<close>.\<close>

record tunnel_offer =
  to_url :: unicode
  to_origin :: unicode
  to_protocols :: "unicode list"
  to_compression :: bool

definition closing_factory :: "url_env \<Rightarrow> unicode \<Rightarrow> bool \<Rightarrow> exn + tunnel_offer" where
  "closing_factory env url compression =
     (case http_origin env url of
        Inl e \<Rightarrow> Inl e
      | Inr origin \<Rightarrow>
          Inr \<lparr>to_url = url, to_origin = origin, to_protocols = [BINARY_SUBPROTOCOL], to_compression = compression\<rparr>)"

text \<open>\<open>connect\<close>: host, port and whether TLS is put around it, and the offer.\<close>

definition tunnel_connect :: "url_env \<Rightarrow> unicode \<Rightarrow> exn + (unicode \<times> nat \<times> bool) \<times> tunnel_offer" where
  "tunnel_connect env url =
     (case ws_endpoint env url of
        Inl e \<Rightarrow> Inl e
      | Inr endpoint \<Rightarrow>
          (case closing_factory env url False of Inl e \<Rightarrow> Inl e | Inr offer \<Rightarrow> Inr (endpoint, offer)))"

section \<open>Closing\<close>

text \<open>\<open>loseConnection\<close> sends the status of a normal closure; \<open>onClose\<close> gives the client a \<open>Failure\<close> of Twisted's.\<close>

datatype tunnel_reason = TunnelDone | TunnelLost "unicode option"

definition tunnel_loseConnection :: int where
  "tunnel_loseConnection = 1000"

definition onClose :: "bool \<Rightarrow> unicode option \<Rightarrow> tunnel_reason" where
  "onClose was_clean reason = (if was_clean then TunnelDone else TunnelLost reason)"

text \<open>Both are a \<open>ConnectionClosed\<close>.\<close>

definition failure_of :: "tunnel_reason \<Rightarrow> failure_kind" where
  "failure_of reason = (case reason of TunnelDone \<Rightarrow> ConnectionClosedFailure | TunnelLost why \<Rightarrow> ConnectionClosedFailure)"

lemma tunnel_close_is_loss:
  assumes "cli_status r = None"
  shows "cli_status (cli_step (ConnectionLost (failure_of (onClose was_clean reason))) r) = Some CONNECTION_LOST"
  using assms by (simp add: cli_step_def cli_error_def cli_done_def status_for_def EXIT_STATUS_FOR_ERROR_def failure_of_def
      split: tunnel_reason.splits)

text \<open>The origin is secure exactly where the stream is.\<close>

lemma tunnel_origin_secure:
  assumes "tunnel_connect env url = Inr ((host, port, tls), offer)"
  shows "tls \<longleftrightarrow> take 5 (to_origin offer) = uni ''https''"
  using assms
  by (auto simp: tunnel_connect_def closing_factory_def ws_endpoint_def http_origin_def uni_def DEFAULT_PORTS_def port_of_def Let_def
      split: sum.splits option.splits if_splits)

end
