(* ===== verification/Spec2Isabelle.thy ===== *)
theory Spec2Isabelle
  imports Tools Recording Api ReactorThread Imagematch Observer Archive Recorders TlsTrust Tunnel
begin

text \<open>
  A verification development for vncdotool: a VNC client for scripts and applications, a proxy that records a
  session or captures it off the wire, and a server that replays a capture. The sources are under \<open>src/vncdotool\<close>.

  \<^bold>\<open>The program.\<close> Bytes from a server reach \<open>RFBClient.dataReceived\<close> (\<open>rfb.py\<close>), which collects them and calls the
  parked handler whenever as many are there as it asked for. Security types (\<open>security/\<close>, \<open>vencrypt.py\<close>), server
  messages (\<open>messages/\<close>) and rectangle decoders (\<open>decoders/\<close>) are generators that yield the number of bytes they
  need; a pump runs them and hands what they produce to the callbacks of \<open>VNCDoToolClient\<close> (\<open>client.py\<close>), which
  paint the screen and complete what the application waits for. Scripts (\<open>command.py\<close>) and the threaded API
  (\<open>api.py\<close>) call the client's operations. The proxy (\<open>loggingproxy.py\<close>) forwards both directions, feeds the
  client's half to \<open>RFBServer\<close>, which calls the recorder, the server's half to an observing client, and both to the
  capture (\<open>capture.py\<close>), whose scrubber takes the credentials out; \<open>replay.py\<close> serves such a capture again.

  \<^bold>\<open>Theories, bottom up.\<close>
  \<^item> \<open>Prelude\<close>: bytes and slices, big-endian fields, and the locales that components share: \<open>fixed_codec\<close> (a
    fixed-width encoding and its inverse; interpreted for the integers and for pixel formats) and
    \<open>stream_machine\<close> (what is fed in pieces does what it does fed at once; interpreted for the client engine in
    \<open>Delivery\<close> and for the scrubber in \<open>Capture\<close>).
  \<^item> \<open>Const\<close>, \<open>PixelFormats\<close>, \<open>Keys\<close>: \<open>const.py\<close>, \<open>pixelformat.py\<close>, \<open>keys.py\<close>.
  \<^item> \<open>Generators\<close>, \<open>Session\<close>: Python generators as a datatype, the exceptions, the state of one connection with the
    third-party code it calls (zlib, JPEG, DES, TLS) as the functions of the record \<open>externals\<close>, and the
    overridable methods as the record \<open>hooks\<close>.
  \<^item> \<open>RectBuffers\<close>, \<open>Decoding\<close>, \<open>SimpleDecoders\<close>, \<open>Hextile\<close>, \<open>Zrle\<close>, \<open>Tight\<close>, \<open>Decoders\<close>: \<open>decoders/\<close>. The locale
    \<open>canvas\<close> is the contract of the rect buffer, \<open>pixel_decoder\<close> that of a decoder filling one; both are
    interpreted on the code's models, each decoder in its theory.
  \<^item> \<open>ClientMessages\<close>, \<open>Messages\<close>, \<open>VeNCrypt\<close>, \<open>Security\<close>: the operations that write messages, the server's
    messages, the choice of a VeNCrypt subtype and the security types.
  \<^item> \<open>Rfb\<close>, \<open>Engine\<close>, \<open>Delivery\<close>, \<open>Updates\<close>, \<open>Handshake\<close>: the engine of \<open>rfb.py\<close>; that pieces do not matter and that
    \<open>dataReceived\<close> returns; the refinement of a big-step specification of updates; the handshake.
  \<^item> \<open>Capture\<close>, \<open>Scrubbing\<close>, \<open>Replay\<close>: \<open>capture.py\<close> and \<open>replay.py\<close>; no credential is recorded, what is recorded replays.
  \<^item> \<open>Client\<close>, \<open>Driving\<close>: \<open>client.py\<close>; keys, drags, what the screen shows, when a refresh completes.
  \<^item> \<open>ProxyServer\<close>, \<open>Proxy\<close>: \<open>loggingproxy.py\<close>; the reader of client messages, the recorder, and that the proxy is
    transparent or fails closed.
  \<^item> \<open>Observer\<close>: the client inside the proxy, on the engine and the callbacks of \<open>Client\<close>; that it always returns.
  \<^item> \<open>Archive\<close>: the file a capture is kept in, from the proxy that writes it to the replay that loads it.
  \<^item> \<open>Command\<close>, \<open>CommandLine\<close>, \<open>Recording\<close>: \<open>command.py\<close>; scripts and what their commands do, addresses, options
    and exit statuses, and the composition of the proxy's recorder with the script reader and the client: what was
    typed is typed again.
  \<^item> \<open>Options\<close>, \<open>Tools\<close>: the options of the three programs, how \<open>argparse\<close> reads a command line by them, and the programs
    from their command line to what they start; the values of options have their types, and a replay drives
    \<open>vncdo\<close> as it was asked to.
  \<^item> \<open>Recorders\<close>: the files the clients of \<open>vnclog\<close> are recorded to, when several come.
  \<^item> \<open>TlsTrust\<close>: the TLS contexts of \<open>vencrypt.py\<close> and which certificates they trust.
  \<^item> \<open>Websocket\<close>, \<open>Tunnel\<close>, \<open>Api\<close>, \<open>Imagematch\<close>: \<open>websocket.py\<close>'s addresses and what it asks of its tunnel,
    the calls between the two threads of \<open>api.py\<close>, and the comparison of screens of \<open>imagematch.py\<close>.
  \<^item> \<open>ReactorThread\<close>: the thread that \<open>connect\<close> starts and \<open>shutdown\<close> waits for, as an inductive step relation.
  \<^item> this theory: a property of the proxy, the capture and the command line together.

  \<^bold>\<open>Conventions.\<close> A Python object is a record that is passed and returned; an exception is the left side of a
  sum, of type \<open>exn\<close> or of the component's own errors. Machine integers on the wire are \<open>8 word\<close> lists read by
  \<open>be_val\<close>; Python's integers are \<open>nat\<close> or \<open>int\<close>, with the range checks of \<open>struct.pack\<close> written out. Text whose code
  points matter is a list of numbers (\<open>unicode\<close>), other text a \<open>string\<close>.

  \<^bold>\<open>Loops.\<close> Recursion is structural or has a measure wherever the code's loop ends. Five loops are
  \<open>partial_function (option)\<close>, where None is a call that never returns: \<open>handleExpected\<close>, which does loop for ever on
  one refusal (\<open>empty_reason_never_returns\<close>) and always returns from ServerInit on (\<open>delivery_pieces_irrelevant\<close>);
  \<open>observer_loop\<close>, which therefore always returns (\<open>observer_never_blocks\<close>); \<open>advance_loop\<close>, which always returns
  (\<open>replay_serves_capture\<close>); Tight's \<open>decompress_loop\<close>, which returns after at most two calls; and \<open>build_from\<close>,
  which does not return for a script that names itself. There is no fuel.

  \<^bold>\<open>Parameters.\<close> zlib, JPEG, DES, the ARD exchange (Diffie-Hellman and AES), TLS, Pillow's images and box blur,
  \<open>float\<close>, the clock, the file system, \<open>zipfile\<close>, \<open>json\<close>, \<open>ipaddress\<close> and the checks of \<open>urllib\<close> on bracketed
  hosts are arguments. Where a theorem needs something of them it is a named hypothesis that states what their
  documentation says (\<open>pixel_laws\<close>, \<open>mask_laws\<close>, \<open>tools_laws\<close>, \<open>blur_averages\<close>, \<open>runs_once\<close>, the promise of
  \<open>max_length\<close> in \<open>Tight\<close>), with a witness on a concrete function. \<open>argparse\<close> is no parameter: \<open>Options\<close> models what the
  declarations use of it, as CPython 3.11 has it.

  \<^bold>\<open>Not modelled.\<close> Log messages and help texts; the Deferred and timers of Twisted beyond what fires when; log handlers,
  listening and the viewer process; the websocket tunnel, which is autobahn's, and OpenSSL inside a TLS context; how far a
  turn of the proxy's observer had come when it raised, which is the parameter \<open>left\<close> of \<open>observer_of\<close>; the buffers
  between a session file and its disk; the \<open>__main__\<close> demonstrations and deprecated names. In \<open>Imagematch\<close> the floats of
  Python and Pillow are reals.
\<close>

section \<open>A capture is kept or the run fails\<close>

text \<open>The invariant of a connection that was asked for a capture.\<close>

definition capturing :: "string \<Rightarrow> (string \<times> capture_writer) list \<Rightarrow> 'o proxy \<Rightarrow> bool" where
  "capturing path archives p \<longleftrightarrow> \<not> px_refused p \<and> pf_capture_path (px_factory p) = Some path \<and>
     pf_archives (px_factory p) = archives \<and> (if px_capture p = None then pf_capture_failed (px_factory p) else True)"

lemma capturing_data:
  "capture_data t d p = (aborted, p') \<Longrightarrow> capturing path archives p \<Longrightarrow>
     capturing path archives p' \<and> px_saw_bytes p' = px_saw_bytes p"
  by (auto simp: capture_data_def abort_capture_def capturing_def Let_def split: option.splits if_splits)

lemma capturing_step:
  assumes "capturing path archives p"
  shows "capturing path archives (proxy_step clock ob x p) \<and>
    (px_saw_bytes (proxy_step clock ob x p) \<longleftrightarrow> px_saw_bytes p \<or> snd x \<noteq> [])"
proof -
  obtain t d where x: "x = (t, d)" by force
  let ?q = "if d \<noteq> [] then p\<lparr>px_saw_bytes := True\<rparr> else p"
  obtain aborted p' where c: "capture_data t d ?q = (aborted, p')" by force
  have q: "capturing path archives ?q" using assms by (simp add: capturing_def)
  have "\<not> px_refused p" using assms by (simp add: capturing_def)
  then show ?thesis
    using c capturing_data [OF c q] by (cases t; cases aborted)
      (auto simp: x proxy_step_def server_data_def client_data_def capturing_def Let_def split: if_splits)
qed

lemma capturing_run:
  assumes "capturing path archives p"
  shows "capturing path archives (proxy_run clock ob xs p) \<and>
    (px_saw_bytes (proxy_run clock ob xs p) \<longleftrightarrow> px_saw_bytes p \<or> list_ex (\<lambda>x. snd x \<noteq> []) xs)"
  using assms
proof (induction xs arbitrary: p)
  case (Cons x xs)
  then show ?case using capturing_step [OF Cons.prems, of clock ob x] by (simp add: proxy_run_def)
qed (simp add: proxy_run_def)

lemma capturing_lost:
  assumes "capturing path archives p" "px_saw_bytes p"
  shows "let g = px_factory (proxy_connectionLost writable p) in (\<exists>w. pf_archives g = archives @ [(path, w)]) \<or> pf_archives g = archives \<and> pf_capture_failed g"
  using assms by (auto simp: capturing_def proxy_connectionLost_def Let_def split: option.splits)

text \<open>
  C5: a session that was to be captured is not lost in silence. When \<open>vnclog\<close> is given an archive to write and accepts a
  connection on which anything arrives, from either side and whatever it is, then at its end either exactly one
  archive was written, to that path, or none was and the exit status tells so.
\<close>

theorem capture_kept_or_reported:
  fixes ob :: "'o observer"
  assumes "pf_capture_path f = Some path" "path \<noteq> []" "\<not> (pf_one_shot f \<and> pf_session_taken f)"
    and "list_ex (\<lambda>x. snd x \<noteq> []) xs"
  shows "let g = px_factory (proxy_connectionLost writable (proxy_run clock ob xs (proxy_connectionMade ts f)))
    in (\<exists>w. pf_archives g = pf_archives f @ [(path, w)]) \<or>
       pf_archives g = pf_archives f \<and> vnclog_exit (pf_capture_failed g) 0 = exit_code COMMAND_FAILED"
proof -
  let ?p = "proxy_connectionMade ts f :: 'o proxy"
  have "capturing path (pf_archives f) ?p"
    using assms(1-3) by (auto simp: capturing_def proxy_connectionMade_def Let_def)
  note run = capturing_run [OF this, of clock ob xs]
  then have "px_saw_bytes (proxy_run clock ob xs ?p)" using assms(4) by simp
  from capturing_lost [OF run [THEN conjunct1] this, of writable]
  show ?thesis by (simp add: Let_def vnclog_exit_def) blast
qed

definition capturing_factory :: proxy_factory where
  "capturing_factory =
     \<lparr>pf_one_shot = True, pf_session_taken = False, pf_capture_path = Some ''bug.zip'', pf_preserve_auth = False,
      pf_capture_failed = False, pf_password_required = False, pf_server_address = ''host'', pf_finished = False,
      pf_archives = []\<rparr>"

lemma capture_kept_or_reported_witness:
  "\<exists>g. g = px_factory (proxy_connectionLost False (proxy_run sample_clock no_observer [(S2C, [82, 70, 66])]
        (proxy_connectionMade ''now'' capturing_factory))) \<and>
     ((\<exists>w. pf_archives g = [(''bug.zip'', w)]) \<or> pf_archives g = [] \<and> vnclog_exit (pf_capture_failed g) 0 = 30)"
  using capture_kept_or_reported [of capturing_factory "''bug.zip''" "[(S2C, [82, 70, 66])]" False sample_clock no_observer "''now''"]
  by (simp add: capturing_factory_def Let_def exit_code_def)

end
